(* ===== verification/Bundy_Prelude.thy ===== *)
theory Bundy_Prelude
  imports Main "HOL-Library.Word"
begin

text \<open>
  Shared vocabulary of the development: the byte type of wire data, the result monad of
  C++ code that throws while it mutates an object, and the generic lemmas on lists and
  words that every component uses.

  An operation of a class is a function from the object to an outcome \<^emph>\<open>and\<close> the object:
  \<open>(Inl e, s')\<close> says that the call threw \<open>e\<close> and left the object in state \<open>s'\<close>, which in
  C++ keeps every assignment made before the throw; \<open>(Inr a, s')\<close> says that it returned
  \<open>a\<close>.  Pure code that only builds a value returns \<open>'e + 'a\<close>.
\<close>

section \<open>Collections of simplification rules\<close>

named_theorems exec_simps \<open>unfolding of the result monad\<close>
named_theorems wire_simps \<open>wire form of label lists\<close>
named_theorems keeps_intros \<open>preservation of an invariant by composed operations\<close>

section \<open>Bytes and characters\<close>

type_synonym byte = "8 word"

definition byte_of_char :: "char \<Rightarrow> byte" where
  "byte_of_char c = word_of_nat (of_char c)"

definition char_of_byte :: "byte \<Rightarrow> char" where
  "char_of_byte b = char_of (unat b)"

lemma of_char_less_256 [simp]: "(of_char c :: nat) < 256"
  by (metis char_of_def of_char_mod_256 mod_less_divisor zero_less_numeral)

lemma char_of_byte_of_char [simp]: "char_of_byte (byte_of_char c) = c"
  by (simp add: char_of_byte_def byte_of_char_def unat_of_nat take_bit_eq_mod)

lemma byte_of_char_of_byte [simp]: "byte_of_char (char_of_byte b) = b"
proof -
  have "unat b < 256"
    using unsigned_less [of b, where ?'a = nat] by simp
  then have "of_char (char_of (unat b)) = unat b"
    by simp
  then show ?thesis
    by (simp add: byte_of_char_def char_of_byte_def)
qed

lemma unat_byte_less [simp]: "unat (b :: byte) < 256"
  using unsigned_less [of b, where ?'a = nat] by simp

lemma unat_of_nat_byte: "n < 256 \<Longrightarrow> unat (word_of_nat n :: byte) = n"
  by (simp add: unat_of_nat take_bit_eq_mod)

lemma word_of_nat_byte_inject:
  "m < 256 \<Longrightarrow> n < 256 \<Longrightarrow> (word_of_nat m :: byte) = word_of_nat n \<longleftrightarrow> m = n"
  by (metis unat_of_nat_byte)

lemma word_of_nat_byte_eq_0: "n < 256 \<Longrightarrow> (word_of_nat n :: byte) = 0 \<longleftrightarrow> n = 0"
  using word_of_nat_byte_inject [of n 0] by simp

section \<open>Exceptions of the DNS and utility libraries\<close>

text \<open>
  The exception classes that the modelled code of \<^verbatim>\<open>src/lib/dns\<close> and \<^verbatim>\<open>src/lib/util\<close>
  throws; a failed \<^verbatim>\<open>assert\<close> and an out-of-bounds read through a raw pointer are outcomes too.
\<close>

datatype bundy_exn =
    EmptyLabel
  | TooLongName
  | TooLongLabel
  | BadLabelType
  | BadEscape
  | IncompleteName
  | MissingNameOrigin
  | InvalidParameter
  | OutOfRange
  | BadValue
  | DNSMessageFORMERR
  | InvalidBufferPosition
  | InvalidTime
  | JSONError
  | TypeError
  | StdOutOfRange
  | AssertionFailure
  | UndefinedRead

section \<open>Results that may be an exception\<close>

definition bindS :: "'e + 'a \<Rightarrow> ('a \<Rightarrow> 'e + 'b) \<Rightarrow> 'e + 'b" where
  "bindS m f = (case m of Inl e \<Rightarrow> Inl e | Inr a \<Rightarrow> f a)"

lemma bindS_simps [simp]:
  "bindS (Inl e) f = Inl e"
  "bindS (Inr a) f = f a"
  by (simp_all add: bindS_def)

lemma bindS_eq_Inr: "bindS m f = Inr b \<longleftrightarrow> (\<exists>a. m = Inr a \<and> f a = Inr b)"
  by (cases m) auto

lemma bindS_eq_Inl: "bindS m f = Inl e \<longleftrightarrow> m = Inl e \<or> (\<exists>a. m = Inr a \<and> f a = Inl e)"
  by (cases m) auto

lemma if_Inl_eq_Inr: "(if c then Inl e else r) = Inr a \<longleftrightarrow> \<not> c \<and> r = Inr a"
  by simp

section \<open>Operations that mutate an object and may throw\<close>

type_synonym ('s, 'e, 'a) exec = "'s \<Rightarrow> ('e + 'a) \<times> 's"

definition ret :: "'a \<Rightarrow> ('s, 'e, 'a) exec" where
  [exec_simps]: "ret a s = (Inr a, s)"

definition raise :: "'e \<Rightarrow> ('s, 'e, 'a) exec" where
  [exec_simps]: "raise e s = (Inl e, s)"

definition modifyE :: "('s \<Rightarrow> 's) \<Rightarrow> ('s, 'e, unit) exec" where
  [exec_simps]: "modifyE f s = (Inr (), f s)"

definition bindE :: "('s, 'e, 'a) exec \<Rightarrow> ('a \<Rightarrow> ('s, 'e, 'b) exec) \<Rightarrow> ('s, 'e, 'b) exec" where
  "bindE m f s = (case m s of (Inl e, s') \<Rightarrow> (Inl e, s') | (Inr a, s') \<Rightarrow> f a s')"

definition thenE :: "('s, 'e, 'a) exec \<Rightarrow> ('s, 'e, 'b) exec \<Rightarrow> ('s, 'e, 'b) exec" where
  "thenE m k s = (case m s of (Inl e, s') \<Rightarrow> (Inl e, s') | (Inr a, s') \<Rightarrow> k s')"

text \<open>
  \<open>catchE p m h\<close> is a \<^verbatim>\<open>try\<close> block with a handler for the exceptions that satisfy
  \<open>p\<close>; every other outcome passes through.
\<close>

definition catchE :: "('e \<Rightarrow> bool) \<Rightarrow> ('s, 'e, 'a) exec \<Rightarrow> ('e \<Rightarrow> ('s, 'e, 'a) exec) \<Rightarrow> ('s, 'e, 'a) exec" where
  "catchE p m h s = (case m s of (Inl e, s') \<Rightarrow> (if p e then h e s' else (Inl e, s')) | (Inr a, s') \<Rightarrow> (Inr a, s'))"

definition liftS :: "'e + 'a \<Rightarrow> ('s, 'e, 'a) exec" where
  [exec_simps]: "liftS r s = (r, s)"

lemma bindE_simps [exec_simps]:
  "m s = (Inl e, s') \<Longrightarrow> bindE m f s = (Inl e, s')"
  "m s = (Inr a, s') \<Longrightarrow> bindE m f s = f a s'"
  by (simp_all add: bindE_def)

lemma thenE_simps [exec_simps]:
  "m s = (Inl e, s') \<Longrightarrow> thenE m k s = (Inl e, s')"
  "m s = (Inr a, s') \<Longrightarrow> thenE m k s = k s'"
  by (simp_all add: thenE_def)

lemma catchE_simps [exec_simps]:
  "m s = (Inr a, s') \<Longrightarrow> catchE p m h s = (Inr a, s')"
  "m s = (Inl e, s') \<Longrightarrow> p e \<Longrightarrow> catchE p m h s = h e s'"
  "m s = (Inl e, s') \<Longrightarrow> \<not> p e \<Longrightarrow> catchE p m h s = (Inl e, s')"
  by (simp_all add: catchE_def)

subsection \<open>Invariants of operations\<close>

text \<open>
  \<open>keeps I m\<close>: the operation keeps \<open>I\<close> whether it returns or throws.
\<close>

definition keeps :: "('s \<Rightarrow> bool) \<Rightarrow> ('s, 'e, 'a) exec \<Rightarrow> bool" where
  "keeps I m \<longleftrightarrow> (\<forall>s. I s \<longrightarrow> I (snd (m s)))"

lemma keepsI: "(\<And>s. I s \<Longrightarrow> I (snd (m s))) \<Longrightarrow> keeps I m"
  by (simp add: keeps_def)

lemma keepsD: "keeps I m \<Longrightarrow> I s \<Longrightarrow> I (snd (m s))"
  by (simp add: keeps_def)

lemma keeps_ret [keeps_intros]: "keeps I (ret a)"
  by (simp add: keeps_def ret_def)

lemma keeps_raise [keeps_intros]: "keeps I (raise e)"
  by (simp add: keeps_def raise_def)

lemma keeps_liftS [keeps_intros]: "keeps I (liftS r)"
  by (simp add: keeps_def liftS_def)

lemma keeps_modifyE [keeps_intros]: "(\<And>s. I s \<Longrightarrow> I (f s)) \<Longrightarrow> keeps I (modifyE f)"
  by (simp add: keeps_def modifyE_def)

lemma keeps_bindE [keeps_intros]: "keeps I m \<Longrightarrow> (\<And>a. keeps I (f a)) \<Longrightarrow> keeps I (bindE m f)"
  by (fastforce simp: keeps_def bindE_def split: prod.splits sum.splits)

lemma keeps_thenE [keeps_intros]: "keeps I m \<Longrightarrow> keeps I k \<Longrightarrow> keeps I (thenE m k)"
  by (fastforce simp: keeps_def thenE_def split: prod.splits sum.splits)

lemma keeps_catchE [keeps_intros]: "keeps I m \<Longrightarrow> (\<And>e. keeps I (h e)) \<Longrightarrow> keeps I (catchE p m h)"
  by (fastforce simp: keeps_def catchE_def split: prod.splits sum.splits)

lemma keeps_if [keeps_intros]: "keeps I m \<Longrightarrow> keeps I k \<Longrightarrow> keeps I (\<lambda>s. if p s then m s else k s)"
  by (simp add: keeps_def)

section \<open>Decimal text of a number\<close>

text \<open>What \<^verbatim>\<open>std::ostream\<close> prints for an unsigned integer.\<close>

fun show_nat :: "nat \<Rightarrow> string" where
  "show_nat n = (if n < 10 then [char_of (48 + n)] else show_nat (n div 10) @ [char_of (48 + n mod 10)])"

declare show_nat.simps [simp del]

lemma show_nat_nonempty [simp]: "show_nat n \<noteq> []"
  by (subst show_nat.simps) simp

definition show_int :: "int \<Rightarrow> string" where
  "show_int i = (if i < 0 then CHR ''-'' # show_nat (nat (- i)) else show_nat (nat i))"

text \<open>\<^verbatim>\<open>boost::iequals\<close> in the classic locale.\<close>

definition toupper :: "char \<Rightarrow> char" where
  "toupper c = (if 97 \<le> (of_char c :: nat) \<and> (of_char c :: nat) \<le> 122 then char_of (of_char c - 32 :: nat) else c)"

definition iequals :: "string \<Rightarrow> string \<Rightarrow> bool" where
  "iequals s t \<longleftrightarrow> map toupper s = map toupper t"

section \<open>Loops that may throw\<close>

primrec mapS :: "('a \<Rightarrow> 'e + 'b) \<Rightarrow> 'a list \<Rightarrow> 'e + 'b list" where
  "mapS f [] = Inr []"
| "mapS f (x # xs) = bindS (f x) (\<lambda>y. bindS (mapS f xs) (\<lambda>ys. Inr (y # ys)))"

lemma mapS_cong [fundef_cong]: "xs = ys \<Longrightarrow> (\<And>x. x \<in> set ys \<Longrightarrow> f x = g x) \<Longrightarrow> mapS f xs = mapS g ys"
  by (induction ys arbitrary: xs) auto

lemma bindS_cong [fundef_cong]: "m = m' \<Longrightarrow> (\<And>a. m' = Inr a \<Longrightarrow> f a = g a) \<Longrightarrow> bindS m f = bindS m' g"
  by (cases m') auto

lemma mapS_Inr: "(\<And>x. x \<in> set xs \<Longrightarrow> f x = Inr (g x)) \<Longrightarrow> mapS f xs = Inr (map g xs)"
  by (induction xs) auto

end
