(* ===== verification/Dns_Labels.thy ===== *)
theory Dns_Labels
  imports Bundy_Prelude
begin

text \<open>
  The abstract view of domain names: lists of labels, their uncompressed wire form
  (RFC 1035, section 3.1) and the positions of the labels in it.  The classes
  \<^verbatim>\<open>Name\<close> and \<^verbatim>\<open>LabelSequence\<close> of \<^verbatim>\<open>src/lib/dns\<close> keep the wire form and the vector of
  positions; their operations are related here to operations on label lists.
  The root label is the empty list.
\<close>

section \<open>Wire form and offsets of a label list\<close>

type_synonym label = "byte list"

primrec wire :: "label list \<Rightarrow> byte list" where
  "wire [] = []"
| "wire (l # L) = word_of_nat (length l) # l @ wire L"

primrec offs_from :: "nat \<Rightarrow> label list \<Rightarrow> nat list" where
  "offs_from k [] = []"
| "offs_from k (l # L) = k # offs_from (k + length l + 1) L"

abbreviation offs :: "label list \<Rightarrow> nat list" where
  "offs \<equiv> offs_from 0"

lemma wire_append [simp]: "wire (K @ L) = wire K @ wire L"
  by (induction K) auto

lemma length_offs_from [simp]: "length (offs_from k L) = length L"
  by (induction L arbitrary: k) auto

lemma offs_from_append [simp]: "offs_from k (K @ L) = offs_from k K @ offs_from (k + length (wire K)) L"
  by (induction K arbitrary: k) (auto simp: algebra_simps)

lemma offs_from_shift: "offs_from (j + k) L = map ((+) j) (offs_from k L)"
proof (induction L arbitrary: k)
  case (Cons l L)
  then show ?case
    using Cons.IH [of "k + length l + 1"] by (simp add: add.assoc)
qed simp

lemma offs_from_offs: "offs_from k L = map ((+) k) (offs L)"
  using offs_from_shift [of k 0] by simp

lemma offs_from_nth: "i < length L \<Longrightarrow> offs_from k L ! i = k + length (wire (take i L))"
proof (induction L arbitrary: k i)
  case (Cons l L)
  then show ?case by (cases i) auto
qed simp

lemma offs_nth: "i < length L \<Longrightarrow> offs L ! i = length (wire (take i L))"
  by (simp add: offs_from_nth)

lemma take_offs_from: "take n (offs_from k L) = offs_from k (take n L)"
  by (induction L arbitrary: k n) (auto simp: take_Cons split: nat.split)

lemma drop_offs_from: "n \<le> length L \<Longrightarrow> drop n (offs_from k L) = offs_from (k + length (wire (take n L))) (drop n L)"
proof (induction L arbitrary: k n)
  case (Cons l L)
  then show ?case by (cases n) (auto simp: algebra_simps)
qed simp

lemma drop_wire_take: "drop (length (wire (take i L))) (wire L) = wire (drop i L)"
  by (metis append_take_drop_id append_eq_conv_conj wire_append)

lemma take_wire_take: "take (length (wire (take i L))) (wire L) = wire (take i L)"
  by (metis append_take_drop_id append_eq_conv_conj wire_append)

lemma length_wire_take_le: "length (wire (take i L)) \<le> length (wire L)"
  by (metis append_take_drop_id le_add1 length_append wire_append)

lemma length_wire_take_mono: "i \<le> j \<Longrightarrow> length (wire (take i L)) \<le> length (wire (take j L))"
  by (metis length_wire_take_le min.absorb1 take_take)

lemma length_wire_ge_length: "length L \<le> length (wire L)"
  by (induction L) auto

lemma wire_eq_Nil [simp]: "wire L = [] \<longleftrightarrow> L = []"
  by (cases L) auto

lemma offs_from_eq_Nil [simp]: "offs_from k L = [] \<longleftrightarrow> L = []"
  by (cases L) auto

section \<open>Decoding the wire form\<close>

function unwire :: "byte list \<Rightarrow> label list" where
  "unwire [] = []"
| "unwire (c # xs) = take (unat c) xs # unwire (drop (unat c) xs)"
  by pat_completeness auto
termination
  by (relation "measure length") auto

lemma unwire_wire: "\<forall>l \<in> set L. length l < 256 \<Longrightarrow> unwire (wire L) = L"
  by (induction L) (auto simp: unat_of_nat_byte)

section \<open>Well-formed absolute names as label lists\<close>

definition MAX_WIRE :: nat where "MAX_WIRE = 255"
definition MAX_LABELS :: nat where "MAX_LABELS = 128"
definition MAX_LABELLEN :: nat where "MAX_LABELLEN = 63"

lemmas name_limits = MAX_WIRE_def MAX_LABELS_def MAX_LABELLEN_def

definition valid_label :: "label \<Rightarrow> bool" where
  "valid_label l \<longleftrightarrow> 1 \<le> length l \<and> length l \<le> MAX_LABELLEN"

definition abs_labels :: "label list \<Rightarrow> bool" where
  "abs_labels L \<longleftrightarrow> L \<noteq> [] \<and> last L = [] \<and> (\<forall>l \<in> set (butlast L). valid_label l) \<and> length (wire L) \<le> MAX_WIRE"

lemma abs_labels_snoc:
  "abs_labels (K @ [[]]) \<longleftrightarrow> (\<forall>l \<in> set K. valid_label l) \<and> length (wire K) < MAX_WIRE"
  by (auto simp: abs_labels_def)

lemma abs_labelsE:
  assumes "abs_labels L"
  obtains K where "L = K @ [[]]" "\<forall>l \<in> set K. valid_label l" "length (wire K) < MAX_WIRE"
proof -
  from assms have "L = butlast L @ [[]]"
    by (metis abs_labels_def append_butlast_last_id)
  then show ?thesis
    using assms abs_labels_snoc [of "butlast L"] that [of "butlast L"] by metis
qed

lemma valid_labels_length: "\<forall>l \<in> set K. valid_label l \<Longrightarrow> 2 * length K \<le> length (wire K)"
  by (induction K) (auto simp: valid_label_def)

lemma abs_labels_count:
  assumes "abs_labels L"
  shows "0 < length L" "length L \<le> MAX_LABELS"
proof -
  from assms obtain K where "L = K @ [[]]" "\<forall>l \<in> set K. valid_label l" "length (wire K) < MAX_WIRE"
    by (rule abs_labelsE)
  then show "0 < length L" "length L \<le> MAX_LABELS"
    using valid_labels_length [of K] by (auto simp: name_limits)
qed

lemma abs_labels_lengths:
  assumes "abs_labels L"
  shows "\<forall>l \<in> set L. length l \<le> MAX_LABELLEN" "length (wire L) \<le> MAX_WIRE"
proof -
  from assms obtain K where "L = K @ [[]]" "\<forall>l \<in> set K. valid_label l" "length (wire K) < MAX_WIRE"
    by (rule abs_labelsE)
  then show "\<forall>l \<in> set L. length l \<le> MAX_LABELLEN" "length (wire L) \<le> MAX_WIRE"
    by (auto simp: valid_label_def)
qed

lemma unwire_abs_labels: "abs_labels L \<Longrightarrow> unwire (wire L) = L"
  using abs_labels_lengths(1) [of L] by (intro unwire_wire) (auto simp: name_limits)

end
