(* ===== verification/Dns_Name.thy ===== *)
theory Dns_Name
  imports Dns_Labels
begin

text \<open>
  The class \<^verbatim>\<open>Name\<close> of \<^verbatim>\<open>src/lib/dns/name.cc\<close>: its data members, the character tables,
  and the textual parser \<^verbatim>\<open>stringParse\<close> with the two constructors built on it.
  The parser is the state machine of the source, one definition per \<^verbatim>\<open>case\<close> of its
  \<^verbatim>\<open>switch\<close>; a \<^verbatim>\<open>FALLTHROUGH\<close> is a call of the next case.  A failed \<^verbatim>\<open>assert\<close>
  terminates the process and is the outcome \<open>AssertionFailure\<close>.
\<close>

section \<open>Checked reads\<close>

text \<open>
  A read through a raw pointer (or through the unchecked index operator of a container)
  outside the array is undefined in C++; it is the outcome \<open>UndefinedRead\<close>, so that a
  theorem which gives the result of an operation also shows that its reads are in bounds.
\<close>

definition rd :: "'a list \<Rightarrow> nat \<Rightarrow> bundy_exn + 'a" where
  "rd xs i = (if i < length xs then Inr (xs ! i) else Inl UndefinedRead)"

lemma rd_map_append: "i < length xs \<Longrightarrow> rd (map f xs @ ys) i = Inr (f (xs ! i))"
  by (simp add: rd_def nth_append)

lemma rd_append: "i = length xs \<Longrightarrow> rd (xs @ y # ys) i = Inr y"
  by (simp add: rd_def)

lemma rd_drop: "drop i xs = y # ys \<Longrightarrow> rd xs i = Inr y"
  by (metis drop_all hd_drop_conv_nth list.distinct(1) list.sel(1) not_le rd_def)

section \<open>Data members\<close>

record name =
  ndata :: "byte list"
  noffsets :: "byte list"
  nlength :: nat
  labelcount :: nat

text \<open>The name that stores a given list of labels, and the invariant of the class.\<close>

definition mk_name :: "label list \<Rightarrow> name" where
  "mk_name L = \<lparr>ndata = wire L, noffsets = map word_of_nat (offs L),
                nlength = length (wire L), labelcount = length L\<rparr>"

definition labels_of :: "name \<Rightarrow> label list" where
  "labels_of n = unwire (ndata n)"

definition wf_name :: "name \<Rightarrow> bool" where
  "wf_name n \<longleftrightarrow> abs_labels (labels_of n) \<and> n = mk_name (labels_of n)"

lemma mk_name_simps [simp]:
  "ndata (mk_name L) = wire L"
  "noffsets (mk_name L) = map word_of_nat (offs L)"
  "nlength (mk_name L) = length (wire L)"
  "labelcount (mk_name L) = length L"
  by (simp_all add: mk_name_def)

lemma labels_of_mk_name [simp]: "abs_labels L \<Longrightarrow> labels_of (mk_name L) = L"
  by (simp add: labels_of_def unwire_abs_labels)

lemma wf_mk_name [simp]: "abs_labels L \<Longrightarrow> wf_name (mk_name L)"
  by (simp add: wf_name_def)

lemma wf_nameE:
  assumes "wf_name n"
  obtains L where "abs_labels L" "n = mk_name L" "labels_of n = L"
  using assms by (auto simp: wf_name_def)

section \<open>Character tables\<close>

text \<open>\<^verbatim>\<open>digitvalue\<close>; the entries that are \<open>-1\<close> in the table are \<open>None\<close>.\<close>

definition digitvalue :: "byte \<Rightarrow> nat option" where
  "digitvalue c =
     (if 0x30 \<le> c \<and> c \<le> 0x39 then Some (unat c - 0x30)
      else if 0x41 \<le> c \<and> c \<le> 0x46 then Some (unat c - 0x41 + 10)
      else if 0x61 \<le> c \<and> c \<le> 0x66 then Some (unat c - 0x61 + 10)
      else None)"

definition maptolower :: "byte \<Rightarrow> byte" where
  "maptolower c = (if 0x41 \<le> c \<and> c \<le> 0x5a then c + 0x20 else c)"

definition isdigit :: "byte \<Rightarrow> bool" where
  "isdigit c \<longleftrightarrow> 0x30 \<le> c \<and> c \<le> 0x39"

lemma unat_maptolower:
  "unat (maptolower c) = (if 65 \<le> unat c \<and> unat c \<le> 90 then unat c + 32 else unat c)"
  by (simp add: maptolower_def word_le_nat_alt unat_word_ariths)

lemma maptolower_idem [simp]: "maptolower (maptolower c) = maptolower c"
  by (simp add: word_unat_eq_iff unat_maptolower)

section \<open>The textual parser\<close>

datatype ft_state = ft_init | ft_start | ft_ordinary | ft_initialescape | ft_escape | ft_escdecimal

text \<open>The local variables of \<^verbatim>\<open>stringParse\<close> and its two output vectors.\<close>

record parser =
  p_digits :: nat
  p_value :: nat
  p_count :: nat
  p_done :: bool
  p_state :: ft_state
  p_offsets :: "byte list"
  p_ndata :: "byte list"

definition parser_init :: parser where
  "parser_init = \<lparr>p_digits = 0, p_value = 0, p_count = 0, p_done = False, p_state = ft_init,
                  p_offsets = [0], p_ndata = []\<rparr>"

definition downcase_char :: "bool \<Rightarrow> byte \<Rightarrow> byte" where
  "downcase_char dc c = (if dc then maptolower c else c)"

text \<open>\<^verbatim>\<open>ndata.at(offsets.back()) = count\<close>\<close>

definition set_label_length :: "parser \<Rightarrow> bundy_exn + parser" where
  "set_label_length p =
     (let i = unat (last (p_offsets p)) in
      if i < length (p_ndata p)
      then Inr (p\<lparr>p_ndata := (p_ndata p)[i := word_of_nat (p_count p)]\<rparr>)
      else Inl StdOutOfRange)"

text \<open>\<^verbatim>\<open>if (++count > MAX_LABELLEN) throw; ndata.push_back(...)\<close>, common to three cases.\<close>

definition push_char :: "bool \<Rightarrow> byte \<Rightarrow> parser \<Rightarrow> bundy_exn + parser" where
  "push_char dc c p =
     (let p' = p\<lparr>p_count := p_count p + 1\<rparr> in
      if p_count p' > MAX_LABELLEN then Inl TooLongLabel
      else Inr (p'\<lparr>p_ndata := p_ndata p' @ [downcase_char dc c]\<rparr>))"

definition case_escdecimal :: "bool \<Rightarrow> byte \<Rightarrow> parser \<Rightarrow> bundy_exn + parser" where
  "case_escdecimal dc c p =
     (if \<not> isdigit c then Inl BadEscape
      else
        (let v = p_value p * 10 + (case digitvalue c of Some d \<Rightarrow> d | None \<Rightarrow> 0);
             p' = p\<lparr>p_value := v, p_digits := p_digits p + 1\<rparr> in
         if p_digits p' = 3
         then (if v > 255 then Inl BadEscape
               else bindS (push_char dc (word_of_nat v) p') (\<lambda>q. Inr (q\<lparr>p_state := ft_ordinary\<rparr>)))
         else Inr p'))"

definition case_escape :: "bool \<Rightarrow> byte \<Rightarrow> parser \<Rightarrow> bundy_exn + parser" where
  "case_escape dc c p =
     (if \<not> isdigit c
      then bindS (push_char dc c p) (\<lambda>q. Inr (q\<lparr>p_state := ft_ordinary\<rparr>))
      else case_escdecimal dc c (p\<lparr>p_digits := 0, p_value := 0, p_state := ft_escdecimal\<rparr>))"

definition case_initialescape :: "bool \<Rightarrow> byte \<Rightarrow> parser \<Rightarrow> bundy_exn + parser" where
  "case_initialescape dc c p = (if c = 0x5b then Inl BadLabelType else case_escape dc c p)"

definition case_ordinary :: "bool \<Rightarrow> bool \<Rightarrow> byte \<Rightarrow> parser \<Rightarrow> bundy_exn + parser" where
  "case_ordinary dc at_end c p =
     (if c = 0x2e then
        (if p_count p = 0 then Inl EmptyLabel
         else
           bindS (set_label_length p) (\<lambda>q.
             let q1 = q\<lparr>p_offsets := p_offsets q @ [word_of_nat (length (p_ndata q))]\<rparr>;
                 q2 = (if at_end then q1\<lparr>p_ndata := p_ndata q1 @ [0], p_done := True\<rparr> else q1)
             in Inr (q2\<lparr>p_state := ft_start\<rparr>)))
      else if c = 0x5c then Inr (p\<lparr>p_state := ft_escape\<rparr>)
      else push_char dc c p)"

definition case_start :: "bool \<Rightarrow> bool \<Rightarrow> byte \<Rightarrow> parser \<Rightarrow> bundy_exn + parser" where
  "case_start dc at_end c p =
     (let p' = p\<lparr>p_ndata := p_ndata p @ [0], p_count := 0\<rparr> in
      if c = 0x5c then Inr (p'\<lparr>p_state := ft_initialescape\<rparr>)
      else if \<not> length (p_ndata p') < MAX_WIRE then Inl AssertionFailure
      else case_ordinary dc at_end c (p'\<lparr>p_state := ft_ordinary\<rparr>))"

definition case_init :: "bool \<Rightarrow> bool \<Rightarrow> byte \<Rightarrow> parser \<Rightarrow> bundy_exn + parser" where
  "case_init dc at_end c p =
     (if c = 0x2e \<and> \<not> at_end then Inl EmptyLabel
      else if c = 0x2e \<or> (c = 0x40 \<and> at_end)
      then Inr (p\<lparr>p_ndata := p_ndata p @ [0], p_done := True\<rparr>)
      else case_start dc at_end c p)"

text \<open>One iteration of the loop; \<open>at_end\<close> is \<^verbatim>\<open>s == send\<close> after \<^verbatim>\<open>*s++\<close>.\<close>

definition parse_step :: "bool \<Rightarrow> bool \<Rightarrow> byte \<Rightarrow> parser \<Rightarrow> bundy_exn + parser" where
  "parse_step dc at_end c p =
     (case p_state p of
        ft_init \<Rightarrow> case_init dc at_end c p
      | ft_start \<Rightarrow> case_start dc at_end c p
      | ft_ordinary \<Rightarrow> case_ordinary dc at_end c p
      | ft_initialescape \<Rightarrow> case_initialescape dc c p
      | ft_escape \<Rightarrow> case_escape dc c p
      | ft_escdecimal \<Rightarrow> case_escdecimal dc c p)"

fun parse_loop :: "bool \<Rightarrow> byte list \<Rightarrow> parser \<Rightarrow> bundy_exn + parser \<times> byte list" where
  "parse_loop dc [] p = Inr (p, [])"
| "parse_loop dc (c # s) p =
     (if length (p_ndata p) < MAX_WIRE \<and> \<not> p_done p
      then bindS (parse_step dc (s = []) c p) (parse_loop dc s)
      else Inr (p, c # s))"

text \<open>What follows the loop when no trailing dot was found.\<close>

definition parse_finish :: "parser \<times> byte list \<Rightarrow> bundy_exn + parser" where
  "parse_finish r = (case r of (p, s) \<Rightarrow>
     if p_done p then Inr p
     else if length (p_ndata p) = MAX_WIRE then Inl TooLongName
     else if s \<noteq> [] then Inl AssertionFailure
     else if p_state p \<noteq> ft_ordinary then Inl IncompleteName
     else if p_count p = 0 then Inl AssertionFailure
     else bindS (set_label_length p) (\<lambda>q.
       let q1 = q\<lparr>p_offsets := p_offsets q @ [word_of_nat (length (p_ndata q))]\<rparr>
       in Inr (q1\<lparr>p_ndata := p_ndata q1 @ [0]\<rparr>)))"

definition stringParse :: "bool \<Rightarrow> byte list \<Rightarrow> bundy_exn + parser" where
  "stringParse dc s = bindS (parse_loop dc s parser_init) parse_finish"

section \<open>Constructors from text\<close>

definition name_of_parser :: "parser \<Rightarrow> bundy_exn + name" where
  "name_of_parser p =
     (if 0 < length (p_offsets p) \<and> length (p_offsets p) \<le> MAX_LABELS
      then Inr \<lparr>ndata = p_ndata p, noffsets = p_offsets p,
                nlength = length (p_ndata p), labelcount = length (p_offsets p)\<rparr>
      else Inl AssertionFailure)"

definition Name_bytes :: "byte list \<Rightarrow> bool \<Rightarrow> bundy_exn + name" where
  "Name_bytes s dc = bindS (stringParse dc s) name_of_parser"

definition Name_text :: "string \<Rightarrow> bool \<Rightarrow> bundy_exn + name" where
  "Name_text s dc = Name_bytes (map byte_of_char s) dc"

text \<open>
  The constructor of the master file parser, which completes a relative name with an
  origin; \<open>None\<close> for the data is a null pointer, \<open>None\<close> for the origin a null origin.
\<close>

definition append_origin :: "name \<Rightarrow> name \<Rightarrow> bundy_exn + name" where
  "append_origin n origin =
     (let nd = butlast (ndata n) @ ndata origin;
          offset = last (noffsets n);
          os = butlast (noffsets n) @ map (\<lambda>it. it + offset) (noffsets origin)
      in if length os > MAX_LABELS \<or> length nd > MAX_WIRE then Inl TooLongName
         else Inr \<lparr>ndata = nd, noffsets = os, nlength = length nd, labelcount = length os\<rparr>)"

definition Name_origin :: "byte list option \<Rightarrow> name option \<Rightarrow> bool \<Rightarrow> bundy_exn + name" where
  "Name_origin namedata origin dc =
     (case namedata of
        None \<Rightarrow> Inl InvalidParameter
      | Some s \<Rightarrow>
          if s = [] then Inl InvalidParameter
          else
            (let absolute = (last s = 0x2e) in
             if \<not> absolute \<and> origin = None then Inl MissingNameOrigin
             else bindS (Name_bytes s dc) (\<lambda>n.
               if absolute then Inr n
               else (case origin of None \<Rightarrow> Inl MissingNameOrigin | Some og \<Rightarrow> append_origin n og))))"

end
