(* ===== verification/Dns_NameParse.thy ===== *)
theory Dns_NameParse
  imports Dns_Name
begin

text \<open>
  Correctness of the textual name parser: the invariant of its loop, that every name it
  returns is well formed, and which inputs make its internal assertion fail.
\<close>

section \<open>The loop invariant\<close>

text \<open>
  \<open>pinv K p\<close>: the labels \<open>K\<close> are complete and stored, and the rest of \<open>p_ndata\<close> is the
  label being read behind a zero that stands for its length.
\<close>

definition pending :: "label list \<Rightarrow> label \<Rightarrow> parser \<Rightarrow> bool" where
  "pending K cur p \<longleftrightarrow>
     (case p_state p of
        ft_init \<Rightarrow> K = [] \<and> cur = [] \<and> p_ndata p = []
      | ft_start \<Rightarrow> K \<noteq> [] \<and> cur = [] \<and> p_ndata p = wire K
      | st \<Rightarrow> p_ndata p = wire K @ 0 # cur \<and> p_count p = length cur \<and> length cur \<le> MAX_LABELLEN
               \<and> (st = ft_ordinary \<longrightarrow> cur \<noteq> []))"

definition pinv :: "label list \<Rightarrow> parser \<Rightarrow> bool" where
  "pinv K p \<longleftrightarrow>
     (\<forall>l \<in> set K. valid_label l) \<and> length (wire K) < MAX_WIRE \<and> length (p_ndata p) \<le> MAX_WIRE \<and>
     p_offsets p = map word_of_nat (offs (K @ [[]])) \<and>
     (if p_done p then p_ndata p = wire (K @ [[]]) else (\<exists>cur. pending K cur p))"

lemma last_offs_snoc: "last (map word_of_nat (offs (K @ [l])) :: byte list) = word_of_nat (length (wire K))"
  by simp

lemma set_label_length_pending:
  assumes "length (wire K) < MAX_WIRE" "p_offsets p = map word_of_nat (offs (K @ [[]]))"
    and "p_ndata p = wire K @ 0 # cur" "p_count p = length cur"
  shows "set_label_length p = Inr (p\<lparr>p_ndata := wire (K @ [cur])\<rparr>)"
proof -
  have "unat (last (p_offsets p)) = length (wire K)"
    using assms(1,2) by (simp add: unat_of_nat_byte name_limits)
  then show ?thesis
    using assms(3,4) by (simp add: set_label_length_def Let_def)
qed

lemma pinv_init: "pinv [] parser_init"
  by (simp add: pinv_def parser_init_def pending_def name_limits)

section \<open>Each case of the switch keeps the invariant\<close>

lemma push_char_pinv:
  assumes "push_char dc c p = Inr q" "pinv K p" "\<not> p_done p" "length (p_ndata p) < MAX_WIRE"
    and "p_state p \<notin> {ft_init, ft_start}"
  shows "pinv K (q\<lparr>p_state := ft_ordinary\<rparr>)"
  using assms
  by (cases "p_state p") (auto simp: push_char_def pinv_def pending_def Let_def split: if_splits)

lemma case_escdecimal_pinv:
  assumes "case_escdecimal dc c p = Inr q" "pinv K p" "\<not> p_done p" "length (p_ndata p) < MAX_WIRE"
    and "p_state p = ft_escdecimal"
  shows "pinv K q"
proof -
  define v where "v = p_value p * 10 + (case digitvalue c of Some d \<Rightarrow> d | None \<Rightarrow> 0)"
  define p' where "p' = p\<lparr>p_value := v, p_digits := p_digits p + 1\<rparr>"
  have p': "pinv K p'" "\<not> p_done p'" "length (p_ndata p') < MAX_WIRE" "p_state p' \<notin> {ft_init, ft_start}"
    using assms(2-5) by (auto simp: p'_def pinv_def pending_def)
  from assms(1) consider "q = p'"
    | r where "push_char dc (word_of_nat v) p' = Inr r" "q = r\<lparr>p_state := ft_ordinary\<rparr>"
    by (auto simp: case_escdecimal_def Let_def v_def p'_def bindS_eq_Inr split: if_splits)
  then show ?thesis
    using p' push_char_pinv by cases auto
qed

lemma case_escape_pinv:
  assumes "case_escape dc c p = Inr q" "pinv K p" "\<not> p_done p" "length (p_ndata p) < MAX_WIRE"
    and "p_state p \<in> {ft_escape, ft_initialescape}"
  shows "pinv K q"
proof -
  let ?p = "p\<lparr>p_digits := 0, p_value := 0, p_state := ft_escdecimal\<rparr>"
  have "pinv K ?p" "\<not> p_done ?p" "length (p_ndata ?p) < MAX_WIRE"
    using assms(2-5) by (auto simp: pinv_def pending_def)
  then show ?thesis
    using assms case_escdecimal_pinv [of dc c ?p q K]
    by (auto simp: case_escape_def bindS_eq_Inr push_char_pinv split: if_splits)
qed

lemma case_ordinary_pinv:
  assumes "case_ordinary dc e c p = Inr q" "\<not> p_done p" "length (p_ndata p) < MAX_WIRE"
    and "\<forall>l \<in> set K. valid_label l" "p_offsets p = map word_of_nat (offs (K @ [[]]))"
    and "p_state p = ft_ordinary" "p_ndata p = wire K @ 0 # cur" "p_count p = length cur"
    and "length cur \<le> MAX_LABELLEN"
    and "c = 0x5c \<Longrightarrow> cur \<noteq> []"
  shows "\<exists>K'. pinv K' q"
proof -
  consider (dot) "c = 0x2e" | (esc) "c = 0x5c" | (char) "c \<noteq> 0x2e" "c \<noteq> 0x5c"
    by blast
  then show ?thesis
  proof cases
    case dot
    have K: "length (wire K) < MAX_WIRE"
      using assms(3,7) by simp
    have "set_label_length p = Inr (p\<lparr>p_ndata := wire (K @ [cur])\<rparr>)"
      using K assms by (intro set_label_length_pending) auto
    moreover have "cur \<noteq> []"
      using assms(1,8) dot by (auto simp: case_ordinary_def split: if_splits)
    ultimately have "pinv (K @ [cur]) q"
      using assms dot by (auto simp: case_ordinary_def Let_def pinv_def pending_def valid_label_def Suc_le_eq
          split: if_splits)
    then show ?thesis ..
  next
    case esc
    then have "pinv K q"
      using assms by (auto simp: case_ordinary_def pinv_def pending_def)
    then show ?thesis ..
  next
    case char
    then have "pinv K q"
      using assms by (auto simp: case_ordinary_def push_char_def Let_def pinv_def pending_def split: if_splits)
    then show ?thesis ..
  qed
qed

lemma case_start_pinv:
  assumes "case_start dc e c p = Inr q" "\<not> p_done p" "length (p_ndata p) < MAX_WIRE"
    and "\<forall>l \<in> set K. valid_label l" "p_offsets p = map word_of_nat (offs (K @ [[]]))"
    and "p_ndata p = wire K"
  shows "\<exists>K'. pinv K' q"
proof (cases "c = 0x5c")
  case True
  then have "pinv K q"
    using assms by (auto simp: case_start_def Let_def pinv_def pending_def)
  then show ?thesis ..
next
  case False
  let ?p = "p\<lparr>p_ndata := p_ndata p @ [0], p_count := 0, p_state := ft_ordinary\<rparr>"
  have "case_ordinary dc e c ?p = Inr q" "length (p_ndata ?p) < MAX_WIRE"
    using assms(1) False by (auto simp: case_start_def Let_def split: if_splits)
  then show ?thesis
    using assms(2-6) False by (intro case_ordinary_pinv [of dc e c ?p q K "[]"]) auto
qed

lemma parse_step_pinv:
  assumes "parse_step dc e c p = Inr q" "pinv K p" "\<not> p_done p" "length (p_ndata p) < MAX_WIRE"
  shows "\<exists>K'. pinv K' q"
proof (cases "p_state p")
  case ft_init
  have K: "K = []" "p_ndata p = []" "p_offsets p = map word_of_nat (offs (K @ [[]]))"
    using assms(2,3) ft_init by (auto simp: pinv_def pending_def)
  show ?thesis
  proof (cases "c = 0x2e \<or> (c = 0x40 \<and> e)")
    case True
    then have "pinv [] q"
      using assms(1,2) K ft_init by (auto simp: parse_step_def case_init_def pinv_def name_limits split: if_splits)
    then show ?thesis ..
  next
    case False
    then have "case_start dc e c p = Inr q"
      using assms(1) ft_init by (auto simp: parse_step_def case_init_def split: if_splits)
    then show ?thesis
      using assms(3,4) K by (intro case_start_pinv [of dc e c p q K]) auto
  qed
next
  case ft_start
  then show ?thesis
    using assms case_start_pinv [of dc e c p q K] by (auto simp: parse_step_def pinv_def pending_def)
next
  case ft_ordinary
  then obtain cur where cur: "p_ndata p = wire K @ 0 # cur" "p_count p = length cur" "cur \<noteq> []"
      "length cur \<le> MAX_LABELLEN" "\<forall>l \<in> set K. valid_label l" "p_offsets p = map word_of_nat (offs (K @ [[]]))"
    using assms(2,3) by (auto simp: pinv_def pending_def)
  with ft_ordinary assms show ?thesis
    by (intro case_ordinary_pinv [of dc e c p q K cur]) (auto simp: parse_step_def)
next
  case ft_initialescape
  then have "case_escape dc c p = Inr q"
    using assms(1) by (auto simp: parse_step_def case_initialescape_def split: if_splits)
  then show ?thesis
    using assms ft_initialescape case_escape_pinv by blast
next
  case ft_escape
  then have "pinv K q"
    using assms case_escape_pinv [of dc c p q K] by (simp add: parse_step_def)
  then show ?thesis ..
next
  case ft_escdecimal
  then have "pinv K q"
    using assms case_escdecimal_pinv [of dc c p q K] by (simp add: parse_step_def)
  then show ?thesis ..
qed

lemma parse_loop_pinv: "parse_loop dc s p = Inr (q, r) \<Longrightarrow> pinv K p \<Longrightarrow> \<exists>K'. pinv K' q"
proof (induction dc s p arbitrary: K rule: parse_loop.induct)
  case (2 dc c s p)
  show ?case
  proof (cases "length (p_ndata p) < MAX_WIRE \<and> \<not> p_done p")
    case True
    then obtain p' where p': "parse_step dc (s = []) c p = Inr p'" "parse_loop dc s p' = Inr (q, r)"
      using "2.prems"(1) by (auto simp: bindS_eq_Inr)
    then obtain K' where "pinv K' p'"
      using parse_step_pinv True "2.prems"(2) by blast
    then show ?thesis
      using "2.IH" True p' by blast
  next
    case False
    then show ?thesis using "2.prems" by auto
  qed
qed auto

section \<open>Every parsed name is well formed\<close>

lemma parse_finish_labels:
  assumes "parse_finish (p, s) = Inr q" "pinv K p"
  shows "\<exists>L. abs_labels L \<and> p_ndata q = wire L \<and> p_offsets q = map word_of_nat (offs L)"
proof (cases "p_done p")
  case True
  then have "abs_labels (K @ [[]])" "p_ndata q = wire (K @ [[]])" "p_offsets q = map word_of_nat (offs (K @ [[]]))"
    using assms by (auto simp: parse_finish_def pinv_def abs_labels_snoc)
  then show ?thesis by blast
next
  case False
  then have st: "p_state p = ft_ordinary" "length (p_ndata p) < MAX_WIRE"
    using assms by (auto simp: parse_finish_def pinv_def split: if_splits)
  then obtain cur where cur: "p_ndata p = wire K @ 0 # cur" "p_count p = length cur" "cur \<noteq> []"
      "length cur \<le> MAX_LABELLEN"
    using assms(2) False by (auto simp: pinv_def pending_def)
  have "set_label_length p = Inr (p\<lparr>p_ndata := wire (K @ [cur])\<rparr>)"
    using cur assms(2) by (intro set_label_length_pending) (auto simp: pinv_def)
  then have "p_ndata q = wire (K @ [cur] @ [[]])" "p_offsets q = map word_of_nat (offs (K @ [cur] @ [[]]))"
    using assms False cur by (auto simp: parse_finish_def pinv_def Let_def split: if_splits)
  moreover have "abs_labels ((K @ [cur]) @ [[]])"
    unfolding abs_labels_snoc using assms(2) cur st
    by (auto simp: pinv_def valid_label_def Suc_le_eq)
  ultimately show ?thesis by auto
qed

lemma stringParse_labels:
  assumes "stringParse dc s = Inr q"
  shows "\<exists>L. abs_labels L \<and> p_ndata q = wire L \<and> p_offsets q = map word_of_nat (offs L)"
proof -
  from assms obtain p r where "parse_loop dc s parser_init = Inr (p, r)" "parse_finish (p, r) = Inr q"
    by (auto simp: stringParse_def bindS_eq_Inr)
  then show ?thesis
    using parse_loop_pinv pinv_init parse_finish_labels by blast
qed

lemma name_of_parser_labels:
  assumes "abs_labels L" "p_ndata q = wire L" "p_offsets q = map word_of_nat (offs L)"
  shows "name_of_parser q = Inr (mk_name L)"
  using assms abs_labels_count [OF assms(1)] by (simp add: name_of_parser_def mk_name_def)

lemma Name_bytes_wf:
  assumes "Name_bytes s dc = Inr n"
  shows "wf_name n"
proof -
  from assms obtain q where q: "stringParse dc s = Inr q" "name_of_parser q = Inr n"
    by (auto simp: Name_bytes_def bindS_eq_Inr)
  then obtain L where "abs_labels L" "p_ndata q = wire L" "p_offsets q = map word_of_nat (offs L)"
    using stringParse_labels by blast
  then show ?thesis
    using q(2) name_of_parser_labels by fastforce
qed

section \<open>Which errors the parser reports\<close>

definition parse_errors :: "bundy_exn set" where
  "parse_errors = {EmptyLabel, TooLongName, TooLongLabel, BadLabelType, BadEscape, IncompleteName}"

text \<open>The octets stored so far are bounded by the \<open>m\<close> characters read so far.\<close>

definition stored_bound :: "nat \<Rightarrow> parser \<Rightarrow> bool" where
  "stored_bound m p \<longleftrightarrow>
     length (p_ndata p) \<le> (if p_done p then m + 1 else if p_state p = ft_init \<or> p_state p = ft_start then m else m + 1)"

lemma case_escdecimal_bound:
  "case_escdecimal dc c p = Inr q \<Longrightarrow> length (p_ndata p) \<le> m + 1 \<Longrightarrow> p_state p = ft_escdecimal \<Longrightarrow> \<not> p_done p \<Longrightarrow>
   length (p_ndata q) \<le> m + 2 \<and> p_state q \<in> {ft_ordinary, ft_escdecimal} \<and> \<not> p_done q"
  by (auto simp: case_escdecimal_def push_char_def Let_def bindS_eq_Inr split: if_splits)

lemma case_escape_bound:
  "case_escape dc c p = Inr q \<Longrightarrow> length (p_ndata p) \<le> m + 1 \<Longrightarrow> \<not> p_done p \<Longrightarrow>
   length (p_ndata q) \<le> m + 2 \<and> p_state q \<in> {ft_ordinary, ft_escdecimal} \<and> \<not> p_done q"
  using case_escdecimal_bound [of dc c "p\<lparr>p_digits := 0, p_value := 0, p_state := ft_escdecimal\<rparr>" q m]
  by (auto simp: case_escape_def push_char_def Let_def bindS_eq_Inr split: if_splits)

lemma case_ordinary_bound:
  "case_ordinary dc e c p = Inr q \<Longrightarrow> length (p_ndata p) \<le> m + 1 \<Longrightarrow> p_state p = ft_ordinary \<Longrightarrow> \<not> p_done p \<Longrightarrow>
   stored_bound (m + 1) q"
  by (auto simp: case_ordinary_def push_char_def set_label_length_def stored_bound_def Let_def bindS_eq_Inr split: if_splits)

lemma case_start_bound:
  "case_start dc e c p = Inr q \<Longrightarrow> length (p_ndata p) \<le> m \<Longrightarrow> \<not> p_done p \<Longrightarrow> stored_bound (m + 1) q"
  using case_ordinary_bound [of dc e c "p\<lparr>p_ndata := p_ndata p @ [0], p_count := 0, p_state := ft_ordinary\<rparr>" q m]
  by (auto simp: case_start_def Let_def stored_bound_def split: if_splits)

lemma parse_step_bound:
  assumes "parse_step dc e c p = Inr q" "stored_bound m p" "\<not> p_done p"
  shows "stored_bound (m + 1) q"
proof (cases "p_state p")
  case ft_init
  then show ?thesis
    using assms case_start_bound [of dc e c p q m]
    by (auto simp: parse_step_def case_init_def stored_bound_def split: if_splits)
next
  case ft_start
  then show ?thesis
    using assms case_start_bound [of dc e c p q m] by (auto simp: parse_step_def stored_bound_def)
next
  case ft_ordinary
  then show ?thesis
    using assms case_ordinary_bound [of dc e c p q m] by (auto simp: parse_step_def stored_bound_def)
next
  case ft_initialescape
  then show ?thesis
    using assms case_escape_bound [of dc c p q m]
    by (auto simp: parse_step_def case_initialescape_def stored_bound_def split: if_splits)
next
  case ft_escape
  then show ?thesis
    using assms case_escape_bound [of dc c p q m] by (auto simp: parse_step_def stored_bound_def)
next
  case ft_escdecimal
  then show ?thesis
    using assms case_escdecimal_bound [of dc c p q m] by (auto simp: parse_step_def stored_bound_def)
qed

lemma set_label_length_ok:
  assumes "pinv K p" "\<not> p_done p" "p_state p = ft_ordinary"
  shows "\<exists>q. set_label_length p = Inr q"
  using assms set_label_length_pending [of K p] by (fastforce simp: pinv_def pending_def)

lemma escape_errors:
  "case_escdecimal dc c p = Inl e \<Longrightarrow> e \<in> parse_errors"
  "case_escape dc c p = Inl e \<Longrightarrow> e \<in> parse_errors"
  "case_initialescape dc c p = Inl e \<Longrightarrow> e \<in> parse_errors"
  by (auto simp: case_escdecimal_def case_escape_def case_initialescape_def push_char_def Let_def bindS_eq_Inl parse_errors_def
      split: if_splits)

lemma case_start_errors:
  assumes "case_start dc e c p = Inl err" "length (p_ndata p) < MAX_WIRE"
  shows "err \<in> parse_errors \<or> err = AssertionFailure \<and> length (p_ndata p) = MAX_WIRE - 1"
  using assms
  by (auto simp: case_start_def case_ordinary_def push_char_def Let_def parse_errors_def split: if_splits)

lemma parse_step_errors:
  assumes "parse_step dc e c p = Inl err" "pinv K p" "\<not> p_done p" "length (p_ndata p) < MAX_WIRE"
  shows "err \<in> parse_errors \<or> err = AssertionFailure \<and> p_state p = ft_start \<and> length (p_ndata p) = MAX_WIRE - 1"
proof (cases "p_state p")
  case ft_init
  then have "p_ndata p = []"
    using assms(2,3) by (auto simp: pinv_def pending_def)
  then show ?thesis
    using assms(1,4) ft_init case_start_errors [of dc e c p err]
    by (auto simp: parse_step_def case_init_def name_limits parse_errors_def split: if_splits)
next
  case ft_ordinary
  then show ?thesis
    using assms set_label_length_ok [OF assms(2,3) ft_ordinary]
    by (auto simp: parse_step_def case_ordinary_def push_char_def parse_errors_def Let_def split: if_splits)
qed (use assms case_start_errors escape_errors in \<open>auto simp: parse_step_def\<close>)

lemma parse_loop_errors:
  "parse_loop dc s p = Inl err \<Longrightarrow> pinv K p \<Longrightarrow> stored_bound m p \<Longrightarrow>
   err \<in> parse_errors \<or> err = AssertionFailure \<and> MAX_WIRE \<le> m + length s"
proof (induction dc s p arbitrary: K m rule: parse_loop.induct)
  case (2 dc c s p)
  from "2.prems"(1) have guard: "length (p_ndata p) < MAX_WIRE" "\<not> p_done p"
    by (auto split: if_splits)
  show ?case
  proof (cases "parse_step dc (s = []) c p")
    case (Inl err')
    then show ?thesis
      using "2.prems" guard parse_step_errors [OF Inl "2.prems"(2) guard(2,1)] by (auto simp: stored_bound_def)
  next
    case (Inr q)
    obtain K' where "pinv K' q"
      using parse_step_pinv [OF Inr "2.prems"(2) guard(2,1)] by blast
    then show ?thesis
      using "2.IH" [of q K' "m + 1"] "2.prems"(1) guard Inr parse_step_bound [OF Inr "2.prems"(3) guard(2)] by simp
  qed
qed simp

lemma parse_loop_rest: "parse_loop dc s p = Inr (q, r) \<Longrightarrow> p_done q \<or> length (p_ndata q) \<ge> MAX_WIRE \<or> r = []"
  by (induction dc s p rule: parse_loop.induct) (auto simp: bindS_eq_Inr split: if_splits)

lemma Name_bytes_errors:
  assumes "Name_bytes s dc = Inl err"
  shows "err \<in> parse_errors \<or> err = AssertionFailure \<and> MAX_WIRE \<le> length s"
proof (cases "parse_loop dc s parser_init")
  case (Inl e)
  then have "err = e"
    using assms by (simp add: Name_bytes_def stringParse_def)
  then show ?thesis
    using parse_loop_errors [OF Inl pinv_init, of 0] by (simp add: stored_bound_def parser_init_def)
next
  case (Inr r)
  obtain p t where r: "r = (p, t)" by fastforce
  obtain K where K: "pinv K p"
    using parse_loop_pinv [OF _ pinv_init] Inr r by blast
  have "\<nexists>q. parse_finish (p, t) = Inr q"
    using assms Inr r name_of_parser_labels stringParse_labels [of dc s]
    by (auto simp: Name_bytes_def stringParse_def)
  then have "parse_finish (p, t) = Inl err"
    using assms Inr r by (cases "parse_finish (p, t)") (auto simp: Name_bytes_def stringParse_def)
  then show ?thesis
    using K parse_loop_rest [OF Inr [unfolded r]] set_label_length_ok [OF K]
    by (auto simp: parse_finish_def parse_errors_def pinv_def pending_def Let_def split: if_splits)
qed

end
