(* ===== verification/Dns_LabelSeq.thy ===== *)
theory Dns_LabelSeq
  imports Dns_Name "HOL-Library.List_Lexorder" "HOL-Library.Sublist"
begin

text \<open>
  The class \<^verbatim>\<open>LabelSequence\<close> of \<^verbatim>\<open>src/lib/dns/labelsequence.cc\<close>: a window on the
  labels of a name held elsewhere.  Its members are two raw pointers and the indices of
  the first and the last label; a pointer is modelled by the bytes from it to the end of
  the array it points into.
\<close>

section \<open>Data members and accessors\<close>

record label_sequence =
  ls_data :: "byte list"
  ls_offsets :: "byte list"
  first_label :: nat
  last_label :: nat

definition LabelSequence :: "name \<Rightarrow> label_sequence" where
  "LabelSequence n = \<lparr>ls_data = ndata n, ls_offsets = noffsets n, first_label = 0,
                      last_label = labelcount n - 1\<rparr>"

definition getLabelCount :: "label_sequence \<Rightarrow> nat" where
  "getLabelCount s = last_label s - first_label s + 1"

definition getDataLength :: "label_sequence \<Rightarrow> bundy_exn + nat" where
  "getDataLength s =
     bindS (rd (ls_offsets s) (last_label s)) (\<lambda>ol.
     bindS (rd (ls_data s) (unat ol)) (\<lambda>c.
     bindS (rd (ls_offsets s) (first_label s)) (\<lambda>ofs.
       Inr (unat ol + (unat c + 1) - unat ofs))))"

text \<open>\<^verbatim>\<open>getData\<close> returns the pointer to the first label and stores the length.\<close>

definition getData :: "label_sequence \<Rightarrow> bundy_exn + byte list \<times> nat" where
  "getData s =
     bindS (getDataLength s) (\<lambda>len.
     bindS (rd (ls_offsets s) (first_label s)) (\<lambda>ofs.
       Inr (drop (unat ofs) (ls_data s), len)))"

definition getSerializedLength :: "label_sequence \<Rightarrow> bundy_exn + nat" where
  "getSerializedLength s = bindS (getDataLength s) (\<lambda>n. Inr (1 + getLabelCount s + n))"

definition isAbsolute :: "label_sequence \<Rightarrow> bundy_exn + bool" where
  "isAbsolute s =
     bindS (rd (ls_offsets s) (last_label s)) (\<lambda>ol.
     bindS (rd (ls_data s) (unat ol)) (\<lambda>c. Inr (c = 0)))"

definition stripLeft :: "nat \<Rightarrow> label_sequence \<Rightarrow> bundy_exn + label_sequence" where
  "stripLeft i s =
     (if i \<ge> getLabelCount s then Inl OutOfRange
      else Inr (s\<lparr>first_label := first_label s + i\<rparr>))"

definition stripRight :: "nat \<Rightarrow> label_sequence \<Rightarrow> bundy_exn + label_sequence" where
  "stripRight i s =
     (if i \<ge> getLabelCount s then Inl OutOfRange
      else Inr (s\<lparr>last_label := last_label s - i\<rparr>))"

section \<open>Serialization\<close>

text \<open>
  The overlap check of \<^verbatim>\<open>serialize\<close> compares addresses, so the addresses of the two
  arrays and of the destination are arguments; the result is what is written at the
  destination.
\<close>

definition isOutOfRange :: "nat \<Rightarrow> nat \<Rightarrow> nat \<Rightarrow> nat \<Rightarrow> bool" where
  "isOutOfRange bp ep buf buf_len \<longleftrightarrow> bp \<ge> buf + buf_len \<or> ep \<le> buf"

fun rd_range :: "byte list \<Rightarrow> nat \<Rightarrow> nat \<Rightarrow> bundy_exn + byte list" where
  "rd_range xs i 0 = Inr []"
| "rd_range xs i (Suc k) = bindS (rd xs i) (\<lambda>x. bindS (rd_range xs (Suc i) k) (\<lambda>ys. Inr (x # ys)))"

definition serialize :: "nat \<Rightarrow> nat \<Rightarrow> nat \<Rightarrow> nat \<Rightarrow> label_sequence \<Rightarrow> bundy_exn + byte list" where
  "serialize offsets_addr data_addr buf buf_len s =
     bindS (getSerializedLength s) (\<lambda>expected_size.
     if expected_size > buf_len then Inl BadValue
     else
       (let offsets_len = getLabelCount s in
        if \<not> offsets_len < 256 then Inl AssertionFailure
        else
          bindS (getDataLength s) (\<lambda>ndata_len.
          if \<not> isOutOfRange offsets_addr (offsets_addr + offsets_len) buf buf_len \<or>
             \<not> isOutOfRange data_addr (data_addr + ndata_len) buf buf_len
          then Inl BadValue
          else
            bindS (rd (ls_offsets s) (first_label s)) (\<lambda>ofs.
            bindS (rd_range (ls_offsets s) (first_label s) offsets_len) (\<lambda>os.
            bindS (rd_range (ls_data s) (unat ofs) ndata_len) (\<lambda>ds.
              Inr (word_of_nat offsets_len # map (\<lambda>x. x - ofs) os @ ds)))))))"

text \<open>The constructor from serialized data, as built without \<^verbatim>\<open>ENABLE_DEBUG\<close>.\<close>

definition LabelSequence_buf :: "byte list \<Rightarrow> bundy_exn + label_sequence" where
  "LabelSequence_buf buf =
     bindS (rd buf 0) (\<lambda>offsets_len.
       Inr \<lparr>ls_data = drop (unat offsets_len) (tl buf), ls_offsets = tl buf,
            first_label = 0, last_label = unat offsets_len - 1\<rparr>)"

section \<open>Equality and comparison\<close>

definition fold_case :: "bool \<Rightarrow> byte \<Rightarrow> byte" where
  "fold_case case_sensitive c = (if case_sensitive then c else maptolower c)"

definition ls_equals :: "bool \<Rightarrow> label_sequence \<Rightarrow> label_sequence \<Rightarrow> bundy_exn + bool" where
  "ls_equals case_sensitive s t =
     bindS (getData s) (\<lambda>(data, len).
     bindS (getData t) (\<lambda>(other_data, other_len).
       if len \<noteq> other_len then Inr False
       else
         bindS (rd_range data 0 len) (\<lambda>xs.
         bindS (rd_range other_data 0 len) (\<lambda>ys.
           Inr (map (fold_case case_sensitive) xs = map (fold_case case_sensitive) ys)))))"

datatype name_relation = SUPERDOMAIN | SUBDOMAIN | EQUAL | COMMONANCESTOR | NONE

record comparison =
  getOrder :: int
  getCommonLabels :: nat
  getRelation :: name_relation

definition NameComparisonResult :: "int \<Rightarrow> nat \<Rightarrow> name_relation \<Rightarrow> comparison" where
  "NameComparisonResult ord n r = \<lparr>getOrder = ord, getCommonLabels = n, getRelation = r\<rparr>"

text \<open>The inner loop: the first nonzero difference of \<open>count\<close> characters, else 0.\<close>

fun cmp_chars :: "bool \<Rightarrow> byte list \<Rightarrow> nat \<Rightarrow> byte list \<Rightarrow> nat \<Rightarrow> nat \<Rightarrow> bundy_exn + int" where
  "cmp_chars cs d1 pos1 d2 pos2 0 = Inr 0"
| "cmp_chars cs d1 pos1 d2 pos2 (Suc count) =
     bindS (rd d1 pos1) (\<lambda>label1.
     bindS (rd d2 pos2) (\<lambda>label2.
       let chdiff = int (unat (fold_case cs label1)) - int (unat (fold_case cs label2)) in
       if chdiff \<noteq> 0 then Inr chdiff else cmp_chars cs d1 (pos1 + 1) d2 (pos2 + 1) count))"

text \<open>
  The outer loop, from the last labels to the first: \<open>l1\<close> and \<open>l2\<close> labels are left on
  each side, \<open>nlabels\<close> have been found equal, and \<open>l\<close> iterations remain.
\<close>

fun cmp_loop :: "bool \<Rightarrow> label_sequence \<Rightarrow> label_sequence \<Rightarrow> int \<Rightarrow> nat \<Rightarrow> nat \<Rightarrow> nat \<Rightarrow> nat \<Rightarrow> bundy_exn + comparison" where
  "cmp_loop cs s t ldiff nlabels l1 l2 0 =
     Inr (NameComparisonResult ldiff nlabels
            (if ldiff < 0 then SUPERDOMAIN else if ldiff > 0 then SUBDOMAIN else EQUAL))"
| "cmp_loop cs s t ldiff nlabels l1 l2 (Suc l) =
     bindS (rd (ls_offsets s) (l1 - 1 + first_label s)) (\<lambda>o1.
     bindS (rd (ls_offsets t) (l2 - 1 + first_label t)) (\<lambda>o2.
     bindS (rd (ls_data s) (unat o1)) (\<lambda>c1.
     bindS (rd (ls_data t) (unat o2)) (\<lambda>c2.
       if \<not> (unat c1 \<le> MAX_LABELLEN \<and> unat c2 \<le> MAX_LABELLEN) then Inl AssertionFailure
       else
         (let cdiff = int (unat c1) - int (unat c2);
              count = (if cdiff < 0 then unat c1 else unat c2);
              unequal = (if nlabels = 0 then NONE else COMMONANCESTOR) in
          bindS (cmp_chars cs (ls_data s) (unat o1 + 1) (ls_data t) (unat o2 + 1) count) (\<lambda>chdiff.
            if chdiff \<noteq> 0 then Inr (NameComparisonResult chdiff nlabels unequal)
            else if cdiff \<noteq> 0 then Inr (NameComparisonResult cdiff nlabels unequal)
            else cmp_loop cs s t ldiff (nlabels + 1) (l1 - 1) (l2 - 1) l))))))"

definition ls_compare :: "bool \<Rightarrow> label_sequence \<Rightarrow> label_sequence \<Rightarrow> bundy_exn + comparison" where
  "ls_compare cs s t =
     (let l1 = getLabelCount s; l2 = getLabelCount t; ldiff = int l1 - int l2;
          l = (if ldiff < 0 then l1 else l2)
      in cmp_loop cs s t ldiff 0 l1 l2 l)"

section \<open>Hash\<close>

text \<open>\<^verbatim>\<open>boost::hash_combine\<close> is the parameter \<open>hash_combine\<close>.\<close>

definition getHashHelper :: "('h \<Rightarrow> byte \<Rightarrow> 'h) \<Rightarrow> bool \<Rightarrow> 'h \<Rightarrow> nat \<Rightarrow> label_sequence \<Rightarrow> bundy_exn + 'h" where
  "getHashHelper hash_combine case_sensitive seed max_length s =
     bindS (getData s) (\<lambda>(p, length).
       let len = (if max_length \<noteq> 0 \<and> length > max_length then max_length else length) in
       bindS (rd_range p 0 len) (\<lambda>cs.
         Inr (fold (\<lambda>c h. hash_combine h (fold_case case_sensitive c)) cs seed)))"

section \<open>Text\<close>

definition escape_char :: "byte \<Rightarrow> byte list" where
  "escape_char c =
     (if c \<in> {0x22, 0x28, 0x29, 0x2e, 0x3b, 0x5c, 0x40, 0x24} then [0x5c, c]
      else if 0x20 < c \<and> c < 0x7f then [c]
      else [0x5c, 0x30 + ((c div 100) mod 10), 0x30 + ((c div 10) mod 10), 0x30 + (c mod 10)])"

text \<open>
  The loop of \<^verbatim>\<open>toText\<close>: the bytes from \<^verbatim>\<open>np\<close> to \<^verbatim>\<open>np_end\<close>, the label counter and
  the text so far.  The result carries what the final assertions look at.
\<close>

function toText_loop :: "bool \<Rightarrow> byte list \<Rightarrow> int \<Rightarrow> byte list \<Rightarrow> bundy_exn + byte list \<times> int \<times> byte list" where
  "toText_loop omit [] labels result = Inr ([], labels, result)"
| "toText_loop omit (count # np) labels result =
     (if count = 0 then
        Inr (np, labels - 1, if \<not> omit \<or> result = [] then result @ [0x2e] else result)
      else if unat count \<le> MAX_LABELLEN then
        (if length np < unat count then Inl AssertionFailure
         else toText_loop omit (drop (unat count) np) (labels - 1)
                ((if result = [] then result else result @ [0x2e]) @
                 concat (map escape_char (take (unat count) np))))
      else Inl BadLabelType)"
  by pat_completeness auto
termination
  by (relation "measure (\<lambda>(omit, np, labels, result). length np)") auto

definition ls_toText_omit :: "bool \<Rightarrow> label_sequence \<Rightarrow> bundy_exn + byte list" where
  "ls_toText_omit omit_final_dot s =
     bindS (getData s) (\<lambda>(p, len).
     bindS (rd_range p 0 len) (\<lambda>np.
     bindS (toText_loop omit_final_dot np (int (getLabelCount s)) []) (\<lambda>(rest, labels, result).
       if rest = [] \<and> labels = 0 then Inr result else Inl AssertionFailure)))"

definition ls_toText :: "label_sequence \<Rightarrow> bundy_exn + byte list" where
  "ls_toText s = bindS (isAbsolute s) (\<lambda>a. ls_toText_omit (\<not> a) s)"

section \<open>The labels a sequence stands for\<close>

definition ls_rep :: "label_sequence \<Rightarrow> label list \<Rightarrow> bool" where
  "ls_rep s A \<longleftrightarrow> A \<noteq> [] \<and>
     (\<exists>P S junk ojunk.
        ls_data s = wire (P @ A @ S) @ junk \<and>
        ls_offsets s = map word_of_nat (offs (P @ A @ S)) @ ojunk \<and>
        first_label s = length P \<and> last_label s = length P + length A - 1 \<and>
        length (wire (P @ A @ S)) \<le> MAX_WIRE \<and> (\<forall>l \<in> set (P @ A @ S). length l \<le> MAX_LABELLEN))"

lemma ls_rep_LabelSequence: "abs_labels L \<Longrightarrow> ls_rep (LabelSequence (mk_name L)) L"
  using abs_labels_lengths [of L] abs_labels_count [of L]
  by (auto simp: ls_rep_def LabelSequence_def
      intro!: exI [of _ "[]"])

lemma ls_rep_count: "ls_rep s A \<Longrightarrow> getLabelCount s = length A"
  by (cases A) (auto simp: ls_rep_def getLabelCount_def)

lemma ls_rep_nonempty: "ls_rep s A \<Longrightarrow> A \<noteq> []"
  by (simp add: ls_rep_def)

lemma offs_rep_nth:
  assumes "i < length A"
  shows "offs (P @ A @ S) ! (length P + i) = length (wire P) + length (wire (take i A))"
proof -
  have "length P + i < length (P @ A @ S)" "take (length P + i) (P @ A @ S) = P @ take i A"
    using assms by auto
  then show ?thesis
    using offs_nth [of "length P + i" "P @ A @ S"] by simp
qed

lemma wire_split: "i < length A \<Longrightarrow> wire A = wire (take i A) @ word_of_nat (length (A ! i)) # A ! i @ wire (drop (Suc i) A)"
  by (metis id_take_nth_drop wire.simps(2) wire_append)

text \<open>The offset of each label of the window, and what is stored there.\<close>

lemma ls_rep_label:
  assumes "ls_rep s A" "i < length A"
  obtains ofs pre post where "rd (ls_offsets s) (first_label s + i) = Inr ofs"
    "unat ofs = pre + length (wire (take i A))" "pre + length (wire A) \<le> MAX_WIRE"
    "drop (unat ofs) (ls_data s) = word_of_nat (length (A ! i)) # A ! i @ wire (drop (Suc i) A) @ post"
    "drop pre (ls_data s) = wire A @ post"
    "rd (ls_offsets s) (first_label s) = Inr (word_of_nat pre)"
proof -
  from assms obtain P S junk ojunk where
    d: "ls_data s = wire (P @ A @ S) @ junk" and
    o: "ls_offsets s = map word_of_nat (offs (P @ A @ S)) @ ojunk" and
    f: "first_label s = length P" and
    b: "length (wire (P @ A @ S)) \<le> MAX_WIRE"
    by (auto simp: ls_rep_def)
  let ?k = "length (wire P) + length (wire (take i A))"
  have nth: "rd (ls_offsets s) (first_label s + j) =
      Inr (word_of_nat (length (wire P) + length (wire (take j A))))" if "j < length A" for j
  proof -
    have "length P + j < length (offs (P @ A @ S))"
      using that by simp
    then show ?thesis
      unfolding o f rd_map_append [OF \<open>length P + j < length (offs (P @ A @ S))\<close>]
      using offs_rep_nth [OF that, of P S] by metis
  qed
  have k: "?k \<le> length (wire P) + length (wire A)"
    using length_wire_take_le [of i A] by simp
  have u: "unat (word_of_nat ?k :: byte) = ?k"
    using k b by (intro unat_of_nat_byte) (simp add: name_limits)
  have "drop ?k (ls_data s) = word_of_nat (length (A ! i)) # A ! i @ wire (drop (Suc i) A) @ (wire S @ junk)"
  proof -
    have "ls_data s = (wire P @ wire (take i A)) @ (word_of_nat (length (A ! i)) # A ! i @ wire (drop (Suc i) A)) @ wire S @ junk"
      using wire_split [OF assms(2)] d by simp
    then show ?thesis
      by (metis append_eq_conv_conj append_Cons append_assoc length_append)
  qed
  moreover have "drop (length (wire P)) (ls_data s) = wire A @ wire S @ junk"
    using d by simp
  ultimately show ?thesis
    using that [of "word_of_nat ?k" "length (wire P)" "wire S @ junk"] nth [OF assms(2)] nth [of 0] assms(2) u b
    by (cases "A = []") simp_all
qed

lemma rd_range_drop: "drop i xs = ys @ zs \<Longrightarrow> rd_range xs i (length ys) = Inr ys"
proof (induction ys arbitrary: i)
  case (Cons y ys)
  then have "rd xs i = Inr y" "drop (Suc i) xs = ys @ zs"
    by (auto intro: rd_drop) (metis drop_Suc list.sel(3) tl_drop)
  then show ?case using Cons.IH [of "Suc i"] by simp
qed simp

lemma ls_rep_getDataLength:
  assumes "ls_rep s A"
  shows "getDataLength s = Inr (length (wire A))"
proof -
  let ?i = "length A - 1"
  have i: "?i < length A" and last: "last_label s = first_label s + ?i"
    using assms by (cases A; auto simp: ls_rep_def)+
  obtain ofs pre post where *: "rd (ls_offsets s) (first_label s + ?i) = Inr ofs"
    "unat ofs = pre + length (wire (take ?i A))" "pre + length (wire A) \<le> MAX_WIRE"
    "drop (unat ofs) (ls_data s) = word_of_nat (length (A ! ?i)) # A ! ?i @ wire (drop (Suc ?i) A) @ post"
    "rd (ls_offsets s) (first_label s) = Inr (word_of_nat pre)"
    by (rule ls_rep_label [OF assms i])
  have w: "length (wire A) = length (wire (take ?i A)) + 1 + length (A ! ?i)"
    using wire_split [OF i] i by simp
  have "unat (word_of_nat pre :: byte) = pre" "unat (word_of_nat (length (A ! ?i)) :: byte) = length (A ! ?i)"
    using *(3) w by (auto intro!: unat_of_nat_byte simp: name_limits)
  then show ?thesis
    using * rd_drop [OF *(4)] w by (simp add: getDataLength_def last)
qed

lemma ls_rep_getData:
  assumes "ls_rep s A"
  obtains post where "getData s = Inr (wire A @ post, length (wire A))"
proof -
  obtain ofs pre post where *: "pre + length (wire A) \<le> MAX_WIRE" "drop pre (ls_data s) = wire A @ post"
    "rd (ls_offsets s) (first_label s) = Inr (word_of_nat pre)"
    by (rule ls_rep_label [OF assms, of 0]) (use ls_rep_nonempty [OF assms] in auto)
  moreover have "unat (word_of_nat pre :: byte) = pre"
    using *(1) by (intro unat_of_nat_byte) (simp add: name_limits)
  ultimately show ?thesis
    using that [of post] ls_rep_getDataLength [OF assms] by (simp add: getData_def)
qed

end
