(* ===== verification/Dns_Compare.thy ===== *)
theory Dns_Compare
  imports Dns_LabelSeq
begin

text \<open>
  Comparison of names.  \<open>ls_compare\<close> walks two offset tables backwards; the theorems here
  show that it computes the canonical DNS name order of RFC 4034 (section 6.1): the
  lexicographic order of the reversed, lower-cased label lists.  The order laws are
  proved once in the locale \<open>keyed_compare\<close>, which the class's operations interpret.
\<close>

section \<open>Specification of the comparison\<close>

text \<open>What the name is sorted by.\<close>

definition name_key :: "label list \<Rightarrow> label list" where
  "name_key A = map (map maptolower) (rev A)"

fun chars_diff :: "byte list \<Rightarrow> byte list \<Rightarrow> int" where
  "chars_diff (x # xs) (y # ys) = (if x \<noteq> y then int (unat x) - int (unat y) else chars_diff xs ys)"
| "chars_diff _ _ = 0"

definition label_diff :: "label \<Rightarrow> label \<Rightarrow> int" where
  "label_diff a b = (if chars_diff a b \<noteq> 0 then chars_diff a b else int (length a) - int (length b))"

fun compare_spec :: "label list \<Rightarrow> label list \<Rightarrow> nat \<Rightarrow> comparison" where
  "compare_spec (a # r1) (b # r2) k =
     (if label_diff a b \<noteq> 0
      then NameComparisonResult (label_diff a b) k (if k = 0 then NONE else COMMONANCESTOR)
      else compare_spec r1 r2 (k + 1))"
| "compare_spec r1 r2 k =
     NameComparisonResult (int (length r1) - int (length r2)) k
       (if length r1 < length r2 then SUPERDOMAIN else if length r1 > length r2 then SUBDOMAIN else EQUAL)"

section \<open>The loops compute the specification\<close>

lemma cmp_chars_diff:
  "drop p d1 = a @ r1 \<Longrightarrow> drop q d2 = b @ r2 \<Longrightarrow> k = min (length a) (length b) \<Longrightarrow>
   cmp_chars cs d1 p d2 q k = Inr (chars_diff (map (fold_case cs) a) (map (fold_case cs) b))"
proof (induction k arbitrary: p q a b)
  case 0
  then show ?case by (cases a; cases b) auto
next
  case (Suc k)
  then obtain x a' y b' where ab: "a = x # a'" "b = y # b'"
    by (metis Suc_neq_Zero length_0_conv list.exhaust min_0L min_0R)
  have "rd d1 p = Inr x" "rd d2 q = Inr y"
    using Suc.prems ab by (auto intro: rd_drop)
  moreover have "drop (p + 1) d1 = a' @ r1" "drop (q + 1) d2 = b' @ r2"
    using Suc.prems ab by (metis Suc_eq_plus1 append_Cons drop_Suc list.sel(3) tl_drop)+
  ultimately show ?case
    using Suc.IH [of "p + 1" a' "q + 1" b'] Suc.prems(3) ab
    by (auto simp: Let_def word_uint_eq_iff)
qed

lemma compare_spec_Nil:
  "r1 = [] \<or> r2 = [] \<Longrightarrow> compare_spec r1 r2 k =
     NameComparisonResult (int (length r1) - int (length r2)) k
       (if length r1 < length r2 then SUPERDOMAIN else if length r1 > length r2 then SUBDOMAIN else EQUAL)"
  by (cases r1; cases r2) auto

lemma take_last_label: "l1 \<le> length A \<Longrightarrow> 0 < l1 \<Longrightarrow> rev (take l1 A) = A ! (l1 - 1) # rev (take (l1 - 1) A)"
  by (cases l1) (auto simp: take_Suc_conv_app_nth)

lemma cmp_loop_spec:
  assumes s: "ls_rep s A" and t: "ls_rep t B"
  shows "l = min l1 l2 \<Longrightarrow> l1 \<le> length A \<Longrightarrow> l2 \<le> length B \<Longrightarrow> ldiff = int l1 - int l2 \<Longrightarrow>
    cmp_loop cs s t ldiff k l1 l2 l =
    Inr (compare_spec (map (map (fold_case cs)) (rev (take l1 A))) (map (map (fold_case cs)) (rev (take l2 B))) k)"
proof (induction l arbitrary: l1 l2 k)
  case 0
  then have "l1 = 0 \<or> l2 = 0"
    by auto
  then show ?case
    using 0 by (subst compare_spec_Nil) auto
next
  case (Suc l)
  let ?a = "A ! (l1 - 1)" and ?b = "B ! (l2 - 1)"
  have l: "0 < l1" "0 < l2" "l1 - 1 < length A" "l2 - 1 < length B"
    using Suc.prems by auto
  obtain o1 p1 r1 where o1: "rd (ls_offsets s) (first_label s + (l1 - 1)) = Inr o1"
    "drop (unat o1) (ls_data s) = word_of_nat (length ?a) # ?a @ wire (drop (Suc (l1 - 1)) A) @ r1"
    by (rule ls_rep_label [OF s l(3)]) blast
  obtain o2 p2 r2 where o2: "rd (ls_offsets t) (first_label t + (l2 - 1)) = Inr o2"
    "drop (unat o2) (ls_data t) = word_of_nat (length ?b) # ?b @ wire (drop (Suc (l2 - 1)) B) @ r2"
    by (rule ls_rep_label [OF t l(4)]) blast
  have len: "length ?a \<le> MAX_LABELLEN" "length ?b \<le> MAX_LABELLEN"
    using s t l by (auto simp: ls_rep_def)
  then have u: "unat (word_of_nat (length ?a) :: byte) = length ?a" "unat (word_of_nat (length ?b) :: byte) = length ?b"
    by (auto intro!: unat_of_nat_byte simp: name_limits)
  have d: "drop (unat o1 + 1) (ls_data s) = ?a @ wire (drop (Suc (l1 - 1)) A) @ r1"
    "drop (unat o2 + 1) (ls_data t) = ?b @ wire (drop (Suc (l2 - 1)) B) @ r2"
    using o1(2) o2(2) by (metis Suc_eq_plus1 drop_Suc list.sel(3) tl_drop)+
  have ch: "cmp_chars cs (ls_data s) (unat o1 + 1) (ls_data t) (unat o2 + 1) n =
      Inr (chars_diff (map (fold_case cs) ?a) (map (fold_case cs) ?b))"
    if "n = min (length ?a) (length ?b)" for n
    by (rule cmp_chars_diff [OF d that])
  have IH: "cmp_loop cs s t ldiff (k + 1) (l1 - 1) (l2 - 1) l =
    Inr (compare_spec (map (map (fold_case cs)) (rev (take (l1 - 1) A)))
      (map (map (fold_case cs)) (rev (take (l2 - 1) B))) (k + 1))"
    using Suc.prems l by (intro Suc.IH) auto
  show ?case
    using len rd_drop [OF o1(2)] rd_drop [OF o2(2)] take_last_label [OF Suc.prems(2) l(1)]
      take_last_label [OF Suc.prems(3) l(2)]
    by (simp add: o1(1) o2(1) add.commute [of "l1 - 1"] add.commute [of "l2 - 1"] u Let_def ch IH
        label_diff_def del: One_nat_def)
qed

lemma ls_compare_spec:
  assumes "ls_rep s A" "ls_rep t B"
  shows "ls_compare cs s t =
    Inr (compare_spec (map (map (fold_case cs)) (rev A)) (map (map (fold_case cs)) (rev B)) 0)"
proof -
  have "(if int (length A) - int (length B) < 0 then length A else length B) = min (length A) (length B)"
    by auto
  then show ?thesis
    using cmp_loop_spec [OF assms refl order_refl order_refl refl, of cs 0]
    by (simp add: ls_compare_def ls_rep_count [OF assms(1)] ls_rep_count [OF assms(2)] Let_def)
qed

lemma ls_compare_key:
  assumes "ls_rep s A" "ls_rep t B"
  shows "ls_compare False s t = Inr (compare_spec (name_key A) (name_key B) 0)"
  using ls_compare_spec [OF assms, of False]
  by (simp add: name_key_def fold_case_def [abs_def])

section \<open>The specification is the canonical order\<close>

lemma chars_diff_less:
  "chars_diff a b \<noteq> 0 \<Longrightarrow> (chars_diff a b < 0 \<longleftrightarrow> a < b) \<and> a \<noteq> b"
  by (induction a b rule: chars_diff.induct, goal_cases) (auto simp: word_less_def word_uint_eq_iff split: if_splits)

lemma chars_diff_zero:
  "chars_diff a b = 0 \<Longrightarrow> (length a < length b \<longleftrightarrow> a < b) \<and> (length a = length b \<longleftrightarrow> a = b)"
proof (induction a b rule: chars_diff.induct, goal_cases)
  case (1 x xs y ys)
  then show ?case by (auto simp: word_uint_eq_iff word_less_def split: if_splits)
next
  case (2 v)
  then show ?case by (cases v) auto
next
  case (3 v)
  then show ?case by (cases v) auto
qed

lemma label_diff_less: "label_diff a b < 0 \<longleftrightarrow> a < b"
  using chars_diff_less [of a b] chars_diff_zero [of a b] by (auto simp: label_diff_def)

lemma label_diff_zero [simp]: "label_diff a b = 0 \<longleftrightarrow> a = b"
  using chars_diff_less [of a b] chars_diff_zero [of a b] by (auto simp: label_diff_def)

lemma compare_spec_order:
  "(getOrder (compare_spec r1 r2 k) < 0 \<longleftrightarrow> r1 < r2) \<and> (getOrder (compare_spec r1 r2 k) = 0 \<longleftrightarrow> r1 = r2)"
proof (induction r1 r2 k rule: compare_spec.induct, goal_cases)
  case (1 a r1 b r2 k)
  then show ?case by (auto simp: NameComparisonResult_def label_diff_less)
next
  case (2 v k)
  then show ?case by (cases v) (auto simp: NameComparisonResult_def)
next
  case (3 v k)
  then show ?case by (cases v) (auto simp: NameComparisonResult_def)
qed

lemma compare_spec_common:
  "getCommonLabels (compare_spec r1 r2 k) = k + length (Longest_common_prefix {r1, r2})"
proof (induction r1 r2 k rule: compare_spec.induct, goal_cases)
  case (1 a r1 b r2 k)
  show ?case
  proof (cases "a = b")
    case True
    have "Longest_common_prefix {a # r1, a # r2} = a # Longest_common_prefix {r1, r2}"
      using Longest_common_prefix_image_Cons [of "{r1, r2}" a] by simp
    then show ?thesis using 1 True by simp
  next
    case False
    then have "Longest_common_prefix {a # r1, b # r2} = []"
      by (metis Longest_common_prefix_eq_Nil insertI1 insertI2 insert_not_empty)
    then show ?thesis using False by (simp add: NameComparisonResult_def)
  qed
qed (auto simp: NameComparisonResult_def Longest_common_prefix_Nil)

lemma compare_spec_relation:
  "getRelation (compare_spec r1 r2 k) =
     (if r1 = r2 then EQUAL else if strict_prefix r1 r2 then SUPERDOMAIN
      else if strict_prefix r2 r1 then SUBDOMAIN
      else if getCommonLabels (compare_spec r1 r2 k) = 0 then NONE else COMMONANCESTOR)"
proof (induction r1 r2 k rule: compare_spec.induct, goal_cases)
  case (1 a r1 b r2 k)
  then show ?case by (cases "a = b") (auto simp: NameComparisonResult_def)
next
  case (2 v k)
  then show ?case by (cases v) (auto simp: NameComparisonResult_def strict_prefix_def)
next
  case (3 v k)
  then show ?case by (cases v) (auto simp: NameComparisonResult_def strict_prefix_def)
qed

section \<open>Order laws of a comparison with a sort key\<close>

text \<open>
  The contract between a three-way comparison and its clients: on the objects of interest
  the sign of the result is that of the comparison of their keys.
\<close>

locale keyed_compare =
  fixes cmp :: "'a \<Rightarrow> 'a \<Rightarrow> int"
    and key :: "'a \<Rightarrow> 'k::linorder"
    and good :: "'a \<Rightarrow> bool"
  assumes cmp_less: "good x \<Longrightarrow> good y \<Longrightarrow> cmp x y < 0 \<longleftrightarrow> key x < key y"
    and cmp_zero: "good x \<Longrightarrow> good y \<Longrightarrow> cmp x y = 0 \<longleftrightarrow> key x = key y"
begin

lemma cmp_greater: "good x \<Longrightarrow> good y \<Longrightarrow> cmp x y > 0 \<longleftrightarrow> key y < key x"
  using cmp_less [of x y] cmp_zero [of x y] by auto

lemma cmp_antisym: "good x \<Longrightarrow> good y \<Longrightarrow> sgn (cmp y x) = - sgn (cmp x y)"
  using cmp_less [of x y] cmp_less [of y x] cmp_zero [of x y] cmp_zero [of y x] cmp_greater [of x y]
  by (cases "key x" "key y" rule: linorder_cases) auto

lemma cmp_trans:
  assumes "good x" "good y" "good z" "cmp x y \<le> 0" "cmp y z \<le> 0"
  shows "cmp x z \<le> 0" "cmp x y < 0 \<or> cmp y z < 0 \<Longrightarrow> cmp x z < 0"
proof -
  have le: "cmp a b \<le> 0 \<longleftrightarrow> key a \<le> key b" if "good a" "good b" for a b
    using cmp_less [OF that] cmp_zero [OF that] by (auto simp: le_less)
  have "key x \<le> key y" "key y \<le> key z"
    using assms by (simp_all add: le)
  then show "cmp x z \<le> 0" "cmp x y < 0 \<or> cmp y z < 0 \<Longrightarrow> cmp x z < 0"
    using assms by (auto simp: le cmp_less)
qed

end

end
