(* ===== verification/Dns_NameOps.thy ===== *)
theory Dns_NameOps
  imports Dns_NameParse Dns_Compare
begin

text \<open>
  The remaining operations of the class \<^verbatim>\<open>Name\<close> (\<^verbatim>\<open>src/lib/dns/name.cc\<close>): comparison and
  equality, \<^verbatim>\<open>concatenate\<close>, \<^verbatim>\<open>reverse\<close>, \<^verbatim>\<open>split\<close>, \<^verbatim>\<open>downcase\<close>, \<^verbatim>\<open>isWildcard\<close> and
  the conversion to text, each related to the corresponding operation on label lists.
\<close>

section \<open>Operations\<close>

definition Name_at :: "name \<Rightarrow> nat \<Rightarrow> bundy_exn + byte" where
  "Name_at n pos = (if pos \<ge> nlength n then Inl OutOfRange else rd (ndata n) pos)"

definition Name_compare :: "name \<Rightarrow> name \<Rightarrow> bundy_exn + comparison" where
  "Name_compare n other = ls_compare False (LabelSequence n) (LabelSequence other)"

fun equals_chars :: "byte list \<Rightarrow> byte list \<Rightarrow> nat \<Rightarrow> nat \<Rightarrow> bundy_exn + bool" where
  "equals_chars d1 d2 pos 0 = Inr True"
| "equals_chars d1 d2 pos (Suc count) =
     bindS (rd d1 pos) (\<lambda>label1.
     bindS (rd d2 pos) (\<lambda>label2.
       if maptolower label1 \<noteq> maptolower label2 then Inr False
       else equals_chars d1 d2 (pos + 1) count))"

fun equals_loop :: "byte list \<Rightarrow> byte list \<Rightarrow> nat \<Rightarrow> nat \<Rightarrow> bundy_exn + bool" where
  "equals_loop d1 d2 pos 0 = Inr True"
| "equals_loop d1 d2 pos (Suc l) =
     bindS (rd d1 pos) (\<lambda>count.
     bindS (rd d2 pos) (\<lambda>count2.
       if count \<noteq> count2 then Inr False
       else
         bindS (equals_chars d1 d2 (pos + 1) (unat count)) (\<lambda>same.
           if same then equals_loop d1 d2 (pos + 1 + unat count) l else Inr False)))"

definition Name_equals :: "name \<Rightarrow> name \<Rightarrow> bundy_exn + bool" where
  "Name_equals n other =
     (if nlength n \<noteq> nlength other \<or> labelcount n \<noteq> labelcount other then Inr False
      else equals_loop (ndata n) (ndata other) 0 (labelcount n))"

definition Name_leq :: "name \<Rightarrow> name \<Rightarrow> bundy_exn + bool" where
  "Name_leq n other = bindS (Name_compare n other) (\<lambda>c. Inr (getOrder c \<le> 0))"

definition Name_geq :: "name \<Rightarrow> name \<Rightarrow> bundy_exn + bool" where
  "Name_geq n other = bindS (Name_compare n other) (\<lambda>c. Inr (getOrder c \<ge> 0))"

definition Name_lthan :: "name \<Rightarrow> name \<Rightarrow> bundy_exn + bool" where
  "Name_lthan n other = bindS (Name_compare n other) (\<lambda>c. Inr (getOrder c < 0))"

definition Name_gthan :: "name \<Rightarrow> name \<Rightarrow> bundy_exn + bool" where
  "Name_gthan n other = bindS (Name_compare n other) (\<lambda>c. Inr (getOrder c > 0))"

definition isWildcard :: "name \<Rightarrow> bundy_exn + bool" where
  "isWildcard n =
     (if nlength n \<ge> 2
      then bindS (rd (ndata n) 0) (\<lambda>c. if c = 1 then bindS (rd (ndata n) 1) (\<lambda>d. Inr (d = 0x2a)) else Inr False)
      else Inr False)"

definition concatenate :: "name \<Rightarrow> name \<Rightarrow> bundy_exn + name" where
  "concatenate n sfx =
     (if \<not> (nlength n > 0 \<and> nlength sfx > 0 \<and> labelcount n > 0 \<and> labelcount sfx > 0)
      then Inl AssertionFailure
      else
        (let len = nlength n + nlength sfx - 1 in
         if len > MAX_WIRE then Inl TooLongName
         else
           (let nd = take (nlength n - 1) (ndata n) @ ndata sfx;
                labels = labelcount n + labelcount sfx - 1;
                os = take (labelcount n - 1) (noffsets n) @
                     map (\<lambda>x. x + word_of_nat (nlength n - 1)) (noffsets sfx) in
            if length nd \<noteq> len then Inl AssertionFailure
            else if \<not> labels \<le> MAX_LABELS then Inl AssertionFailure
            else if length os \<noteq> labels then Inl AssertionFailure
            else Inr \<lparr>ndata = nd, noffsets = os, nlength = len, labelcount = labels\<rparr>)))"

text \<open>The loop of \<^verbatim>\<open>reverse\<close>; the third argument is the list of offsets from the back.\<close>

fun reverse_loop :: "byte list \<Rightarrow> byte list \<Rightarrow> byte list \<Rightarrow> byte list \<Rightarrow> byte list \<times> byte list" where
  "reverse_loop nd (o0 # o1 # os) rd_data rd_offs =
     (let d = rd_data @ take (unat o0 - unat o1) (drop (unat o1) nd)
      in reverse_loop nd (o1 # os) d (rd_offs @ [word_of_nat (length d)]))"
| "reverse_loop nd os rd_data rd_offs = (rd_data, rd_offs)"

definition Name_reverse :: "name \<Rightarrow> name" where
  "Name_reverse n =
     (case reverse_loop (ndata n) (rev (noffsets n)) [] [0] of
        (d, os) \<Rightarrow> \<lparr>ndata = d @ [0], noffsets = os, nlength = nlength n, labelcount = labelcount n\<rparr>)"

definition Name_split :: "nat \<Rightarrow> nat \<Rightarrow> name \<Rightarrow> bundy_exn + name" where
  "Name_split first n nm =
     (if n = 0 \<or> n > labelcount nm \<or> first > labelcount nm - n then Inl OutOfRange
      else
        (let newlabels = (if first + n = labelcount nm then n else n + 1) in
         bindS (rd_range (noffsets nm) first newlabels) (\<lambda>os0.
         bindS (rd (noffsets nm) first) (\<lambda>o1.
           let os = map (\<lambda>x. x - o1) os0 in
           if unat o1 > length (ndata nm) then Inl StdOutOfRange
           else
             (let nd = take (unat (last os)) (drop (unat o1) (ndata nm)) @ [0] in
              if length os \<noteq> newlabels then Inl AssertionFailure
              else Inr \<lparr>ndata = nd, noffsets = os, nlength = length nd, labelcount = length os\<rparr>)))))"

definition Name_split_level :: "nat \<Rightarrow> name \<Rightarrow> bundy_exn + name" where
  "Name_split_level level nm =
     (if level \<ge> labelcount nm then Inl OutOfRange else Name_split level (labelcount nm - level) nm)"

text \<open>\<^verbatim>\<open>downcase\<close>: the inner and the outer loop, with the checked accesses \<^verbatim>\<open>at(pos)\<close>.\<close>

fun downcase_chars :: "byte list \<Rightarrow> nat \<Rightarrow> nat \<Rightarrow> bundy_exn + byte list" where
  "downcase_chars nd pos 0 = Inr nd"
| "downcase_chars nd pos (Suc count) =
     (if pos < length nd then downcase_chars (nd[pos := maptolower (nd ! pos)]) (pos + 1) count
      else Inl StdOutOfRange)"

fun downcase_loop :: "byte list \<Rightarrow> nat \<Rightarrow> nat \<Rightarrow> nat \<Rightarrow> bundy_exn + byte list" where
  "downcase_loop nd pos nlen 0 = Inr nd"
| "downcase_loop nd pos nlen (Suc labels) =
     (if nlen = 0 then Inr nd
      else if \<not> pos < length nd then Inl StdOutOfRange
      else
        (let count = unat (nd ! pos) in
         if \<not> count \<le> MAX_LABELLEN then Inl AssertionFailure
         else if \<not> nlen - 1 \<ge> count then Inl AssertionFailure
         else bindS (downcase_chars nd (pos + 1) count) (\<lambda>nd'.
                downcase_loop nd' (pos + 1 + count) (nlen - 1 - count) labels)))"

definition downcase :: "name \<Rightarrow> bundy_exn + name" where
  "downcase n = bindS (downcase_loop (ndata n) 0 (nlength n) (labelcount n)) (\<lambda>nd. Inr (n\<lparr>ndata := nd\<rparr>))"

definition Name_toText_bytes :: "bool \<Rightarrow> name \<Rightarrow> bundy_exn + byte list" where
  "Name_toText_bytes omit_final_dot n = ls_toText_omit omit_final_dot (LabelSequence n)"

definition Name_toText :: "bool \<Rightarrow> name \<Rightarrow> bundy_exn + string" where
  "Name_toText omit_final_dot n = bindS (Name_toText_bytes omit_final_dot n) (\<lambda>bs. Inr (map char_of_byte bs))"

definition Name_toWire :: "name \<Rightarrow> byte list" where
  "Name_toWire n = ndata n"

section \<open>Comparison\<close>

lemma Name_compare_key:
  assumes "wf_name n" "wf_name m"
  shows "Name_compare n m = Inr (compare_spec (name_key (labels_of n)) (name_key (labels_of m)) 0)"
  using assms by (auto simp: Name_compare_def ls_compare_key ls_rep_LabelSequence elim!: wf_nameE)

definition name_order :: "name \<Rightarrow> name \<Rightarrow> int" where
  "name_order n m = (case Name_compare n m of Inr c \<Rightarrow> getOrder c | Inl _ \<Rightarrow> 0)"

interpretation canonical: keyed_compare name_order "\<lambda>n. name_key (labels_of n)" wf_name
  by unfold_locales (simp_all add: name_order_def Name_compare_key compare_spec_order)

section \<open>Equality\<close>

lemma maptolower_length_byte: "n \<le> MAX_LABELLEN \<Longrightarrow> maptolower (word_of_nat n) = word_of_nat n"
  by (simp add: word_unat_eq_iff unat_maptolower unat_of_nat_byte name_limits)

lemma equals_chars_map:
  "drop pos d1 = a @ r1 \<Longrightarrow> drop pos d2 = b @ r2 \<Longrightarrow> length a = count \<Longrightarrow> length b = count \<Longrightarrow>
   equals_chars d1 d2 pos count = Inr (map maptolower a = map maptolower b)"
proof (induction count arbitrary: pos a b)
  case (Suc count)
  then obtain x a' y b' where ab: "a = x # a'" "b = y # b'"
    by (metis length_Suc_conv)
  have "rd d1 pos = Inr x" "rd d2 pos = Inr y"
    using Suc.prems ab by (auto intro: rd_drop)
  moreover have "drop (pos + 1) d1 = a' @ r1" "drop (pos + 1) d2 = b' @ r2"
    using Suc.prems ab by (metis Suc_eq_plus1 append_Cons drop_Suc list.sel(3) tl_drop)+
  ultimately show ?case
    using Suc.IH [of "pos + 1" a' b'] Suc.prems ab by simp
qed simp

lemma equals_loop_labels:
  "drop pos d1 = wire A \<Longrightarrow> drop pos d2 = wire B \<Longrightarrow> length A = l \<Longrightarrow> length B = l \<Longrightarrow>
   \<forall>x \<in> set A \<union> set B. length x \<le> MAX_LABELLEN \<Longrightarrow>
   equals_loop d1 d2 pos l = Inr (map (map maptolower) A = map (map maptolower) B)"
proof (induction l arbitrary: pos A B)
  case (Suc l)
  then obtain a A' b B' where AB: "A = a # A'" "B = b # B'"
    by (metis length_Suc_conv)
  have r: "rd d1 pos = Inr (word_of_nat (length a))" "rd d2 pos = Inr (word_of_nat (length b))"
    using Suc.prems AB by (auto intro: rd_drop)
  have d: "drop (pos + 1) d1 = a @ wire A'" "drop (pos + 1) d2 = b @ wire B'"
    using Suc.prems AB by (metis Suc_eq_plus1 drop_Suc list.sel(3) tl_drop wire.simps(2))+
  then have d': "drop (pos + 1 + length a) d1 = wire A'" "drop (pos + 1 + length b) d2 = wire B'"
    by (metis add.commute append_eq_conv_conj drop_drop)+
  have u: "unat (word_of_nat (length a) :: byte) = length a" "unat (word_of_nat (length b) :: byte) = length b"
    using Suc.prems(5) AB by (auto intro!: unat_of_nat_byte simp: name_limits)
  show ?case
  proof (cases "length a = length b")
    case True
    then show ?thesis
      using r u equals_chars_map [OF d refl] d' Suc.IH [of "pos + 1 + length a" A' B'] Suc.prems AB
      by simp
  next
    case False
    then have "word_of_nat (length a) \<noteq> (word_of_nat (length b) :: byte)"
      using u by metis
    moreover have "map maptolower a \<noteq> map maptolower b"
      using False by (metis length_map)
    ultimately show ?thesis
      using r AB by simp
  qed
qed simp

lemma map_map_length:
  "map (map f) A = map (map f) B \<Longrightarrow> length (wire A) = length (wire B) \<and> length A = length B"
proof (induction A arbitrary: B)
  case (Cons a A)
  then obtain b B' where B: "B = b # B'" "map f a = map f b" "map (map f) A = map (map f) B'"
    by (cases B) auto
  then have "length a = length b"
    by (metis length_map)
  then show ?case
    using Cons.IH [OF B(3)] B(1) by simp
qed simp

lemma Name_equals_labels:
  assumes "wf_name n" "wf_name m"
  shows "Name_equals n m = Inr (name_key (labels_of n) = name_key (labels_of m))"
proof -
  obtain A B where A: "abs_labels A" "n = mk_name A" and B: "abs_labels B" "m = mk_name B"
    using assms by (meson wf_nameE)
  have key: "name_key A = name_key B \<longleftrightarrow> map (map maptolower) A = map (map maptolower) B"
    by (metis name_key_def rev_map rev_rev_ident)
  have "equals_loop (wire A) (wire B) 0 (length B) = Inr (map (map maptolower) A = map (map maptolower) B)"
    if "length A = length B"
    using that abs_labels_lengths(1) [OF A(1)] abs_labels_lengths(1) [OF B(1)]
    by (intro equals_loop_labels) auto
  then show ?thesis
    using A B map_map_length [of maptolower A B] key by (auto simp: Name_equals_def)
qed

section \<open>Concatenation, reversal and splitting\<close>

lemma map_of_nat_offs_from:
  "map (\<lambda>x. x + word_of_nat k) (map word_of_nat (offs L)) = (map word_of_nat (offs_from k L) :: byte list)"
  by (simp add: offs_from_offs [of k] add.commute)

lemma concatenate_labels:
  assumes "abs_labels A" "abs_labels B"
  shows "concatenate (mk_name A) (mk_name B) =
    (if length (wire (butlast A @ B)) > MAX_WIRE then Inl TooLongName else Inr (mk_name (butlast A @ B)))"
    and "length (wire (butlast A @ B)) \<le> MAX_WIRE \<Longrightarrow> abs_labels (butlast A @ B)"
proof -
  obtain K where K: "A = K @ [[]]" "\<forall>l \<in> set K. valid_label l"
    using assms(1) by (rule abs_labelsE)
  obtain M where M: "B = M @ [[]]" "\<forall>l \<in> set M. valid_label l"
    using assms(2) by (rule abs_labelsE)
  show abs: "abs_labels (butlast A @ B)" if "length (wire (butlast A @ B)) \<le> MAX_WIRE"
    using that K M abs_labels_snoc [of "K @ M"] by auto
  then have "length (butlast A @ B) \<le> MAX_LABELS" if "length (wire (butlast A @ B)) \<le> MAX_WIRE"
    using that abs_labels_count(2) by blast
  then show "concatenate (mk_name A) (mk_name B) =
    (if length (wire (butlast A @ B)) > MAX_WIRE then Inl TooLongName else Inr (mk_name (butlast A @ B)))"
    using K M map_of_nat_offs_from [of "length (wire K)" B]
    by (auto simp: concatenate_def Let_def mk_name_def)
qed

lemma offs_last_irrelevant: "offs_from k (M @ [x]) = offs_from k (M @ [y])"
  by simp

lemma reverse_loop_labels:
  assumes "length (wire K) < 256"
  shows "nd = wire K @ post \<Longrightarrow>
    reverse_loop nd (rev (map word_of_nat (offs (K @ [x])))) d os =
      (d @ wire (rev K), os @ map word_of_nat (tl (offs_from (length d) (rev K @ [[]]))))"
  using assms
proof (induction K arbitrary: x d os post rule: rev_induct)
  case (snoc k K)
  let ?d = "d @ wire [k]"
  have u: "unat (word_of_nat (length (wire K)) :: byte) = length (wire K)"
    "unat (word_of_nat (length (wire (K @ [k]))) :: byte) = length (wire (K @ [k]))"
    by (rule unat_of_nat_byte, use snoc.prems(2) in simp)+
  have step: "reverse_loop nd (rev (map word_of_nat (offs ((K @ [k]) @ [x])))) d os =
    reverse_loop nd (rev (map word_of_nat (offs (K @ [k])))) ?d (os @ [word_of_nat (length ?d)])"
  proof -
    have "take (length (wire (K @ [k])) - length (wire K)) (drop (length (wire K)) nd) = wire [k]"
      using snoc.prems(1) by simp
    moreover have "(rev (map word_of_nat (offs ((K @ [k]) @ [x]))) :: byte list) =
      word_of_nat (length (wire (K @ [k]))) # word_of_nat (length (wire K)) # rev (map word_of_nat (offs K))"
      by (simp add: algebra_simps)
    moreover have "(rev (map word_of_nat (offs (K @ [k]))) :: byte list) = word_of_nat (length (wire K)) # rev (map word_of_nat (offs K))"
      by simp
    ultimately show ?thesis
      by (simp only: reverse_loop.simps u Let_def)
  qed
  have IH: "reverse_loop nd (rev (map word_of_nat (offs (K @ [k])))) ?d (os @ [word_of_nat (length ?d)]) =
    (?d @ wire (rev K), (os @ [word_of_nat (length ?d)]) @ map word_of_nat (tl (offs_from (length ?d) (rev K @ [[]]))))"
    using snoc.prems by (intro snoc.IH [of "wire [k] @ post"]) auto
  obtain ofs where ofs: "offs_from (length ?d) (rev K @ [[]]) = length ?d # ofs"
    by (cases "rev K") auto
  have tl: "tl (offs_from (length d) (rev (K @ [k]) @ [[]])) = offs_from (length ?d) (rev K @ [[]])"
    by simp
  show ?case
    unfolding step IH tl ofs by simp
qed simp

lemma reverse_labels:
  assumes "abs_labels A"
  shows "Name_reverse (mk_name A) = mk_name (rev (butlast A) @ [[]])"
    and "abs_labels (rev (butlast A) @ [[]])"
proof -
  obtain K where K: "A = K @ [[]]" "\<forall>l \<in> set K. valid_label l" "length (wire K) < MAX_WIRE"
    using assms by (rule abs_labelsE)
  have len: "length (wire (rev K)) = length (wire K)"
    by (induction K) auto
  have "reverse_loop (wire A) (rev (map word_of_nat (offs (K @ [[]])))) [] [0] =
    ([] @ wire (rev K), [0] @ map word_of_nat (tl (offs_from (length ([] :: byte list)) (rev K @ [[]]))))"
    using K by (intro reverse_loop_labels [of _ _ "[0]"]) (auto simp: name_limits)
  moreover obtain os where os: "offs (rev K @ [[]]) = 0 # os"
    by (cases "rev K") auto
  ultimately show "Name_reverse (mk_name A) = mk_name (rev (butlast A) @ [[]])"
    unfolding K(1) Name_reverse_def mk_name_def using len by (simp del: offs_from_append)
  show "abs_labels (rev (butlast A) @ [[]])"
    using K len by (simp add: abs_labels_snoc)
qed

lemma rd_range_take: "i + k \<le> length xs \<Longrightarrow> rd_range xs i k = Inr (take k (drop i xs))"
  using rd_range_drop [OF append_take_drop_id [of k "drop i xs", symmetric]]
  by (simp add: le_diff_conv2 min_absorb2)

lemma split_labels:
  assumes "abs_labels L" "0 < n" "first + n \<le> length L"
  defines "M \<equiv> take n (drop first (butlast L))"
  shows "Name_split first n (mk_name L) = Inr (mk_name (M @ [[]]))" and "abs_labels (M @ [[]])"
proof -
  obtain K where K: "L = K @ [[]]" "\<forall>l \<in> set K. valid_label l" "length (wire K) < MAX_WIRE"
    using assms(1) by (rule abs_labelsE)
  let ?k = "length (wire (take first K))"
  define m where "m = (if first + n = length L then n else n + 1)"
  have first: "first \<le> length K"
    using assms(2,3) K(1) by auto
  have m: "first + m \<le> length L" "0 < m" "length M = m - 1"
    using assms(2,3) K(1) by (auto simp: m_def M_def)
  have M: "M = take (m - 1) (drop first K)"
    using assms(2,3) K(1) by (auto simp: m_def M_def)
  have dropL: "drop first L = drop first K @ [[]]"
    using first K(1) by simp
  have wM: "length (wire M) + ?k \<le> length (wire K)"
  proof -
    have "wire K = wire (take first K) @ wire M @ wire (drop (m - 1) (drop first K))"
      unfolding M by (metis append_take_drop_id wire_append)
    then show ?thesis by simp
  qed
  then have small: "?k < 256" "length (wire M) < 256"
    using K(3) by (auto simp: name_limits)
  obtain y where y: "take m (drop first L) = M @ [y]"
  proof -
    have "m - 1 < length (drop first L)"
      using m by simp
    moreover have "take (m - 1) (drop first L) = M"
      using m K(1) first by (simp add: M dropL)
    ultimately have "take m (drop first L) = M @ [drop first L ! (m - 1)]"
      using m(2) take_Suc_conv_app_nth [of "m - 1" "drop first L"] by simp
    then show ?thesis by (rule that)
  qed
  have takeL: "take first L = take first K"
    using first K(1) by simp
  have ofs: "take m (drop first (map word_of_nat (offs L))) = (map word_of_nat (offs_from ?k (M @ [y])) :: byte list)"
    using m(1) by (simp only: drop_map take_map drop_offs_from take_offs_from y takeL add_0)
  have rng: "rd_range (map word_of_nat (offs L)) first m = Inr (map word_of_nat (offs_from ?k (M @ [y])) :: byte list)"
    using m(1) ofs by (simp add: rd_range_take)
  have r1: "rd (map word_of_nat (offs L)) first = Inr (word_of_nat ?k :: byte)"
    using m offs_nth [of first L] by (simp add: rd_def takeL)
  have sub: "map (\<lambda>x. x - word_of_nat ?k) (map word_of_nat (offs_from ?k (M @ [y]))) = (map word_of_nat (offs (M @ [[]])) :: byte list)"
    using map_of_nat_offs_from [of ?k "M @ [y]"] offs_last_irrelevant [of 0 M y "[]"]
    by (simp add: offs_from_offs [of ?k] del: offs_from_append)
  have last: "unat (last (map word_of_nat (offs (M @ [[]])) :: byte list)) = length (wire M)"
    using small by (simp add: unat_of_nat_byte)
  have data: "take (length (wire M)) (drop ?k (wire L)) = wire M"
  proof -
    have "drop ?k (wire L) = wire (drop first L)"
      using drop_wire_take [of first L] by (simp add: takeL)
    also have "\<dots> = wire M @ wire (drop (m - 1) (drop first K) @ [[]])"
      unfolding dropL M by (metis append_take_drop_id append_assoc wire_append)
    finally show ?thesis by simp
  qed
  have len: "length (map word_of_nat (offs (M @ [[]])) :: byte list) = m"
    using m by simp
  have "\<not> length (wire L) < unat (word_of_nat ?k :: byte)"
    using small(1) K(1) length_wire_take_le [of first L] by (simp add: unat_of_nat_byte takeL del: length_wire_take_le)
  then show "Name_split first n (mk_name L) = Inr (mk_name (M @ [[]]))"
    using assms(2,3) rng r1 sub last data len small(1)
    by (simp add: Name_split_def m_def [symmetric] Let_def unat_of_nat_byte mk_name_def del: offs_from_append map_map)
  show "abs_labels (M @ [[]])"
    using K wM by (auto simp: abs_labels_snoc M dest!: in_set_takeD in_set_dropD)
qed

lemma split_out_of_range:
  "\<not> (0 < n \<and> first + n \<le> length L) \<Longrightarrow> Name_split first n (mk_name L) = Inl OutOfRange"
  by (auto simp: Name_split_def)

section \<open>Case conversion and wildcards\<close>

lemma downcase_chars_map:
  "downcase_chars (pre @ a @ post) (length pre) (length a) = Inr (pre @ map maptolower a @ post)"
proof (induction a arbitrary: pre)
  case (Cons x a)
  then show ?case
    using Cons.IH [of "pre @ [maptolower x]"] by simp
qed simp

lemma downcase_loop_labels:
  "\<forall>l \<in> set A. length l \<le> MAX_LABELLEN \<Longrightarrow>
   downcase_loop (pre @ wire A) (length pre) (length (wire A)) (length A) = Inr (pre @ wire (map (map maptolower) A))"
proof (induction A arbitrary: pre)
  case (Cons a A)
  let ?c = "word_of_nat (length a) :: byte"
  have u: "unat ?c = length a"
    using Cons.prems by (intro unat_of_nat_byte) (auto simp: name_limits)
  show ?case
    using Cons.prems u downcase_chars_map [of "pre @ [?c]" a "wire A"]
      Cons.IH [of "pre @ [?c] @ map maptolower a"]
    by (simp add: Let_def)
qed simp

lemma downcase_labels:
  assumes "abs_labels A"
  shows "downcase (mk_name A) = Inr (mk_name (map (map maptolower) A))"
    and "abs_labels (map (map maptolower) A)"
proof -
  have wireq: "length (wire (map (map maptolower) B)) = length (wire B)" for B
    by (induction B) auto
  moreover have "offs_from k (map (map maptolower) B) = offs_from k B" for k B
    by (induction B arbitrary: k) auto
  ultimately show "downcase (mk_name A) = Inr (mk_name (map (map maptolower) A))"
    using downcase_loop_labels [of A "[]"] abs_labels_lengths(1) [OF assms]
    by (simp add: downcase_def mk_name_def)
  show "abs_labels (map (map maptolower) A)"
    using assms wireq by (auto simp: abs_labels_def valid_label_def last_map simp flip: map_butlast)
qed

lemma isWildcard_labels:
  assumes "abs_labels A"
  shows "isWildcard (mk_name A) = Inr (hd A = [0x2a])"
proof -
  obtain K where K: "A = K @ [[]]" "\<forall>l \<in> set K. valid_label l"
    using assms by (rule abs_labelsE)
  show ?thesis
  proof (cases K)
    case Nil
    then show ?thesis using K by (simp add: isWildcard_def)
  next
    case (Cons l K')
    then obtain c l' where l: "l = c # l'" "length l' < 63"
      using K(2) by (cases l) (auto simp: valid_label_def name_limits)
    have "(1 + word_of_nat (length l') :: byte) = 1 \<longleftrightarrow> l' = []"
      using l(2) word_of_nat_byte_eq_0 [of "length l'"] by simp
    then show ?thesis
      using K Cons l by (auto simp: isWildcard_def rd_def)
  qed
qed

end
