(* ===== verification/Dns_NameText.thy ===== *)
theory Dns_NameText
  imports Dns_NameOps
begin

text \<open>
  Text of names: what \<^verbatim>\<open>toText\<close> prints for a well-formed name, and that the parser of
  \<open>Dns_Name\<close> reads it back.
\<close>

section \<open>What toText prints\<close>

definition label_text :: "label \<Rightarrow> byte list" where
  "label_text l = concat (map escape_char l)"

definition dotted_tail :: "label list \<Rightarrow> byte list" where
  "dotted_tail K = concat (map (\<lambda>l. 0x2e # label_text l) K)"

definition text_spec :: "bool \<Rightarrow> label list \<Rightarrow> byte list" where
  "text_spec omit K =
     (case K of [] \<Rightarrow> [0x2e] | l # K' \<Rightarrow> label_text l @ dotted_tail K' @ (if omit then [] else [0x2e]))"

lemma escape_char_nonempty [simp]: "escape_char c \<noteq> []"
  by (simp add: escape_char_def)

lemma label_text_nonempty: "valid_label l \<Longrightarrow> label_text l \<noteq> []"
  by (cases l) (auto simp: label_text_def valid_label_def)

lemma valid_label_byte:
  assumes "valid_label l"
  shows "unat (word_of_nat (length l) :: byte) = length l" "(word_of_nat (length l) :: byte) \<noteq> 0"
  using assms word_of_nat_byte_eq_0 [of "length l"]
  by (auto simp: valid_label_def name_limits intro!: unat_of_nat_byte)

lemma toText_loop_tail:
  "\<forall>l \<in> set K. valid_label l \<Longrightarrow> result \<noteq> [] \<Longrightarrow>
   toText_loop omit (wire (K @ [[]])) (int (length K + 1)) result =
     Inr ([], 0, result @ dotted_tail K @ (if omit then [] else [0x2e]))"
proof (induction K arbitrary: result)
  case (Cons l K)
  then show ?case
    using valid_label_byte [of l] label_text_nonempty [of l] Cons.IH [of "result @ 0x2e # label_text l"]
    by (simp add: valid_label_def dotted_tail_def label_text_def)
qed (simp add: dotted_tail_def)

lemma toText_loop_labels:
  assumes "\<forall>l \<in> set K. valid_label l"
  shows "toText_loop omit (wire (K @ [[]])) (int (length K + 1)) [] = Inr ([], 0, text_spec omit K)"
proof (cases K)
  case (Cons l K')
  then have "toText_loop omit (wire (K @ [[]])) (int (length K + 1)) [] =
    toText_loop omit (wire (K' @ [[]])) (int (length K' + 1)) (label_text l)"
    using assms valid_label_byte [of l] by (simp add: valid_label_def label_text_def)
  then show ?thesis
    using assms Cons toText_loop_tail [of K' "label_text l" omit] label_text_nonempty [of l]
    by (simp add: text_spec_def)
qed (simp add: text_spec_def)

lemma Name_toText_spec:
  assumes "abs_labels L"
  shows "Name_toText_bytes omit (mk_name L) = Inr (text_spec omit (butlast L))"
proof -
  obtain K where K: "L = K @ [[]]" "\<forall>l \<in> set K. valid_label l"
    using assms by (rule abs_labelsE)
  obtain post where d: "getData (LabelSequence (mk_name L)) = Inr (wire L @ post, length (wire L))"
    by (rule ls_rep_getData [OF ls_rep_LabelSequence [OF assms]])
  have "rd_range (wire L @ post) 0 (length (wire L)) = Inr (wire L)"
    by (rule rd_range_drop [where zs = post]) simp
  then show ?thesis
    using K d toText_loop_labels [OF K(2), of omit] ls_rep_count [OF ls_rep_LabelSequence [OF assms]]
    by (simp add: Name_toText_bytes_def ls_toText_omit_def add.commute)
qed

section \<open>Reading an escaped character\<close>

text \<open>The parser is inside the label \<open>cur\<close>, after the complete labels \<open>K\<close>.\<close>

definition inside :: "label list \<Rightarrow> label \<Rightarrow> parser \<Rightarrow> bool" where
  "inside K cur p \<longleftrightarrow> p_state p = ft_ordinary \<and> \<not> p_done p \<and> p_count p = length cur \<and>
     p_ndata p = wire K @ 0 # cur \<and> p_offsets p = map word_of_nat (offs (K @ [[]]))"

text \<open>The parser is at the beginning of a label.\<close>

definition at_label :: "label list \<Rightarrow> parser \<Rightarrow> bool" where
  "at_label K p \<longleftrightarrow> p_state p = (if K = [] then ft_init else ft_start) \<and> \<not> p_done p \<and>
     p_ndata p = wire K \<and> p_offsets p = map word_of_nat (offs (K @ [[]]))"

lemma digit_char:
  assumes "k < 10"
  shows "isdigit (0x30 + word_of_nat k)" "digitvalue (0x30 + word_of_nat k) = Some k"
proof -
  have u: "unat (0x30 + word_of_nat k :: byte) = 48 + k"
    using assms by (simp add: unat_word_ariths unat_of_nat_byte)
  then show "isdigit (0x30 + word_of_nat k)" "digitvalue (0x30 + word_of_nat k) = Some k"
    using assms by (simp_all add: isdigit_def digitvalue_def word_le_nat_alt)
qed

lemma escape_char_decimal:
  assumes "b \<notin> {0x22, 0x28, 0x29, 0x2e, 0x3b, 0x5c, 0x40, 0x24}" "\<not> (0x20 < b \<and> b < 0x7f)"
  shows "escape_char b = [0x5c, 0x30 + word_of_nat (unat b div 100), 0x30 + word_of_nat ((unat b div 10) mod 10),
    0x30 + word_of_nat (unat b mod 10)]"
proof -
  have "unat b div 100 < 10"
    using unat_byte_less [of b] by linarith
  then have "(b div 100) mod 10 = word_of_nat (unat b div 100)" "(b div 10) mod 10 = word_of_nat ((unat b div 10) mod 10)"
    "b mod 10 = word_of_nat (unat b mod 10)"
    using unat_byte_less [of b] by (simp_all add: word_unat_eq_iff unat_div unat_mod unat_of_nat_byte)
  then show ?thesis
    using assms by (simp add: escape_char_def)
qed

lemma decimal_value: "((n div 100) * 10 + (n div 10) mod 10) * 10 + n mod 10 = (n :: nat)"
proof -
  have "n div 100 = n div 10 div 10"
    by (simp add: div_mult2_eq [symmetric])
  then show ?thesis
    by simp
qed

text \<open>The decimal escape, from the backslash state on.\<close>

lemma parse_decimal:
  assumes "p_state p = ft_escape \<or> p_state p = ft_initialescape" "\<not> p_done p" "length (p_ndata p) < MAX_WIRE"
    and "p_count p < MAX_LABELLEN" "n < 256"
  shows "\<exists>p'. parse_loop dc ((0x30 + word_of_nat (n div 100)) # (0x30 + word_of_nat ((n div 10) mod 10)) #
      (0x30 + word_of_nat (n mod 10)) # s) p = parse_loop dc s p' \<and>
    p_state p' = ft_ordinary \<and> \<not> p_done p' \<and> p_count p' = Suc (p_count p) \<and>
    p_ndata p' = p_ndata p @ [downcase_char dc (word_of_nat n)] \<and> p_offsets p' = p_offsets p"
proof -
  let ?d1 = "0x30 + word_of_nat (n div 100) :: byte" and ?d2 = "0x30 + word_of_nat ((n div 10) mod 10) :: byte"
    and ?d3 = "0x30 + word_of_nat (n mod 10) :: byte"
  have d: "isdigit ?d1" "digitvalue ?d1 = Some (n div 100)" "isdigit ?d2" "digitvalue ?d2 = Some ((n div 10) mod 10)"
    "isdigit ?d3" "digitvalue ?d3 = Some (n mod 10)"
    using assms(5) by (intro digit_char; simp)+
  then have "?d1 \<noteq> 0x5b"
    by (auto simp: isdigit_def)
  define q1 where "q1 = p\<lparr>p_digits := 1, p_value := n div 100, p_state := ft_escdecimal\<rparr>"
  have s1: "parse_step dc e ?d1 p = Inr q1" for e
    using assms(1) d \<open>?d1 \<noteq> 0x5b\<close>
    by (auto simp: parse_step_def case_initialescape_def case_escape_def case_escdecimal_def q1_def Let_def)
  define q2 where "q2 = q1\<lparr>p_digits := 2, p_value := (n div 100) * 10 + (n div 10) mod 10\<rparr>"
  have s2: "parse_step dc e ?d2 q1 = Inr q2" for e
    using d by (simp add: parse_step_def case_escdecimal_def q1_def q2_def Let_def)
  define q3 where "q3 = q2\<lparr>p_digits := 3, p_value := n, p_count := Suc (p_count p),
    p_ndata := p_ndata p @ [downcase_char dc (word_of_nat n)], p_state := ft_ordinary\<rparr>"
  have s3: "parse_step dc e ?d3 q2 = Inr q3" for e
    using d assms(4,5) decimal_value [of n]
    by (simp add: parse_step_def case_escdecimal_def q1_def q2_def q3_def Let_def push_char_def)
  have "parse_loop dc (?d1 # ?d2 # ?d3 # s) p = parse_loop dc s q3"
    using assms(2,3) s1 s2 s3 by (simp add: q1_def q2_def)
  then show ?thesis
    using assms(2) by (intro exI [of _ q3]) (simp add: q1_def q2_def q3_def)
qed

text \<open>An escaped character that is not a digit.\<close>

lemma parse_escaped_char:
  assumes "p_state p = ft_escape \<or> p_state p = ft_initialescape" "\<not> p_done p" "length (p_ndata p) < MAX_WIRE"
    and "p_count p < MAX_LABELLEN" "\<not> isdigit b" "b \<noteq> 0x5b"
  shows "parse_loop dc (b # s) p =
    parse_loop dc s (p\<lparr>p_count := Suc (p_count p), p_ndata := p_ndata p @ [downcase_char dc b], p_state := ft_ordinary\<rparr>)"
  using assms
  by (auto simp: parse_step_def case_initialescape_def case_escape_def push_char_def Let_def)

lemma parse_inside:
  assumes "inside K cur p" "length cur < MAX_LABELLEN" "length (wire K) + 1 + length cur < MAX_WIRE"
  shows "\<exists>p'. parse_loop dc (escape_char b @ s) p = parse_loop dc s p' \<and> inside K (cur @ [downcase_char dc b]) p'"
proof -
  let ?special = "{0x22, 0x28, 0x29, 0x2e, 0x3b, 0x5c, 0x40, 0x24} :: byte set"
  let ?q = "p\<lparr>p_state := ft_escape\<rparr>"
  have p: "p_state p = ft_ordinary" "\<not> p_done p" "length (p_ndata p) < MAX_WIRE" "p_count p = length cur"
    using assms by (auto simp: inside_def)
  have bs: "parse_loop dc (0x5c # t) p = parse_loop dc t ?q" for t
    using p by (simp add: parse_step_def case_ordinary_def)
  have q: "p_state ?q = ft_escape \<or> p_state ?q = ft_initialescape" "\<not> p_done ?q" "length (p_ndata ?q) < MAX_WIRE"
    "p_count ?q < MAX_LABELLEN"
    using p assms(2) by simp_all
  consider (special) "b \<in> ?special" | (plain) "b \<notin> ?special" "0x20 < b \<and> b < 0x7f"
    | (decimal) "b \<notin> ?special" "\<not> (0x20 < b \<and> b < 0x7f)"
    by blast
  then show ?thesis
  proof cases
    case special
    then have "\<not> isdigit b" "b \<noteq> 0x5b"
      by (auto simp: isdigit_def)
    then show ?thesis
      using special bs parse_escaped_char [OF q] assms(1)
      by (auto simp: escape_char_def inside_def)
  next
    case plain
    then have "escape_char b = [b]" "b \<noteq> 0x2e" "b \<noteq> 0x5c"
      by (auto simp: escape_char_def)
    then show ?thesis
      using p assms by (auto simp: parse_step_def case_ordinary_def push_char_def Let_def inside_def)
  next
    case decimal
    show ?thesis
      using parse_decimal [OF q unat_byte_less, of dc b s] bs assms(1)
      by (auto simp: escape_char_decimal [OF decimal] inside_def)
  qed
qed

lemma parse_at_label:
  assumes "at_label K p" "length (wire K) + 2 \<le> MAX_WIRE"
  shows "\<exists>p'. parse_loop dc (escape_char b @ s) p = parse_loop dc s p' \<and> inside K [downcase_char dc b] p'"
proof -
  let ?special = "{0x22, 0x28, 0x29, 0x2e, 0x3b, 0x5c, 0x40, 0x24} :: byte set"
  let ?q = "p\<lparr>p_ndata := wire K @ [0], p_count := 0, p_state := ft_initialescape\<rparr>"
  have p: "\<not> p_done p" "length (p_ndata p) < MAX_WIRE" "p_ndata p = wire K"
    using assms by (auto simp: at_label_def)
  have bs: "parse_loop dc (0x5c # t) p = parse_loop dc t ?q" for t
    using p assms(1) by (auto simp: at_label_def parse_step_def case_init_def case_start_def Let_def)
  have q: "p_state ?q = ft_escape \<or> p_state ?q = ft_initialescape" "\<not> p_done ?q" "length (p_ndata ?q) < MAX_WIRE"
    "p_count ?q < MAX_LABELLEN"
    using p assms(2) by (simp_all add: name_limits)
  consider (special) "b \<in> ?special" | (plain) "b \<notin> ?special" "0x20 < b \<and> b < 0x7f"
    | (decimal) "b \<notin> ?special" "\<not> (0x20 < b \<and> b < 0x7f)"
    by blast
  then show ?thesis
  proof cases
    case special
    then have "\<not> isdigit b" "b \<noteq> 0x5b"
      by (auto simp: isdigit_def)
    then show ?thesis
      using special bs parse_escaped_char [OF q] assms(1)
      by (auto simp: escape_char_def inside_def at_label_def)
  next
    case plain
    then have "escape_char b = [b]" "b \<noteq> 0x2e" "b \<noteq> 0x5c" "b \<noteq> 0x40"
      by (auto simp: escape_char_def)
    then show ?thesis
      using p assms
      by (auto simp: parse_step_def case_init_def case_start_def case_ordinary_def push_char_def Let_def inside_def
          at_label_def name_limits)
  next
    case decimal
    show ?thesis
      using parse_decimal [OF q unat_byte_less, of dc b s] bs assms(1)
      by (auto simp: escape_char_decimal [OF decimal] inside_def at_label_def)
  qed
qed

section \<open>Reading a whole name\<close>

lemma parse_label_rest:
  assumes "inside K cur p" "length cur + length l \<le> MAX_LABELLEN" "length (wire K) + 1 + length cur + length l \<le> MAX_WIRE"
  shows "\<exists>p'. parse_loop dc (label_text l @ s) p = parse_loop dc s p' \<and> inside K (cur @ map (downcase_char dc) l) p'"
  using assms
proof (induction l arbitrary: cur p)
  case (Cons b l)
  obtain p1 where p1: "parse_loop dc (escape_char b @ label_text l @ s) p = parse_loop dc (label_text l @ s) p1"
    "inside K (cur @ [downcase_char dc b]) p1"
    using parse_inside [OF Cons.prems(1), of dc b "label_text l @ s"] Cons.prems by auto
  obtain p2 where "parse_loop dc (label_text l @ s) p1 = parse_loop dc s p2"
    "inside K ((cur @ [downcase_char dc b]) @ map (downcase_char dc) l) p2"
    using Cons.IH [OF p1(2)] Cons.prems by auto
  then show ?case
    using p1 by (auto simp: label_text_def)
qed (auto simp: label_text_def)

lemma parse_label:
  assumes "at_label K p" "valid_label l" "length (wire K) + 1 + length l \<le> MAX_WIRE"
  shows "\<exists>p'. parse_loop dc (label_text l @ s) p = parse_loop dc s p' \<and> inside K (map (downcase_char dc) l) p'"
proof -
  obtain b l' where l: "l = b # l'"
    using assms(2) by (cases l) (auto simp: valid_label_def)
  obtain p1 where p1: "parse_loop dc (escape_char b @ label_text l' @ s) p = parse_loop dc (label_text l' @ s) p1"
    "inside K [downcase_char dc b] p1"
    using parse_at_label [OF assms(1), of dc b "label_text l' @ s"] assms l by auto
  obtain p2 where "parse_loop dc (label_text l' @ s) p1 = parse_loop dc s p2"
    "inside K ([downcase_char dc b] @ map (downcase_char dc) l') p2"
    using parse_label_rest [OF p1(2), of l' dc s] assms l by (auto simp: valid_label_def)
  then show ?thesis
    using p1 by (auto simp: label_text_def l)
qed

lemma parse_dot:
  assumes "inside K cur p" "valid_label cur" "length (wire K) + 1 + length cur < MAX_WIRE"
  shows "\<exists>p'. parse_loop dc (0x2e # s) p = parse_loop dc s p' \<and> p_offsets p' = map word_of_nat (offs (K @ [cur, []])) \<and>
    (if s = [] then p_done p' \<and> p_ndata p' = wire (K @ [cur, []]) else at_label (K @ [cur]) p')"
proof -
  have "set_label_length p = Inr (p\<lparr>p_ndata := wire (K @ [cur])\<rparr>)"
    using assms by (intro set_label_length_pending) (auto simp: inside_def)
  then show ?thesis
    using assms by (auto simp: inside_def parse_step_def case_ordinary_def Let_def at_label_def valid_label_def)
qed

lemma length_wire_map_map [simp]: "length (wire (map (map f) K)) = length (wire K)"
  by (induction K) auto

lemma valid_label_map [simp]: "valid_label (map f l) \<longleftrightarrow> valid_label l"
  by (simp add: valid_label_def)

lemma parse_labels:
  assumes "at_label K p" "\<forall>l \<in> set (l # M). valid_label l" "length (wire (K @ l # M)) < MAX_WIRE"
  shows "\<exists>q. bindS (parse_loop dc (label_text l @ dotted_tail M @ (if omit then [] else [0x2e])) p) parse_finish = Inr q \<and>
    p_ndata q = wire (K @ map (map (downcase_char dc)) (l # M) @ [[]]) \<and>
    p_offsets q = map word_of_nat (offs (K @ map (map (downcase_char dc)) (l # M) @ [[]]))"
  using assms
proof (induction M arbitrary: K l p)
  case Nil
  let ?cur = "map (downcase_char dc) l"
  obtain p1 where p1: "parse_loop dc (label_text l @ (if omit then [] else [0x2e])) p =
      parse_loop dc (if omit then [] else [0x2e]) p1" "inside K ?cur p1"
    using parse_label [OF Nil.prems(1), of l dc "if omit then [] else [0x2e]"] Nil.prems by auto
  have pre: "valid_label ?cur" "length (wire K) + 1 + length ?cur < MAX_WIRE"
    using Nil.prems by auto
  have "set_label_length p1 = Inr (p1\<lparr>p_ndata := wire (K @ [?cur])\<rparr>)"
    using p1(2) pre by (intro set_label_length_pending) (auto simp: inside_def)
  moreover obtain p2 where "parse_loop dc [0x2e] p1 = Inr (p2, [])" "p_done p2" "p_ndata p2 = wire (K @ [?cur, []])"
    "p_offsets p2 = map word_of_nat (offs (K @ [?cur, []]))"
    using parse_dot [OF p1(2) pre, of dc "[]"] by auto
  ultimately show ?case
    using p1 pre
    by (cases omit) (auto simp: dotted_tail_def parse_finish_def inside_def valid_label_def Let_def)
next
  case (Cons m M)
  let ?cur = "map (downcase_char dc) l" and ?s = "label_text m @ dotted_tail M @ (if omit then [] else [0x2e])"
  obtain p1 where p1: "parse_loop dc (label_text l @ 0x2e # ?s) p = parse_loop dc (0x2e # ?s) p1" "inside K ?cur p1"
    using parse_label [OF Cons.prems(1), of l dc "0x2e # ?s"] Cons.prems by auto
  have "valid_label ?cur" "length (wire K) + 1 + length ?cur < MAX_WIRE" "?s \<noteq> []"
    using Cons.prems label_text_nonempty [of m] by auto
  then obtain p2 where p2: "parse_loop dc (0x2e # ?s) p1 = parse_loop dc ?s p2" "at_label (K @ [?cur]) p2"
    using parse_dot [OF p1(2), of dc ?s] by auto
  obtain q where "bindS (parse_loop dc ?s p2) parse_finish = Inr q"
    "p_ndata q = wire ((K @ [?cur]) @ map (map (downcase_char dc)) (m # M) @ [[]])"
    "p_offsets q = map word_of_nat (offs ((K @ [?cur]) @ map (map (downcase_char dc)) (m # M) @ [[]]))"
    using Cons.IH [OF p2(2), of m] Cons.prems by auto
  moreover have "dotted_tail (m # M) @ (if omit then [] else [0x2e]) = 0x2e # ?s"
    by (simp add: dotted_tail_def)
  ultimately show ?case
    using p1(1) p2(1) by (intro exI [of _ q]) simp
qed

lemma abs_labels_map_map: "abs_labels L \<Longrightarrow> abs_labels (map (map f) L)"
  by (auto simp: abs_labels_def last_map simp flip: map_butlast)

lemma Name_bytes_text_spec:
  assumes "abs_labels L"
  shows "Name_bytes (text_spec omit (butlast L)) dc = Inr (mk_name (map (map (downcase_char dc)) L))"
proof -
  obtain K where K: "L = K @ [[]]" "\<forall>l \<in> set K. valid_label l" "length (wire K) < MAX_WIRE"
    using assms by (rule abs_labelsE)
  let ?L = "map (map (downcase_char dc)) L"
  have "\<exists>q. stringParse dc (text_spec omit K) = Inr q \<and> p_ndata q = wire ?L \<and> p_offsets q = map word_of_nat (offs ?L)"
  proof (cases K)
    case Nil
    then show ?thesis
      using K(1) by (simp add: text_spec_def stringParse_def parser_init_def parse_step_def case_init_def parse_finish_def name_limits)
  next
    case (Cons l M)
    have "at_label [] parser_init"
      by (simp add: at_label_def parser_init_def)
    then show ?thesis
      using parse_labels [of "[]" parser_init l M dc omit] Cons K by (simp add: text_spec_def stringParse_def)
  qed
  then show ?thesis
    using K(1) name_of_parser_labels [OF abs_labels_map_map [OF assms]] by (auto simp: Name_bytes_def)
qed

lemma Name_text_toText:
  assumes "wf_name n" "Name_toText omit n = Inr t"
  shows "Name_text t dc = Inr (mk_name (map (map (downcase_char dc)) (labels_of n)))"
proof -
  obtain L where L: "abs_labels L" "n = mk_name L" "labels_of n = L"
    using assms(1) by (rule wf_nameE)
  have "t = map char_of_byte (text_spec omit (butlast L))"
    using assms(2) L by (simp add: Name_toText_def Name_toText_spec)
  then show ?thesis
    using L Name_bytes_text_spec [OF L(1), of omit dc] by (simp add: Name_text_def comp_def)
qed

section \<open>Texts that reach the assertion in the parser\<close>

lemma parse_labels_start:
  assumes "at_label K p" "\<forall>l \<in> set (l # M). valid_label l" "length (wire (K @ l # M)) < MAX_WIRE" "s \<noteq> []"
  shows "\<exists>q. parse_loop dc (label_text l @ dotted_tail M @ 0x2e # s) p = parse_loop dc s q \<and>
    at_label (K @ map (map (downcase_char dc)) (l # M)) q"
  using assms
proof (induction M arbitrary: K l p)
  case Nil
  obtain p1 where p1: "parse_loop dc (label_text l @ 0x2e # s) p = parse_loop dc (0x2e # s) p1" "inside K (map (downcase_char dc) l) p1"
    using parse_label [OF Nil.prems(1), of l dc "0x2e # s"] Nil.prems by auto
  then show ?case
    using parse_dot [OF p1(2), of dc s] Nil.prems by (auto simp: dotted_tail_def)
next
  case (Cons m M)
  let ?cur = "map (downcase_char dc) l" and ?s = "label_text m @ dotted_tail M @ 0x2e # s"
  obtain p1 where p1: "parse_loop dc (label_text l @ 0x2e # ?s) p = parse_loop dc (0x2e # ?s) p1" "inside K ?cur p1"
    using parse_label [OF Cons.prems(1), of l dc "0x2e # ?s"] Cons.prems by auto
  then obtain p2 where p2: "parse_loop dc (0x2e # ?s) p1 = parse_loop dc ?s p2" "at_label (K @ [?cur]) p2"
    using parse_dot [OF p1(2), of dc ?s] Cons.prems by auto
  then show ?case
    using Cons.IH [OF p2(2), of m] Cons.prems p1(1) by (auto simp: dotted_tail_def)
qed

lemma Name_bytes_abort:
  assumes "\<forall>l \<in> set K. valid_label l" "length (wire K) = MAX_WIRE - 1" "c \<noteq> 0x5c"
  shows "Name_bytes (text_spec False K @ c # t) dc = Inl AssertionFailure"
proof -
  obtain l M where K: "K = l # M"
    using assms(2) by (cases K) (auto simp: name_limits)
  obtain q where q: "parse_loop dc (text_spec False K @ c # t) parser_init = parse_loop dc (c # t) q"
    "at_label (map (map (downcase_char dc)) K) q"
    using parse_labels_start [of "[]" parser_init l M "c # t" dc] assms K
    by (auto simp: text_spec_def at_label_def parser_init_def name_limits)
  then show ?thesis
    using assms K by (simp add: Name_bytes_def stringParse_def at_label_def parse_step_def case_start_def Let_def)
qed

end
