(* ===== verification/Util_Buffer.thy ===== *)
theory Util_Buffer
  imports Bundy_Prelude
begin

text \<open>
  The buffers of \<^verbatim>\<open>src/lib/util/buffer.h\<close>.  \<^verbatim>\<open>InputBuffer\<close> is the array it was made on
  with the current position; \<^verbatim>\<open>OutputBuffer\<close> is its allocated block, whose octets are
  \<open>None\<close> until they are written, with the number of octets in use.  Allocation is taken
  to succeed: \<^verbatim>\<open>std::bad_alloc\<close> is not an outcome of the model.
\<close>

unbundle bit_operations_syntax

section \<open>InputBuffer\<close>

record input_buffer =
  ib_data :: "byte list"
  ib_position :: nat

definition InputBuffer :: "byte list \<Rightarrow> input_buffer" where
  "InputBuffer data = \<lparr>ib_data = data, ib_position = 0\<rparr>"

definition ib_getLength :: "input_buffer \<Rightarrow> nat" where
  "ib_getLength b = length (ib_data b)"

definition ib_getPosition :: "input_buffer \<Rightarrow> nat" where
  "ib_getPosition b = ib_position b"

definition setPosition :: "nat \<Rightarrow> (input_buffer, bundy_exn, unit) exec" where
  "setPosition pos b =
     (if pos > length (ib_data b) then raise InvalidBufferPosition b
      else (Inr (), b\<lparr>ib_position := pos\<rparr>))"

definition readUint8 :: "(input_buffer, bundy_exn, byte) exec" where
  "readUint8 b =
     (if ib_position b + 1 > length (ib_data b) then raise InvalidBufferPosition b
      else (Inr (ib_data b ! ib_position b), b\<lparr>ib_position := ib_position b + 1\<rparr>))"

definition readUint16 :: "(input_buffer, bundy_exn, 16 word) exec" where
  "readUint16 b =
     (if ib_position b + 2 > length (ib_data b) then raise InvalidBufferPosition b
      else (let cp = drop (ib_position b) (ib_data b);
                d = push_bit 8 (ucast (cp ! 0)) OR ucast (cp ! 1)
            in (Inr d, b\<lparr>ib_position := ib_position b + 2\<rparr>)))"

definition readUint32 :: "(input_buffer, bundy_exn, 32 word) exec" where
  "readUint32 b =
     (if ib_position b + 4 > length (ib_data b) then raise InvalidBufferPosition b
      else (let cp = drop (ib_position b) (ib_data b);
                d = push_bit 24 (ucast (cp ! 0)) OR push_bit 16 (ucast (cp ! 1))
                    OR push_bit 8 (ucast (cp ! 2)) OR ucast (cp ! 3)
            in (Inr d, b\<lparr>ib_position := ib_position b + 4\<rparr>)))"

definition readData :: "nat \<Rightarrow> (input_buffer, bundy_exn, byte list) exec" where
  "readData len b =
     (if ib_position b + len > length (ib_data b) then raise InvalidBufferPosition b
      else (Inr (take len (drop (ib_position b) (ib_data b))), b\<lparr>ib_position := ib_position b + len\<rparr>))"

definition readVector :: "nat \<Rightarrow> (input_buffer, bundy_exn, byte list) exec" where
  "readVector len b =
     (if ib_position b + len > length (ib_data b) then raise InvalidBufferPosition b else readData len b)"

section \<open>OutputBuffer\<close>

record output_buffer =
  ob_buffer :: "byte option list"
  ob_size :: nat

definition OutputBuffer :: "nat \<Rightarrow> output_buffer" where
  "OutputBuffer len = \<lparr>ob_buffer = replicate len None, ob_size = 0\<rparr>"

definition getCapacity :: "output_buffer \<Rightarrow> nat" where
  "getCapacity b = length (ob_buffer b)"

definition ob_getLength :: "output_buffer \<Rightarrow> nat" where
  "ob_getLength b = ob_size b"

text \<open>The copy constructor copies the octets in use into a new block of the same capacity.\<close>

definition OutputBuffer_copy :: "output_buffer \<Rightarrow> output_buffer" where
  "OutputBuffer_copy other =
     \<lparr>ob_buffer = take (ob_size other) (ob_buffer other) @ replicate (getCapacity other - ob_size other) None,
      ob_size = ob_size other\<rparr>"

definition ob_at :: "nat \<Rightarrow> output_buffer \<Rightarrow> bundy_exn + byte" where
  "ob_at pos b =
     (if \<not> pos < ob_size b then Inl AssertionFailure
      else case ob_buffer b ! pos of None \<Rightarrow> Inl UndefinedRead | Some x \<Rightarrow> Inr x)"

text \<open>The doubling loop of \<^verbatim>\<open>ensureAllocated\<close>.\<close>

function grow :: "nat \<Rightarrow> nat \<Rightarrow> nat" where
  "grow new_size needed = (if 0 < new_size \<and> new_size < needed then grow (new_size * 2) needed else new_size)"
  by pat_completeness auto
termination
  by (relation "measure (\<lambda>(n, k). k - n)") auto

declare grow.simps [simp del]

definition ensureAllocated :: "nat \<Rightarrow> output_buffer \<Rightarrow> output_buffer" where
  "ensureAllocated needed b =
     (if getCapacity b < needed
      then (let new_size = grow (if getCapacity b = 0 then 1024 else getCapacity b) needed
            in b\<lparr>ob_buffer := ob_buffer b @ replicate (new_size - getCapacity b) None\<rparr>)
      else b)"

definition ob_skip :: "nat \<Rightarrow> output_buffer \<Rightarrow> output_buffer" where
  "ob_skip len b = (let b' = ensureAllocated (ob_size b + len) b in b'\<lparr>ob_size := ob_size b' + len\<rparr>)"

definition ob_trim :: "nat \<Rightarrow> (output_buffer, bundy_exn, unit) exec" where
  "ob_trim len b = (if len > ob_size b then raise OutOfRange b else (Inr (), b\<lparr>ob_size := ob_size b - len\<rparr>))"

definition ob_clear :: "output_buffer \<Rightarrow> output_buffer" where
  "ob_clear b = b\<lparr>ob_size := 0\<rparr>"

text \<open>\<^verbatim>\<open>buffer_[size_ ++] = data\<close>\<close>

definition put :: "byte \<Rightarrow> output_buffer \<Rightarrow> output_buffer" where
  "put x b = b\<lparr>ob_buffer := (ob_buffer b)[ob_size b := Some x], ob_size := ob_size b + 1\<rparr>"

definition poke :: "nat \<Rightarrow> byte \<Rightarrow> output_buffer \<Rightarrow> output_buffer" where
  "poke pos x b = b\<lparr>ob_buffer := (ob_buffer b)[pos := Some x]\<rparr>"

definition writeUint8 :: "byte \<Rightarrow> output_buffer \<Rightarrow> output_buffer" where
  "writeUint8 data b = put data (ensureAllocated (ob_size b + 1) b)"

definition writeUint8At :: "byte \<Rightarrow> nat \<Rightarrow> (output_buffer, bundy_exn, unit) exec" where
  "writeUint8At data pos b =
     (if pos + 1 > ob_size b then raise InvalidBufferPosition b else (Inr (), poke pos data b))"

definition writeUint16 :: "16 word \<Rightarrow> output_buffer \<Rightarrow> output_buffer" where
  "writeUint16 data b =
     put (ucast (data AND 0x00ff)) (put (ucast (drop_bit 8 (data AND 0xff00))) (ensureAllocated (ob_size b + 2) b))"

definition writeUint16At :: "16 word \<Rightarrow> nat \<Rightarrow> (output_buffer, bundy_exn, unit) exec" where
  "writeUint16At data pos b =
     (if pos + 2 > ob_size b then raise InvalidBufferPosition b
      else (Inr (), poke (pos + 1) (ucast (data AND 0x00ff)) (poke pos (ucast (drop_bit 8 (data AND 0xff00))) b)))"

definition writeUint32 :: "32 word \<Rightarrow> output_buffer \<Rightarrow> output_buffer" where
  "writeUint32 data b =
     put (ucast (data AND 0x000000ff)) (put (ucast (drop_bit 8 (data AND 0x0000ff00)))
       (put (ucast (drop_bit 16 (data AND 0x00ff0000))) (put (ucast (drop_bit 24 (data AND 0xff000000)))
         (ensureAllocated (ob_size b + 4) b))))"

definition writeData :: "byte list \<Rightarrow> output_buffer \<Rightarrow> output_buffer" where
  "writeData data b =
     (let b' = ensureAllocated (ob_size b + length data) b
      in b'\<lparr>ob_buffer := take (ob_size b') (ob_buffer b') @ map Some data @ drop (ob_size b' + length data) (ob_buffer b'),
            ob_size := ob_size b' + length data\<rparr>)"

section \<open>The contents of an output buffer\<close>

definition wf_ob :: "output_buffer \<Rightarrow> bool" where
  "wf_ob b \<longleftrightarrow> ob_size b \<le> getCapacity b"

definition ob_contents :: "output_buffer \<Rightarrow> byte option list" where
  "ob_contents b = take (ob_size b) (ob_buffer b)"

lemma grow_ge: "0 < n \<Longrightarrow> needed \<le> grow n needed \<and> n \<le> grow n needed"
proof (induction n needed rule: grow.induct)
  case (1 n k)
  then show ?case
    by (subst (1 2) grow.simps) auto
qed

lemma ensureAllocated:
  "needed \<le> getCapacity (ensureAllocated needed b)" "ob_size (ensureAllocated needed b) = ob_size b"
  "wf_ob b \<Longrightarrow> ob_contents (ensureAllocated needed b) = ob_contents b"
  "wf_ob b \<Longrightarrow> wf_ob (ensureAllocated needed b)"
  using grow_ge [of "if getCapacity b = 0 then 1024 else getCapacity b" needed]
  by (auto simp: ensureAllocated_def getCapacity_def Let_def ob_contents_def wf_ob_def)

lemma put:
  "ob_size b < getCapacity b \<Longrightarrow> ob_contents (put x b) = ob_contents b @ [Some x]"
  "getCapacity (put x b) = getCapacity b" "ob_size (put x b) = ob_size b + 1"
  by (auto simp: put_def ob_contents_def getCapacity_def take_Suc_conv_app_nth)

lemma writeUint8_contents:
  "wf_ob b \<Longrightarrow> ob_contents (writeUint8 x b) = ob_contents b @ [Some x]" "wf_ob b \<Longrightarrow> wf_ob (writeUint8 x b)"
  using ensureAllocated [where needed = "ob_size b + 1" and b = b] by (auto simp: writeUint8_def put wf_ob_def)

lemma writeUint16_contents:
  "wf_ob b \<Longrightarrow> ob_contents (writeUint16 x b) =
     ob_contents b @ [Some (ucast (drop_bit 8 (x AND 0xff00))), Some (ucast (x AND 0x00ff))]"
  "wf_ob b \<Longrightarrow> wf_ob (writeUint16 x b)"
  using ensureAllocated [where needed = "ob_size b + 2" and b = b] by (auto simp: writeUint16_def put wf_ob_def)

lemma writeUint32_contents:
  "wf_ob b \<Longrightarrow> ob_contents (writeUint32 x b) =
     ob_contents b @ [Some (ucast (drop_bit 24 (x AND 0xff000000))), Some (ucast (drop_bit 16 (x AND 0x00ff0000))),
       Some (ucast (drop_bit 8 (x AND 0x0000ff00))), Some (ucast (x AND 0x000000ff))]"
  "wf_ob b \<Longrightarrow> wf_ob (writeUint32 x b)"
  using ensureAllocated [where needed = "ob_size b + 4" and b = b] by (auto simp: writeUint32_def put wf_ob_def)

lemma writeData_contents:
  "wf_ob b \<Longrightarrow> ob_contents (writeData xs b) = ob_contents b @ map Some xs" "wf_ob b \<Longrightarrow> wf_ob (writeData xs b)"
  using ensureAllocated [where needed = "ob_size b + length xs" and b = b]
  by (auto simp: writeData_def Let_def wf_ob_def ob_contents_def getCapacity_def min_def)

section \<open>What is written is read back\<close>

lemma octet_masks:
  "(0x00ff :: 16 word) = mask 8" "(0xff00 :: 16 word) = push_bit 8 (mask 8)"
  "(0x000000ff :: 32 word) = mask 8" "(0x0000ff00 :: 32 word) = push_bit 8 (mask 8)"
  "(0x00ff0000 :: 32 word) = push_bit 16 (mask 8)" "(0xff000000 :: 32 word) = push_bit 24 (mask 8)"
  by (simp_all add: mask_eq_exp_minus_1 push_bit_eq_mult)

lemma halves16:
  "push_bit 8 (ucast (ucast (drop_bit 8 (x AND 0xff00)) :: byte)) OR ucast (ucast (x AND 0x00ff) :: byte) = (x :: 16 word)"
  unfolding octet_masks by (rule bit_eqI) (auto simp: bit_simps)

lemma quarters32:
  "push_bit 24 (ucast (ucast (drop_bit 24 (x AND 0xff000000)) :: byte)) OR
   push_bit 16 (ucast (ucast (drop_bit 16 (x AND 0x00ff0000)) :: byte)) OR
   push_bit 8 (ucast (ucast (drop_bit 8 (x AND 0x0000ff00)) :: byte)) OR ucast (ucast (x AND 0x000000ff) :: byte) = (x :: 32 word)"
proof (rule bit_word_eqI)
  fix n
  assume "n < LENGTH(32)"
  then consider "n < 8" | "8 \<le> n" "n < 16" | "16 \<le> n" "n < 24" | "24 \<le> n" "n < 32"
    by fastforce
  then show "bit (push_bit 24 (ucast (ucast (drop_bit 24 (x AND 0xff000000)) :: byte)) OR
    push_bit 16 (ucast (ucast (drop_bit 16 (x AND 0x00ff0000)) :: byte)) OR
    push_bit 8 (ucast (ucast (drop_bit 8 (x AND 0x0000ff00)) :: byte)) OR ucast (ucast (x AND 0x000000ff) :: byte) :: 32 word) n = bit x n"
    unfolding octet_masks by cases (simp_all add: bit_simps less_diff_conv2)
qed

text \<open>An input buffer made on the octets of an output buffer.\<close>

lemma readUint16_written:
  assumes "ib_data b = xs @ [ucast (drop_bit 8 (x AND 0xff00)), ucast (x AND 0x00ff)] @ ys" "ib_position b = length xs"
  shows "readUint16 b = (Inr x, b\<lparr>ib_position := length xs + 2\<rparr>)"
  using assms halves16 [of x] by (simp add: readUint16_def Let_def)

lemma readUint32_written:
  assumes "ib_data b = xs @ [ucast (drop_bit 24 (x AND 0xff000000)), ucast (drop_bit 16 (x AND 0x00ff0000)),
      ucast (drop_bit 8 (x AND 0x0000ff00)), ucast (x AND 0x000000ff)] @ ys" "ib_position b = length xs"
  shows "readUint32 b = (Inr x, b\<lparr>ib_position := length xs + 4\<rparr>)"
  using assms quarters32 [of x] by (simp add: readUint32_def Let_def or.assoc numeral_2_eq_2 numeral_3_eq_3)

end
