(* ===== verification/Dns_NameWire.thy ===== *)
theory Dns_NameWire
  imports Dns_NameText Util_Buffer
begin

text \<open>
  The constructor \<^verbatim>\<open>Name(InputBuffer&, bool)\<close> of \<^verbatim>\<open>src/lib/dns/name.cc\<close>: a name in
  wire format, possibly compressed (RFC 1035, section 4.1.4).  The loop is the source's
  octet-wise state machine; \<open>names_at\<close> says which name the octets of a message denote.
\<close>

section \<open>The wire-format parser\<close>

datatype fw_state = fw_start | fw_ordinary | fw_newcurrent

text \<open>The local variables of the constructor, the buffer and the member \<^verbatim>\<open>ndata_\<close>.\<close>

record wparser =
  w_buffer :: input_buffer
  w_offsets :: "byte list"
  w_ndata :: "byte list"
  w_n :: nat
  w_done :: bool
  w_nused :: nat
  w_seen_pointer :: bool
  w_state :: fw_state
  w_cused :: nat
  w_current :: nat
  w_biggest_pointer :: nat
  w_new_current :: nat

definition wparser_init :: "input_buffer \<Rightarrow> wparser" where
  "wparser_init b =
     \<lparr>w_buffer = b, w_offsets = [], w_ndata = [], w_n = 0, w_done = False, w_nused = 0, w_seen_pointer = False,
      w_state = fw_start, w_cused = 0, w_current = ib_getPosition b, w_biggest_pointer = ib_getPosition b,
      w_new_current = 0\<rparr>"

text \<open>\<^verbatim>\<open>--n\<close> on an \<^verbatim>\<open>unsigned int\<close>.\<close>

definition dec32 :: "nat \<Rightarrow> nat" where
  "dec32 n = (if n = 0 then 2 ^ 32 - 1 else n - 1)"

definition case_fw_start :: "byte \<Rightarrow> wparser \<Rightarrow> (bundy_exn + unit) \<times> wparser" where
  "case_fw_start c w =
     (if unat c \<le> MAX_LABELLEN then
        (let w1 = w\<lparr>w_offsets := w_offsets w @ [word_of_nat (w_nused w)]\<rparr> in
         if w_nused w1 + unat c + 1 > MAX_WIRE then raise DNSMessageFORMERR w1
         else (Inr (), w1\<lparr>w_nused := w_nused w1 + unat c + 1, w_ndata := w_ndata w1 @ [c],
                          w_done := (if c = 0 then True else w_done w1), w_n := unat c, w_state := fw_ordinary\<rparr>))
      else if c AND 0xc0 = 0xc0 then
        (Inr (), w\<lparr>w_new_current := unat (c AND NOT 0xc0), w_n := 1, w_state := fw_newcurrent\<rparr>)
      else raise DNSMessageFORMERR w)"

definition case_fw_ordinary :: "bool \<Rightarrow> byte \<Rightarrow> wparser \<Rightarrow> (bundy_exn + unit) \<times> wparser" where
  "case_fw_ordinary dc c w =
     (let w1 = w\<lparr>w_ndata := w_ndata w @ [downcase_char dc c], w_n := dec32 (w_n w)\<rparr>
      in (Inr (), if w_n w1 = 0 then w1\<lparr>w_state := fw_start\<rparr> else w1))"

definition case_fw_newcurrent :: "byte \<Rightarrow> wparser \<Rightarrow> (bundy_exn + unit) \<times> wparser" where
  "case_fw_newcurrent c w =
     (let w1 = w\<lparr>w_new_current := w_new_current w * 256 + unat c, w_n := dec32 (w_n w)\<rparr> in
      if w_n w1 \<noteq> 0 then (Inr (), w1)
      else if w_new_current w1 \<ge> w_biggest_pointer w1 then raise DNSMessageFORMERR w1
      else
        (let w2 = w1\<lparr>w_biggest_pointer := w_new_current w1, w_current := w_new_current w1\<rparr> in
         case setPosition (w_current w2) (w_buffer w2) of
           (Inl e, b) \<Rightarrow> (Inl e, w2\<lparr>w_buffer := b\<rparr>)
         | (Inr _, b) \<Rightarrow> (Inr (), w2\<lparr>w_buffer := b, w_seen_pointer := True, w_state := fw_start\<rparr>)))"

text \<open>One iteration of the loop: what precedes the \<^verbatim>\<open>switch\<close>, and the \<^verbatim>\<open>switch\<close>.\<close>

definition wire_advance :: "input_buffer \<Rightarrow> wparser \<Rightarrow> wparser" where
  "wire_advance b w =
     w\<lparr>w_buffer := b, w_current := w_current w + 1,
       w_cused := (if w_seen_pointer w then w_cused w else w_cused w + 1)\<rparr>"

definition wire_switch :: "bool \<Rightarrow> byte \<Rightarrow> wparser \<Rightarrow> (bundy_exn + unit) \<times> wparser" where
  "wire_switch dc c w =
     (case w_state w of
        fw_start \<Rightarrow> case_fw_start c w
      | fw_ordinary \<Rightarrow> case_fw_ordinary dc c w
      | fw_newcurrent \<Rightarrow> case_fw_newcurrent c w)"

definition wire_step :: "bool \<Rightarrow> wparser \<Rightarrow> (bundy_exn + unit) \<times> wparser" where
  "wire_step dc w =
     (case readUint8 (w_buffer w) of
        (Inl e, b) \<Rightarrow> (Inl e, w\<lparr>w_buffer := b\<rparr>)
      | (Inr c, b) \<Rightarrow> wire_switch dc c (wire_advance b w))"

lemma case_fw_start_frame:
  "case_fw_start c w = (r, w') \<Longrightarrow>
   w_buffer w' = w_buffer w \<and> w_biggest_pointer w' = w_biggest_pointer w \<and> w_current w' = w_current w"
  by (auto simp: case_fw_start_def raise_def Let_def split: if_splits)

lemma case_fw_ordinary_frame:
  "case_fw_ordinary dc c w = (r, w') \<Longrightarrow>
   w_buffer w' = w_buffer w \<and> w_biggest_pointer w' = w_biggest_pointer w \<and> w_current w' = w_current w"
  by (auto simp: case_fw_ordinary_def Let_def split: if_splits)

lemma case_fw_newcurrent_frame:
  "case_fw_newcurrent c w = (Inr u, w') \<Longrightarrow> ib_data (w_buffer w') = ib_data (w_buffer w) \<and>
     (w_biggest_pointer w' < w_biggest_pointer w \<or> w_biggest_pointer w' = w_biggest_pointer w \<and> w_current w' = w_current w)"
  by (auto simp: case_fw_newcurrent_def setPosition_def raise_def Let_def split: if_splits)

lemma wire_switch_frame:
  assumes "wire_switch dc c w = (Inr u, w')"
  shows "ib_data (w_buffer w') = ib_data (w_buffer w) \<and>
    (w_biggest_pointer w' < w_biggest_pointer w \<or> w_biggest_pointer w' = w_biggest_pointer w \<and> w_current w' = w_current w)"
  using assms
  by (auto simp: wire_switch_def split: fw_state.splits
      dest: case_fw_start_frame case_fw_ordinary_frame case_fw_newcurrent_frame)

lemma wire_step_measure:
  assumes "wire_step dc w = (Inr u, w')" "w_current w < length (ib_data (w_buffer w))"
  shows "w_biggest_pointer w' < w_biggest_pointer w \<or>
    w_biggest_pointer w' = w_biggest_pointer w \<and>
      length (ib_data (w_buffer w')) - w_current w' < length (ib_data (w_buffer w)) - w_current w"
proof -
  obtain c b where "wire_switch dc c (wire_advance b w) = (Inr u, w')" "ib_data b = ib_data (w_buffer w)"
    using assms(1) by (auto simp: wire_step_def readUint8_def raise_def split: if_splits)
  then show ?thesis
    using assms(2) wire_switch_frame [of dc c "wire_advance b w" u w'] by (auto simp: wire_advance_def)
qed

text \<open>
  The loop always ends: every iteration either moves forward or jumps to a pointer
  smaller than all before it.
\<close>

function wire_loop :: "bool \<Rightarrow> wparser \<Rightarrow> (bundy_exn + unit) \<times> wparser" where
  "wire_loop dc w =
     (if w_current w < ib_getLength (w_buffer w) \<and> \<not> w_done w
      then (case wire_step dc w of
              (Inl e, w') \<Rightarrow> (Inl e, w')
            | (Inr _, w') \<Rightarrow> wire_loop dc w')
      else (Inr (), w))"
  by pat_completeness auto
termination
proof (relation "inv_image (less_than <*lex*> less_than)
    (\<lambda>(dc, w). (w_biggest_pointer w, length (ib_data (w_buffer w)) - w_current w))")
  fix dc w x xa xb xc
  assume "w_current w < ib_getLength (w_buffer w) \<and> \<not> w_done w" "(x, xa) = wire_step dc w" "x = Inr xb"
  then show "((dc, xa), dc, w) \<in> inv_image (less_than <*lex*> less_than)
    (\<lambda>(dc, w). (w_biggest_pointer w, length (ib_data (w_buffer w)) - w_current w))"
    using wire_step_measure [of dc w xb xa] by (auto simp: ib_getLength_def)
qed auto

declare wire_loop.simps [simp del]

definition Name_wire :: "bool \<Rightarrow> (input_buffer, bundy_exn, name) exec" where
  "Name_wire dc b =
     (case wire_loop dc (wparser_init b) of
        (Inl e, w) \<Rightarrow> (Inl e, w_buffer w)
      | (Inr _, w) \<Rightarrow>
          if \<not> w_done w then raise DNSMessageFORMERR (w_buffer w)
          else (case setPosition (ib_getPosition b + w_cused w) (w_buffer w) of
                  (Inl e, b') \<Rightarrow> (Inl e, b')
                | (Inr _, b') \<Rightarrow>
                    (Inr \<lparr>ndata = w_ndata w, noffsets = w_offsets w, nlength = w_nused w,
                          labelcount = length (w_offsets w)\<rparr>, b')))"

section \<open>What the octets of a message denote\<close>

text \<open>
  \<open>decode msg b pos\<close>: the labels of the name at position \<open>pos\<close> and the position after it,
  where a compression pointer has to point before \<open>b\<close>.
\<close>

definition pointer_target :: "byte \<Rightarrow> byte \<Rightarrow> nat" where
  "pointer_target hi lo = (unat hi - 192) * 256 + unat lo"

function decode :: "byte list \<Rightarrow> nat \<Rightarrow> nat \<Rightarrow> (label list \<times> nat) option" where
  "decode msg b pos =
     (if \<not> pos < length msg then None
      else if unat (msg ! pos) = 0 then Some ([[]], pos + 1)
      else if unat (msg ! pos) \<le> MAX_LABELLEN then
        (if pos + 1 + unat (msg ! pos) \<le> length msg
         then map_option (apfst ((#) (take (unat (msg ! pos)) (drop (pos + 1) msg)))) (decode msg b (pos + 1 + unat (msg ! pos)))
         else None)
      else if 192 \<le> unat (msg ! pos) \<and> pos + 1 < length msg \<and> pointer_target (msg ! pos) (msg ! (pos + 1)) < b
      then map_option (\<lambda>(L, e). (L, pos + 2))
             (decode msg (pointer_target (msg ! pos) (msg ! (pos + 1))) (pointer_target (msg ! pos) (msg ! (pos + 1))))
      else None)"
  by pat_completeness auto
termination
  by (relation "inv_image (less_than <*lex*> less_than) (\<lambda>(msg, b, pos). (b, length msg - pos))") auto

declare decode.simps [simp del]

definition at_start :: "bool \<Rightarrow> byte list \<Rightarrow> nat \<Rightarrow> nat \<Rightarrow> label list \<Rightarrow> wparser \<Rightarrow> bool" where
  "at_start dc msg b pos K w \<longleftrightarrow>
     w_buffer w = \<lparr>ib_data = msg, ib_position = pos\<rparr> \<and> w_current w = pos \<and> w_biggest_pointer w = b \<and> b \<le> length msg \<and>
     w_state w = fw_start \<and> \<not> w_done w \<and> w_nused w = length (wire K) \<and>
     w_ndata w = wire (map (map (downcase_char dc)) K) \<and> w_offsets w = map word_of_nat (offs K)"

text \<open>The octets of a label.\<close>

lemma wire_loop_ordinary:
  assumes "w_buffer w = \<lparr>ib_data = msg, ib_position = pos\<rparr>" "w_current w = pos" "w_state w = fw_ordinary"
    and "\<not> w_done w" "w_n w = k" "0 < k"
  shows "if pos + k \<le> length msg
    then wire_loop dc w = wire_loop dc (w\<lparr>w_buffer := \<lparr>ib_data = msg, ib_position = pos + k\<rparr>, w_current := pos + k,
           w_cused := (if w_seen_pointer w then w_cused w else w_cused w + k), w_n := 0, w_state := fw_start,
           w_ndata := w_ndata w @ map (downcase_char dc) (take k (drop pos msg))\<rparr>)
    else \<exists>w'. wire_loop dc w = (Inr (), w') \<and> \<not> w_done w'"
  using assms
proof (induction k arbitrary: w pos)
  case (Suc k)
  show ?case
  proof (cases "pos < length msg")
    case False
    then show ?thesis
      using Suc.prems by (subst wire_loop.simps) (auto simp: ib_getLength_def)
  next
    case True
    define w0 where "w0 = (wire_advance \<lparr>ib_data = msg, ib_position = pos + 1\<rparr> w)
      \<lparr>w_ndata := w_ndata w @ [downcase_char dc (msg ! pos)], w_n := k\<rparr>"
    define w1 where "w1 = (if k = 0 then w0\<lparr>w_state := fw_start\<rparr> else w0)"
    have step: "wire_loop dc w = wire_loop dc w1"
      using True Suc.prems
      by (subst wire_loop.simps)
        (simp add: ib_getLength_def wire_step_def readUint8_def wire_switch_def wire_advance_def case_fw_ordinary_def
          Let_def dec32_def w1_def w0_def)
    have tk: "take (Suc k) (drop pos msg) = msg ! pos # take k (drop (Suc pos) msg)"
      using True by (simp add: Cons_nth_drop_Suc [symmetric])
    show ?thesis
    proof (cases "k = 0")
      case k: True
      have "w1 = w\<lparr>w_buffer := \<lparr>ib_data = msg, ib_position = pos + Suc k\<rparr>, w_current := pos + Suc k,
           w_cused := (if w_seen_pointer w then w_cused w else w_cused w + Suc k), w_n := 0, w_state := fw_start,
           w_ndata := w_ndata w @ map (downcase_char dc) (take (Suc k) (drop pos msg))\<rparr>"
        using k tk Suc.prems(2) by (simp add: w1_def w0_def wire_advance_def)
      then show ?thesis
        using k True step by auto
    next
      case False
      have "w_buffer w1 = \<lparr>ib_data = msg, ib_position = Suc pos\<rparr>" "w_current w1 = Suc pos" "w_state w1 = fw_ordinary"
        "\<not> w_done w1" "w_n w1 = k" "0 < k"
        using False Suc.prems by (simp_all add: w1_def w0_def wire_advance_def)
      note Suc.IH [OF this]
      then show ?thesis
        using step tk False Suc.prems(2) by (auto simp: w1_def w0_def wire_advance_def)
    qed
  qed
qed simp

text \<open>The first octet of a label, of a pointer, and every other octet at a label boundary.\<close>

lemma pointer_mark: "c AND 0xc0 = 0xc0 \<longleftrightarrow> 192 \<le> unat (c :: byte)"
  and pointer_high: "192 \<le> unat c \<Longrightarrow> unat (c AND NOT 0xc0) = unat c - 192"
proof -
  have "\<forall>n < 256. (word_of_nat n AND 0xc0 = (0xc0 :: byte) \<longleftrightarrow> 192 \<le> n) \<and>
    (192 \<le> n \<longrightarrow> unat (word_of_nat n AND NOT 0xc0 :: byte) = n - 192)"
    by code_simp
  then have "(word_of_nat (unat c) AND 0xc0 = (0xc0 :: byte) \<longleftrightarrow> 192 \<le> unat c) \<and>
    (192 \<le> unat c \<longrightarrow> unat (word_of_nat (unat c) AND NOT 0xc0 :: byte) = unat c - 192)"
    using unat_byte_less by blast
  then show "c AND 0xc0 = 0xc0 \<longleftrightarrow> 192 \<le> unat c" "192 \<le> unat c \<Longrightarrow> unat (c AND NOT 0xc0) = unat c - 192"
    by simp_all
qed

definition wire_jump :: "nat \<Rightarrow> wparser \<Rightarrow> wparser" where
  "wire_jump ptr w =
     w\<lparr>w_buffer := \<lparr>ib_data = ib_data (w_buffer w), ib_position = ptr\<rparr>, w_current := ptr, w_biggest_pointer := ptr,
       w_cused := (if w_seen_pointer w then w_cused w else w_cused w + 2), w_n := 0, w_new_current := ptr,
       w_seen_pointer := True, w_state := fw_start\<rparr>"

lemma wire_loop_pointer:
  assumes "at_start dc msg b pos K w" "pos < length msg" "192 \<le> unat (msg ! pos)"
  shows "if pos + 1 < length msg
    then (if pointer_target (msg ! pos) (msg ! (pos + 1)) < b
          then wire_loop dc w = wire_loop dc (wire_jump (pointer_target (msg ! pos) (msg ! (pos + 1))) w)
          else \<exists>w'. wire_loop dc w = (Inl DNSMessageFORMERR, w'))
    else \<exists>w'. wire_loop dc w = (Inr (), w') \<and> \<not> w_done w'"
proof -
  define w1 where "w1 = (wire_advance \<lparr>ib_data = msg, ib_position = pos + 1\<rparr> w)
    \<lparr>w_new_current := unat (msg ! pos) - 192, w_n := 1, w_state := fw_newcurrent\<rparr>"
  have w: "w_buffer w = \<lparr>ib_data = msg, ib_position = pos\<rparr>" "w_current w = pos" "w_biggest_pointer w = b" "b \<le> length msg"
    "w_state w = fw_start" "\<not> w_done w"
    using assms(1) by (auto simp: at_start_def)
  have step1: "wire_loop dc w = wire_loop dc w1"
    using w assms(2,3) pointer_mark [of "msg ! pos"] pointer_high [of "msg ! pos"]
    by (subst wire_loop.simps)
      (simp add: ib_getLength_def wire_step_def readUint8_def wire_switch_def wire_advance_def case_fw_start_def
        name_limits w1_def)
  have w1: "w_buffer w1 = \<lparr>ib_data = msg, ib_position = pos + 1\<rparr>" "w_current w1 = pos + 1" "w_biggest_pointer w1 = b"
    "w_state w1 = fw_newcurrent" "\<not> w_done w1" "w_n w1 = 1" "w_new_current w1 = unat (msg ! pos) - 192"
    using w by (simp_all add: w1_def wire_advance_def)
  show ?thesis
  proof (cases "pos + 1 < length msg")
    case False
    then show ?thesis
      unfolding step1 using w1 by (subst wire_loop.simps) (simp add: ib_getLength_def)
  next
    case True
    define ptr where "ptr = pointer_target (msg ! pos) (msg ! (pos + 1))"
    have "wire_step dc w1 = (if ptr < b then (Inr (), wire_jump ptr w)
        else (Inl DNSMessageFORMERR, (wire_advance \<lparr>ib_data = msg, ib_position = pos + 2\<rparr> w1)\<lparr>w_new_current := ptr, w_n := 0\<rparr>))"
      using True w w1
      by (auto simp: wire_step_def readUint8_def wire_switch_def wire_advance_def case_fw_newcurrent_def Let_def dec32_def
          setPosition_def raise_def wire_jump_def w1_def ptr_def pointer_target_def)
    then show ?thesis
      unfolding step1 using True w1 ptr_def
      by (subst (1 2) wire_loop.simps) (auto simp: ib_getLength_def)
  qed
qed

lemma wire_loop_label:
  assumes "at_start dc msg b pos K w" "pos < length msg" "unat (msg ! pos) = k" "0 < k" "k \<le> MAX_LABELLEN"
  shows "if length (wire K) + k + 1 > MAX_WIRE then \<exists>w'. wire_loop dc w = (Inl DNSMessageFORMERR, w')
    else if pos + 1 + k \<le> length msg
    then \<exists>w'. wire_loop dc w = wire_loop dc w' \<and> at_start dc msg b (pos + 1 + k) (K @ [take k (drop (pos + 1) msg)]) w' \<and>
      w_seen_pointer w' = w_seen_pointer w \<and> w_cused w' = (if w_seen_pointer w then w_cused w else w_cused w + 1 + k)
    else \<exists>w'. wire_loop dc w = (Inr (), w') \<and> \<not> w_done w'"
proof -
  have w: "w_buffer w = \<lparr>ib_data = msg, ib_position = pos\<rparr>" "w_current w = pos" "w_biggest_pointer w = b" "b \<le> length msg"
    "w_state w = fw_start" "\<not> w_done w" "w_nused w = length (wire K)" "w_ndata w = wire (map (map (downcase_char dc)) K)"
    "w_offsets w = map word_of_nat (offs K)"
    using assms(1) by (auto simp: at_start_def)
  define w1 where "w1 = (wire_advance \<lparr>ib_data = msg, ib_position = pos + 1\<rparr> w)
    \<lparr>w_offsets := w_offsets w @ [word_of_nat (length (wire K))]\<rparr>"
  have "msg ! pos \<noteq> 0"
    using assms(3,4) by auto
  then have step: "wire_step dc w = (if length (wire K) + k + 1 > MAX_WIRE then (Inl DNSMessageFORMERR, w1)
      else (Inr (), w1\<lparr>w_nused := length (wire K) + k + 1, w_ndata := w_ndata w @ [msg ! pos], w_n := k, w_state := fw_ordinary\<rparr>))"
    using w assms(2-5)
    by (simp add: wire_step_def readUint8_def wire_switch_def wire_advance_def case_fw_start_def Let_def raise_def w1_def)
  show ?thesis
  proof (cases "length (wire K) + k + 1 > MAX_WIRE")
    case True
    then show ?thesis
      using w assms(2) step by (subst (1) wire_loop.simps) (auto simp: ib_getLength_def)
  next
    case False
    define w2 where "w2 = w1\<lparr>w_nused := length (wire K) + k + 1, w_ndata := w_ndata w @ [msg ! pos], w_n := k, w_state := fw_ordinary\<rparr>"
    have eq: "wire_loop dc w = wire_loop dc w2"
      using w assms(2) step False by (subst (1) wire_loop.simps) (simp add: ib_getLength_def w2_def)
    have w2: "w_buffer w2 = \<lparr>ib_data = msg, ib_position = pos + 1\<rparr>" "w_current w2 = pos + 1" "w_state w2 = fw_ordinary"
      "\<not> w_done w2" "w_n w2 = k"
      using w by (simp_all add: w2_def w1_def wire_advance_def)
    show ?thesis
    proof (cases "pos + 1 + k \<le> length msg")
      case fits: True
      have len: "length (take k (drop (pos + 1) msg)) = k"
        using fits by simp
      have byte: "(word_of_nat k :: byte) = msg ! pos"
        using assms(3) by auto
      define w3 where "w3 = w2\<lparr>w_buffer := \<lparr>ib_data = msg, ib_position = pos + 1 + k\<rparr>, w_current := pos + 1 + k,
           w_cused := (if w_seen_pointer w2 then w_cused w2 else w_cused w2 + k), w_n := 0, w_state := fw_start,
           w_ndata := w_ndata w2 @ map (downcase_char dc) (take k (drop (pos + 1) msg))\<rparr>"
      have "wire_loop dc w = wire_loop dc w3"
        using wire_loop_ordinary [OF w2 assms(4), of dc] eq fits by (simp add: w3_def)
      moreover have "at_start dc msg b (pos + 1 + k) (K @ [take k (drop (pos + 1) msg)]) w3"
        using w fits byte len by (simp add: at_start_def w3_def w2_def w1_def wire_advance_def del: length_take length_drop)
      moreover have "w_seen_pointer w3 = w_seen_pointer w" "w_cused w3 = (if w_seen_pointer w then w_cused w else w_cused w + 1 + k)"
        by (simp_all add: w3_def w2_def w1_def wire_advance_def)
      ultimately show ?thesis
        using False fits by auto
    next
      case short: False
      then show ?thesis
        using wire_loop_ordinary [OF w2 assms(4), of dc] eq False by auto
    qed
  qed
qed

text \<open>The loop against the reference, from any label boundary.\<close>

definition loop_outcome :: "bool \<Rightarrow> byte list \<Rightarrow> nat \<Rightarrow> label list \<Rightarrow> wparser \<Rightarrow> (label list \<times> nat) option \<Rightarrow>
    (bundy_exn + unit) \<times> wparser \<Rightarrow> bool" where
  "loop_outcome dc msg pos K w d r \<longleftrightarrow>
     (case d of
        Some (L, e) \<Rightarrow>
          if length (wire (K @ L)) \<le> MAX_WIRE
          then \<exists>w'. r = (Inr (), w') \<and> w_done w' \<and> w_ndata w' = wire (map (map (downcase_char dc)) (K @ L)) \<and>
            w_offsets w' = map word_of_nat (offs (K @ L)) \<and> w_nused w' = length (wire (K @ L)) \<and>
            ib_data (w_buffer w') = msg \<and> w_cused w' = (if w_seen_pointer w then w_cused w else w_cused w + (e - pos))
          else fst r = Inl DNSMessageFORMERR
      | None \<Rightarrow> fst r = Inl DNSMessageFORMERR \<or> (fst r = Inr () \<and> \<not> w_done (snd r)))"

text \<open>The reference as a relation, for rule induction.\<close>

inductive names_at :: "byte list \<Rightarrow> nat \<Rightarrow> nat \<Rightarrow> label list \<Rightarrow> nat \<Rightarrow> bool" for msg where
  root: "pos < length msg \<Longrightarrow> msg ! pos = 0 \<Longrightarrow> names_at msg b pos [[]] (pos + 1)"
| label: "0 < unat (msg ! pos) \<Longrightarrow> unat (msg ! pos) \<le> MAX_LABELLEN \<Longrightarrow> pos + 1 + unat (msg ! pos) \<le> length msg \<Longrightarrow>
    names_at msg b (pos + 1 + unat (msg ! pos)) L e \<Longrightarrow>
    names_at msg b pos (take (unat (msg ! pos)) (drop (pos + 1) msg) # L) e"
| pointer: "192 \<le> unat (msg ! pos) \<Longrightarrow> pos + 1 < length msg \<Longrightarrow> pointer_target (msg ! pos) (msg ! (pos + 1)) = ptr \<Longrightarrow>
    ptr < b \<Longrightarrow> names_at msg ptr ptr L e \<Longrightarrow> names_at msg b pos L (pos + 2)"

lemma decode_names_at: "decode msg b pos = Some (L, e) \<Longrightarrow> names_at msg b pos L e"
proof (induction msg b pos arbitrary: L e rule: decode.induct)
  case (1 msg b pos)
  let ?c = "msg ! pos" and ?ptr = "pointer_target (msg ! pos) (msg ! (pos + 1))"
  note dec = "1.prems" [unfolded decode.simps [of msg b pos]]
  consider (root) "pos < length msg" "?c = 0" "L = [[]]" "e = pos + 1"
    | (label) L' where "pos < length msg" "0 < unat ?c" "unat ?c \<le> MAX_LABELLEN" "pos + 1 + unat ?c \<le> length msg"
        "decode msg b (pos + 1 + unat ?c) = Some (L', e)" "L = take (unat ?c) (drop (pos + 1) msg) # L'"
    | (pointer) e' where "pos < length msg" "\<not> unat ?c \<le> MAX_LABELLEN" "192 \<le> unat ?c" "pos + 1 < length msg" "?ptr < b"
        "decode msg ?ptr ?ptr = Some (L, e')" "e = pos + 2"
    using dec by (fastforce split: if_splits simp: unat_eq_0)
  then show ?case
  proof cases
    case root
    then show ?thesis using names_at.root by simp
  next
    case label
    then show ?thesis using names_at.label "1.IH"(1) by simp
  next
    case pointer
    then show ?thesis using names_at.pointer "1.IH"(2) by simp
  qed
qed

lemma names_at_decode: "names_at msg b pos L e \<Longrightarrow> decode msg b pos = Some (L, e)"
  by (induction rule: names_at.induct) (subst decode.simps; simp add: name_limits)+

lemma names_at_end: "names_at msg b pos L e \<Longrightarrow> pos < e \<and> e \<le> length msg"
  by (induction rule: names_at.induct) auto

lemma names_at_labels:
  "names_at msg b pos L e \<Longrightarrow> L \<noteq> [] \<and> last L = [] \<and> (\<forall>l \<in> set (butlast L). valid_label l)"
  by (induction rule: names_at.induct) (auto simp: valid_label_def)

lemma at_start_jump:
  assumes "at_start dc msg b pos K w" "ptr < b"
  shows "at_start dc msg ptr ptr K (wire_jump ptr w)"
  using assms by (simp add: at_start_def wire_jump_def)

lemma wire_loop_root:
  assumes "at_start dc msg b pos K w" "pos < length msg" "msg ! pos = 0"
  shows "loop_outcome dc msg pos K w (Some ([[]], pos + 1)) (wire_loop dc w)"
  using assms
  by (subst wire_loop.simps)
    (auto simp: loop_outcome_def at_start_def ib_getLength_def wire_step_def readUint8_def wire_switch_def wire_advance_def
      case_fw_start_def Let_def raise_def wire_loop.simps)

lemma wire_loop_bad:
  assumes "at_start dc msg b pos K w" "pos < length msg" "\<not> unat (msg ! pos) \<le> MAX_LABELLEN" "\<not> 192 \<le> unat (msg ! pos)"
  shows "fst (wire_loop dc w) = Inl DNSMessageFORMERR"
  using assms pointer_mark [of "msg ! pos"]
  by (subst wire_loop.simps)
    (auto simp: at_start_def ib_getLength_def wire_step_def readUint8_def wire_switch_def wire_advance_def
      case_fw_start_def raise_def)

lemma loop_outcome_None: "(\<exists>w'. r = (Inr (), w') \<and> \<not> w_done w') \<or> fst r = Inl DNSMessageFORMERR \<Longrightarrow> loop_outcome dc msg pos K w None r"
  by (auto simp: loop_outcome_def)

lemma wire_loop_decode:
  "at_start dc msg b pos K w \<Longrightarrow> loop_outcome dc msg pos K w (decode msg b pos) (wire_loop dc w)"
proof (induction msg b pos arbitrary: K w rule: decode.induct)
  case (1 msg b pos)
  let ?c = "msg ! pos" and ?ptr = "pointer_target (msg ! pos) (msg ! (pos + 1))"
  note start = "1.prems"
  consider (out) "\<not> pos < length msg" | (root) "pos < length msg" "unat ?c = 0"
    | (label) "pos < length msg" "0 < unat ?c" "unat ?c \<le> MAX_LABELLEN"
    | (pointer) "pos < length msg" "\<not> unat ?c \<le> MAX_LABELLEN" "192 \<le> unat ?c"
    | (bad) "pos < length msg" "\<not> unat ?c \<le> MAX_LABELLEN" "\<not> 192 \<le> unat ?c"
    by fastforce
  then show ?case
  proof cases
    case out
    then have "\<not> w_current w < ib_getLength (w_buffer w)" "\<not> w_done w"
      using start by (auto simp: at_start_def ib_getLength_def)
    then have "wire_loop dc w = (Inr (), w)" "\<not> w_done w"
      by (simp_all add: wire_loop.simps)
    then show ?thesis
      using out by (auto simp: decode.simps [of msg b pos] intro!: loop_outcome_None)
  next
    case root
    then have "?c = 0" by (simp add: unat_eq_0)
    then show ?thesis
      using root wire_loop_root [OF start] by (simp add: decode.simps [of msg b pos])
  next
    case label
    define l where "l = take (unat ?c) (drop (pos + 1) msg)"
    note step = wire_loop_label [OF start label(1) refl label(2,3), folded l_def]
    show ?thesis
    proof (cases "pos + 1 + unat ?c \<le> length msg")
      case False
      then show ?thesis
        using label step by (auto simp: decode.simps [of msg b pos] intro!: loop_outcome_None split: if_splits)
    next
      case fits: True
      have dec: "decode msg b pos = map_option (apfst ((#) l)) (decode msg b (pos + 1 + unat ?c))"
        using label fits by (simp add: decode.simps [of msg b pos] l_def)
      have len: "length l = unat ?c"
        using fits by (simp add: l_def)
      show ?thesis
      proof (cases "length (wire K) + unat ?c + 1 > MAX_WIRE")
        case True
        then show ?thesis
          using step len by (auto simp: dec loop_outcome_def split: option.splits)
      next
        case False
        then obtain w' where w': "wire_loop dc w = wire_loop dc w'" "at_start dc msg b (pos + 1 + unat ?c) (K @ [l]) w'"
          "w_seen_pointer w' = w_seen_pointer w"
          "w_cused w' = (if w_seen_pointer w then w_cused w else w_cused w + 1 + unat ?c)"
          using step fits by auto
        have "loop_outcome dc msg (pos + 1 + unat ?c) (K @ [l]) w' (decode msg b (pos + 1 + unat ?c)) (wire_loop dc w')"
          using "1.IH"(1) label fits w'(2) by simp
        then show ?thesis
          using w' dec names_at_end [OF decode_names_at, of msg b "pos + 1 + unat ?c"]
          by (fastforce simp: loop_outcome_def split: option.splits)
      qed
    qed
  next
    case pointer
    note step = wire_loop_pointer [OF start pointer(1,3)]
    show ?thesis
    proof (cases "pos + 1 < length msg \<and> ?ptr < b")
      case True
      then have dec: "decode msg b pos = map_option (\<lambda>(L, e). (L, pos + 2)) (decode msg ?ptr ?ptr)"
        using pointer by (simp add: decode.simps [of msg b pos])
      have "loop_outcome dc msg ?ptr K (wire_jump ?ptr w) (decode msg ?ptr ?ptr) (wire_loop dc (wire_jump ?ptr w))"
        using "1.IH"(2) pointer True at_start_jump [OF start] by simp
      then show ?thesis
        using True step dec by (fastforce simp: loop_outcome_def wire_jump_def split: option.splits)
    next
      case False
      then show ?thesis
        using pointer step by (auto simp: decode.simps [of msg b pos] intro!: loop_outcome_None split: if_splits)
    qed
  next
    case bad
    then show ?thesis
      using wire_loop_bad [OF start] by (auto simp: decode.simps [of msg b pos] intro!: loop_outcome_None)
  qed
qed

section \<open>The constructor\<close>

lemma names_at_abs: "names_at msg b pos L e \<Longrightarrow> length (wire L) \<le> MAX_WIRE \<Longrightarrow> abs_labels L"
  using names_at_labels by (auto simp: abs_labels_def)

lemma offs_map_map [simp]: "offs_from k (map (map f) L) = offs_from k L"
  by (induction L arbitrary: k) auto

lemma at_start_init: "ib_position b \<le> length (ib_data b) \<Longrightarrow> at_start dc (ib_data b) (ib_position b) (ib_position b) [] (wparser_init b)"
  by (cases b) (simp add: at_start_def wparser_init_def ib_getPosition_def)

lemma Name_wire_denotes:
  assumes "names_at (ib_data b) (ib_position b) (ib_position b) L e" "length (wire L) \<le> MAX_WIRE"
  shows "Name_wire dc b = (Inr (mk_name (map (map (downcase_char dc)) L)), b\<lparr>ib_position := e\<rparr>)"
proof -
  have e: "ib_position b < e" "e \<le> length (ib_data b)"
    using names_at_end [OF assms(1)] by auto
  obtain w where w: "wire_loop dc (wparser_init b) = (Inr (), w)" "w_done w" "w_ndata w = wire (map (map (downcase_char dc)) L)"
    "w_offsets w = map word_of_nat (offs L)" "w_nused w = length (wire L)" "ib_data (w_buffer w) = ib_data b"
    "w_cused w = e - ib_position b"
    using wire_loop_decode [OF at_start_init [of b], of dc] names_at_decode [OF assms(1)] assms(2) e
    by (fastforce simp: loop_outcome_def wparser_init_def)
  then show ?thesis
    using e by (cases b) (simp add: Name_wire_def setPosition_def ib_getPosition_def mk_name_def)
qed

lemma Name_wire_error:
  assumes "ib_position b \<le> length (ib_data b)"
    and "\<nexists>L e. names_at (ib_data b) (ib_position b) (ib_position b) L e \<and> length (wire L) \<le> MAX_WIRE"
  shows "fst (Name_wire dc b) = Inl DNSMessageFORMERR"
proof -
  have "loop_outcome dc (ib_data b) (ib_position b) [] (wparser_init b)
      (decode (ib_data b) (ib_position b) (ib_position b)) (wire_loop dc (wparser_init b))"
    by (rule wire_loop_decode [OF at_start_init [OF assms(1)]])
  then show ?thesis
    using assms(2) decode_names_at [of "ib_data b" "ib_position b" "ib_position b"]
    by (fastforce simp: loop_outcome_def Name_wire_def raise_def split: option.splits prod.splits sum.splits if_splits)
qed

lemma Name_wire_wf:
  assumes "ib_position b \<le> length (ib_data b)" "Name_wire dc b = (Inr n, b')"
  shows "wf_name n"
proof -
  obtain L e where L: "names_at (ib_data b) (ib_position b) (ib_position b) L e" "length (wire L) \<le> MAX_WIRE"
    using Name_wire_error [OF assms(1), of dc] assms(2) by auto
  then show ?thesis
    using Name_wire_denotes [OF L, of dc] assms(2) wf_mk_name [OF abs_labels_map_map [OF names_at_abs [OF L]]] by auto
qed

text \<open>An uncompressed name is read back wherever it stands.\<close>

lemma names_at_wire:
  "\<forall>l \<in> set K. valid_label l \<Longrightarrow> msg = pre @ wire (K @ [[]]) @ rest \<Longrightarrow>
   names_at msg b (length pre) (K @ [[]]) (length pre + length (wire (K @ [[]])))"
proof (induction K arbitrary: pre)
  case Nil
  then show ?case
    using names_at.root [of "length pre" msg b] by simp
next
  case (Cons l K)
  have c: "unat (msg ! length pre) = length l"
    using Cons.prems valid_label_byte [of l] by (simp add: nth_append)
  have "names_at msg b (length (pre @ word_of_nat (length l) # l)) (K @ [[]])
      (length (pre @ word_of_nat (length l) # l) + length (wire (K @ [[]])))"
    using Cons.prems by (intro Cons.IH) auto
  then show ?case
    using names_at.label [of msg "length pre" b "K @ [[]]"] c Cons.prems by (auto simp: valid_label_def add.assoc Suc_le_eq)
qed

lemma Name_wire_toWire:
  assumes "wf_name n" "ib_data b = pre @ Name_toWire n @ rest" "ib_position b = length pre"
  shows "Name_wire False b = (Inr n, b\<lparr>ib_position := length pre + length (Name_toWire n)\<rparr>)"
proof -
  obtain L where L: "abs_labels L" "n = mk_name L"
    using assms(1) by (rule wf_nameE)
  obtain K where K: "L = K @ [[]]" "\<forall>l \<in> set K. valid_label l"
    using L(1) by (rule abs_labelsE)
  have "names_at (ib_data b) (length pre) (length pre) (K @ [[]]) (length pre + length (wire (K @ [[]])))"
    using K assms(2) L(2) by (intro names_at_wire) (auto simp: Name_toWire_def)
  then show ?thesis
    using Name_wire_denotes [of b L "length pre + length (wire L)" False] assms(3) L K abs_labels_lengths(2) [OF L(1)]
    by (simp add: Name_toWire_def downcase_char_def cong: map_cong)
qed

end
