(* ===== verification/Name_Properties.thy ===== *)
theory Name_Properties
  imports Dns_NameWire
begin

text \<open>
  The properties of domain names and of the buffers they are read from and written to, over
  the definitions of the theories \<open>Dns_*\<close> and \<open>Util_Buffer\<close>.
\<close>

section \<open>Names used in the examples\<close>

text \<open>The labels of \<^verbatim>\<open>www.example.\<close>, \<^verbatim>\<open>WWW.Example.\<close> and \<^verbatim>\<open>example.\<close>, and a message that holds the first one compressed.\<close>

definition www_example :: "label list" where
  "www_example = [[0x77, 0x77, 0x77], [0x65, 0x78, 0x61, 0x6d, 0x70, 0x6c, 0x65], []]"

definition WWW_Example :: "label list" where
  "WWW_Example = [[0x57, 0x57, 0x57], [0x45, 0x78, 0x61, 0x6d, 0x70, 0x6c, 0x65], []]"

definition example :: "label list" where
  "example = [[0x65, 0x78, 0x61, 0x6d, 0x70, 0x6c, 0x65], []]"

definition compressed :: "byte list" where
  "compressed = [7, 0x65, 0x78, 0x61, 0x6d, 0x70, 0x6c, 0x65, 0, 3, 0x77, 0x77, 0x77, 0xc0, 0, 0xff]"

definition compressed_buffer :: input_buffer where
  "compressed_buffer = \<lparr>ib_data = compressed, ib_position = 9\<rparr>"

lemma example_labels: "abs_labels www_example" "abs_labels WWW_Example" "abs_labels example"
  by (simp_all add: www_example_def WWW_Example_def example_def abs_labels_def valid_label_def name_limits)

lemma compressed_name: "names_at compressed 9 9 www_example 15"
  by (rule decode_names_at) code_simp

section \<open>The wire format\<close>

text \<open>
  C6.  The constructor that reads a name from a message accepts exactly what the wire format
  defines: where the octets at the read position denote a list of labels, with compression
  pointers that each go back before the name they continue, and the labels take at most 255 octets, the
  result is the name of these labels, and the buffer is left behind the last octet that belongs
  to the name in place.
\<close>

theorem wire_name_denoted:
  assumes "names_at (ib_data b) (ib_position b) (ib_position b) L e" "length (wire L) \<le> MAX_WIRE"
  shows "Name_wire dc b = (Inr (mk_name (map (map (downcase_char dc)) L)), b\<lparr>ib_position := e\<rparr>)"
  using assms by (rule Name_wire_denotes)

theorem wire_name_denoted_witness:
  "Name_wire True compressed_buffer = (Inr (mk_name (map (map (downcase_char True)) www_example)), compressed_buffer\<lparr>ib_position := 15\<rparr>)"
proof (rule wire_name_denoted)
  show "names_at (ib_data compressed_buffer) (ib_position compressed_buffer) (ib_position compressed_buffer) www_example 15"
    using compressed_name by (simp add: compressed_buffer_def)
  show "length (wire www_example) \<le> MAX_WIRE"
    by (simp add: www_example_def name_limits)
qed

text \<open>
  C7.  Octets that denote no name of at most 255 octets are refused with a format error; the loop of
  the constructor ends on every message, also where pointers form a cycle.
\<close>

theorem wire_name_refused:
  assumes "ib_position b \<le> length (ib_data b)"
    and "\<nexists>L e. names_at (ib_data b) (ib_position b) (ib_position b) L e \<and> length (wire L) \<le> MAX_WIRE"
  shows "fst (Name_wire dc b) = Inl DNSMessageFORMERR"
  using assms by (rule Name_wire_error)

theorem wire_name_refused_witness:
  "fst (Name_wire False \<lparr>ib_data = [0xc0, 0], ib_position = 0\<rparr>) = Inl DNSMessageFORMERR"
proof (rule wire_name_refused)
  have "decode [0xc0, 0] 0 0 = None"
    by code_simp
  then show "\<nexists>L e. names_at (ib_data \<lparr>ib_data = [0xc0, 0], ib_position = 0\<rparr>) (ib_position \<lparr>ib_data = [0xc0, 0], ib_position = 0\<rparr>)
      (ib_position \<lparr>ib_data = [0xc0, 0], ib_position = 0\<rparr>) L e \<and> length (wire L) \<le> MAX_WIRE"
    using names_at_decode by fastforce
qed simp

text \<open>
  C10.  What \<^verbatim>\<open>toWire\<close> writes is read back as the same name, wherever it stands in a message.
\<close>

theorem wire_round_trip:
  assumes "wf_name n" "ib_data b = pre @ Name_toWire n @ rest" "ib_position b = length pre"
  shows "Name_wire False b = (Inr n, b\<lparr>ib_position := length pre + length (Name_toWire n)\<rparr>)"
  using assms by (rule Name_wire_toWire)

theorem wire_round_trip_witness:
  "Name_wire False \<lparr>ib_data = [1, 2] @ Name_toWire (mk_name www_example) @ [3], ib_position = 2\<rparr> =
     (Inr (mk_name www_example), \<lparr>ib_data = [1, 2] @ Name_toWire (mk_name www_example) @ [3], ib_position = 15\<rparr>)"
  using wire_round_trip [OF wf_mk_name [OF example_labels(1)],
      of "\<lparr>ib_data = [1, 2] @ Name_toWire (mk_name www_example) @ [3], ib_position = 2\<rparr>" "[1, 2]" "[3]"]
  by (simp add: Name_toWire_def www_example_def)

section \<open>The text format\<close>

text \<open>
  C11.  Every name has a text, with or without the final dot, and the text is parsed to the same name:
  special and unprintable octets are escaped in a way the parser undoes.
\<close>

theorem text_round_trip:
  assumes "wf_name n"
  shows "\<exists>t. Name_toText omit n = Inr t \<and> Name_text t False = Inr n"
proof -
  obtain L where L: "abs_labels L" "n = mk_name L" "labels_of n = L"
    using assms by (rule wf_nameE)
  then obtain t where t: "Name_toText omit n = Inr t"
    by (simp add: Name_toText_def Name_toText_spec)
  have "map (map (downcase_char False)) L = L"
    by (simp add: downcase_char_def cong: map_cong)
  then show ?thesis
    using t Name_text_toText [OF assms t, of False] L by simp
qed

theorem text_round_trip_witness:
  "\<exists>t. Name_toText False (mk_name [[0x2e, 7], []]) = Inr t \<and> Name_text t False = Inr (mk_name [[0x2e, 7], []])"
  by (rule text_round_trip) (simp add: abs_labels_def valid_label_def name_limits)

text \<open>
  C19.  Whatever text is parsed, an accepted one gives a well-formed name: labels of 1 to 63 octets
  before the root label, at most 255 octets in all, and the table of offsets that belongs to them.
\<close>

theorem text_name_wf:
  assumes "Name_bytes s dc = Inr n"
  shows "wf_name n"
  using assms by (rule Name_bytes_wf)

theorem text_name_wf_witness:
  "Name_bytes [0x61, 0x5c, 0x30, 0x34, 0x36, 0x2e] True = Inr (mk_name [[0x61, 0x2e], []]) \<and> wf_name (mk_name [[0x61, 0x2e], []])"
proof -
  have "Name_bytes [0x61, 0x5c, 0x30, 0x34, 0x36, 0x2e] True = Inr (mk_name [[0x61, 0x2e], []])"
    by code_simp
  then show ?thesis
    using text_name_wf by blast
qed

text \<open>
  C20.  A refused text is refused with one of the exceptions the class documents, or the process is
  ended by the assertion in the parser, which only a text of at least 255 characters can reach.
\<close>

theorem text_name_errors:
  assumes "Name_bytes s dc = Inl e"
  shows "e \<in> parse_errors \<or> e = AssertionFailure \<and> MAX_WIRE \<le> length s"
  using assms by (rule Name_bytes_errors)

theorem text_name_errors_witness:
  "Name_bytes [0x2e, 0x2e] True = Inl EmptyLabel \<and> (EmptyLabel \<in> parse_errors \<or> EmptyLabel = AssertionFailure \<and> MAX_WIRE \<le> length [0x2e, 0x2e :: byte])"
proof -
  have "Name_bytes [0x2e, 0x2e] True = Inl EmptyLabel"
    by code_simp
  then show ?thesis
    using text_name_errors by blast
qed

text \<open>
  C21.  The assertion is reached: where the labels read so far fill 254 octets, one more character
  ends the process instead of being reported as a name that is too long.
\<close>

theorem text_name_aborts:
  assumes "\<forall>l \<in> set K. valid_label l" "length (wire K) = MAX_WIRE - 1" "c \<noteq> 0x5c"
  shows "Name_bytes (text_spec False K @ c # t) dc = Inl AssertionFailure"
  using assms by (rule Name_bytes_abort)

theorem text_name_aborts_witness:
  "Name_bytes (text_spec False (replicate 127 [0x61]) @ [0x61]) False = Inl AssertionFailure"
proof (rule text_name_aborts)
  have "length (wire (replicate n [0x61])) = 2 * n" for n
    by (induction n) auto
  then show "length (wire (replicate 127 [0x61])) = MAX_WIRE - 1"
    by (simp add: name_limits)
qed (auto simp: valid_label_def name_limits)

section \<open>Order and equality\<close>

text \<open>
  C24.  \<^verbatim>\<open>compare\<close> orders names canonically: the sign of its order is that of the lexicographic
  comparison of the labels from the root, octets in lower case.
\<close>

theorem compare_canonical:
  assumes "wf_name n" "wf_name m"
  shows "\<exists>c. Name_compare n m = Inr c \<and>
    (getOrder c < 0 \<longleftrightarrow> name_key (labels_of n) < name_key (labels_of m)) \<and>
    (getOrder c = 0 \<longleftrightarrow> name_key (labels_of n) = name_key (labels_of m)) \<and>
    getCommonLabels c = length (Longest_common_prefix {name_key (labels_of n), name_key (labels_of m)})"
  using Name_compare_key [OF assms] compare_spec_order compare_spec_common
  by (intro exI [of _ "compare_spec (name_key (labels_of n)) (name_key (labels_of m)) 0"]) auto

theorem compare_canonical_witness:
  "\<exists>c. Name_compare (mk_name www_example) (mk_name example) = Inr c \<and>
    (getOrder c < 0 \<longleftrightarrow> name_key (labels_of (mk_name www_example)) < name_key (labels_of (mk_name example))) \<and>
    (getOrder c = 0 \<longleftrightarrow> name_key (labels_of (mk_name www_example)) = name_key (labels_of (mk_name example))) \<and>
    getCommonLabels c = length (Longest_common_prefix {name_key (labels_of (mk_name www_example)), name_key (labels_of (mk_name example))})"
  by (rule compare_canonical) (simp_all add: example_labels)

text \<open>
  C25.  The relation \<^verbatim>\<open>compare\<close> reports: equal, super domain, sub domain, common ancestor.
\<close>

theorem compare_relation:
  assumes "wf_name n" "wf_name m"
  shows "\<exists>c. Name_compare n m = Inr c \<and> getRelation c =
    (if name_key (labels_of n) = name_key (labels_of m) then EQUAL
     else if strict_prefix (name_key (labels_of n)) (name_key (labels_of m)) then SUPERDOMAIN
     else if strict_prefix (name_key (labels_of m)) (name_key (labels_of n)) then SUBDOMAIN
     else if getCommonLabels c = 0 then NONE else COMMONANCESTOR)"
  using Name_compare_key [OF assms] compare_spec_relation
  by (intro exI [of _ "compare_spec (name_key (labels_of n)) (name_key (labels_of m)) 0"]) auto

theorem compare_relation_witness:
  "\<exists>c. Name_compare (mk_name www_example) (mk_name WWW_Example) = Inr c \<and> getRelation c =
    (if name_key (labels_of (mk_name www_example)) = name_key (labels_of (mk_name WWW_Example)) then EQUAL
     else if strict_prefix (name_key (labels_of (mk_name www_example))) (name_key (labels_of (mk_name WWW_Example))) then SUPERDOMAIN
     else if strict_prefix (name_key (labels_of (mk_name WWW_Example))) (name_key (labels_of (mk_name www_example))) then SUBDOMAIN
     else if getCommonLabels c = 0 then NONE else COMMONANCESTOR)"
  by (rule compare_relation) (simp_all add: example_labels)

text \<open>
  C26.  \<^verbatim>\<open>equals\<close>, which compares the stored octets in place, agrees with \<^verbatim>\<open>compare\<close>, and the order
  \<^verbatim>\<open>compare\<close> gives is total on the names up to case: it is antisymmetric and transitive.
\<close>

theorem equals_compare:
  assumes "wf_name n" "wf_name m" "wf_name k"
  shows "Name_equals n m = Inr (name_order n m = 0) \<and> sgn (name_order m n) = - sgn (name_order n m) \<and>
    (name_order n m \<le> 0 \<longrightarrow> name_order m k \<le> 0 \<longrightarrow> name_order n k \<le> 0)"
  using Name_equals_labels [OF assms(1,2)] canonical.cmp_zero [OF assms(1,2)] canonical.cmp_antisym [OF assms(1,2)]
    canonical.cmp_trans(1) [OF assms] by auto

theorem equals_compare_witness:
  "Name_equals (mk_name www_example) (mk_name WWW_Example) = Inr (name_order (mk_name www_example) (mk_name WWW_Example) = 0)"
  using equals_compare [of "mk_name www_example" "mk_name WWW_Example" "mk_name example"] by (simp add: example_labels)

section \<open>Taking names apart\<close>

text \<open>
  C37.  Splitting a name and concatenating the parts gives the name back, for every level.
\<close>

theorem split_concatenate:
  assumes "abs_labels L" "0 < k" "k < length L"
  shows "\<exists>a b. Name_split 0 k (mk_name L) = Inr a \<and> Name_split_level k (mk_name L) = Inr b \<and> concatenate a b = Inr (mk_name L)"
proof -
  obtain K where K: "L = K @ [[]]" "\<forall>l \<in> set K. valid_label l"
    using assms(1) by (rule abs_labelsE)
  let ?A = "take k K @ [[]]" and ?B = "drop k K @ [[]]"
  have a: "Name_split 0 k (mk_name L) = Inr (mk_name ?A)" "abs_labels ?A"
    using split_labels [OF assms(1,2), of 0] assms(3) K(1) by auto
  have b: "Name_split_level k (mk_name L) = Inr (mk_name ?B)" "abs_labels ?B"
    using split_labels [OF assms(1), of "length L - k" k] assms(3) K(1) by (auto simp: Name_split_level_def)
  have "butlast ?A @ ?B = L"
    using K(1) by (metis append.assoc append_take_drop_id butlast_snoc)
  then have "concatenate (mk_name ?A) (mk_name ?B) = Inr (mk_name L)"
    using concatenate_labels(1) [OF a(2) b(2)] abs_labels_lengths(2) [OF assms(1)] by simp
  then show ?thesis
    using a(1) b(1) by blast
qed

theorem split_concatenate_witness:
  "\<exists>a b. Name_split 0 1 (mk_name www_example) = Inr a \<and> Name_split_level 1 (mk_name www_example) = Inr b \<and>
    concatenate a b = Inr (mk_name www_example)"
  by (rule split_concatenate [OF example_labels(1)]) (simp_all add: www_example_def)

text \<open>
  C38.  \<^verbatim>\<open>reverse\<close> reverses the labels before the root, and twice is the identity.
\<close>

theorem reverse_involution:
  assumes "abs_labels L"
  shows "Name_reverse (mk_name L) = mk_name (rev (butlast L) @ [[]]) \<and> Name_reverse (Name_reverse (mk_name L)) = mk_name L"
proof -
  obtain K where K: "L = K @ [[]]"
    using assms by (rule abs_labelsE)
  have "Name_reverse (mk_name L) = mk_name (rev (butlast L) @ [[]])"
    by (rule reverse_labels(1) [OF assms])
  then show ?thesis
    using reverse_labels(1) [OF reverse_labels(2) [OF assms]] K by simp
qed

theorem reverse_involution_witness:
  "Name_reverse (Name_reverse (mk_name www_example)) = mk_name www_example"
  using reverse_involution [OF example_labels(1)] by (rule conjunct2)

text \<open>
  C39.  \<^verbatim>\<open>downcase\<close> keeps the name equal, and a name in lower case stays as it is.
\<close>

theorem downcase_equal:
  assumes "abs_labels L"
  shows "\<exists>n. downcase (mk_name L) = Inr n \<and> wf_name n \<and> Name_equals (mk_name L) n = Inr True \<and> downcase n = Inr n"
proof -
  let ?D = "map (map maptolower) L"
  note d = downcase_labels [OF assms]
  have "name_key L = name_key ?D"
    by (simp add: name_key_def rev_map comp_def)
  then have "Name_equals (mk_name L) (mk_name ?D) = Inr True"
    using Name_equals_labels [of "mk_name L" "mk_name ?D"] assms d(2) by simp
  moreover have "downcase (mk_name ?D) = Inr (mk_name ?D)"
    using downcase_labels(1) [OF d(2)] by (simp add: comp_def)
  ultimately show ?thesis
    using d by auto
qed

theorem downcase_equal_witness:
  "\<exists>n. downcase (mk_name WWW_Example) = Inr n \<and> wf_name n \<and> Name_equals (mk_name WWW_Example) n = Inr True \<and> downcase n = Inr n"
  by (rule downcase_equal [OF example_labels(2)])

section \<open>Buffers\<close>

text \<open>
  What is written to an output buffer is appended to its contents whatever its capacity was, and
  an input buffer on these octets reads the integer back.
\<close>

theorem buffer_round_trip:
  assumes "wf_ob ob" "ob_contents ob = map Some xs"
  shows "\<exists>ys. ob_contents (writeUint32 x ob) = map Some (xs @ ys) \<and> wf_ob (writeUint32 x ob) \<and>
    readUint32 \<lparr>ib_data = xs @ ys, ib_position = length xs\<rparr> = (Inr x, \<lparr>ib_data = xs @ ys, ib_position = length xs + 4\<rparr>)"
proof (intro exI conjI)
  let ?ys = "[ucast (drop_bit 24 (x AND 0xff000000)), ucast (drop_bit 16 (x AND 0x00ff0000)),
      ucast (drop_bit 8 (x AND 0x0000ff00)), ucast (x AND 0x000000ff)] :: byte list"
  show "ob_contents (writeUint32 x ob) = map Some (xs @ ?ys)" "wf_ob (writeUint32 x ob)"
    using writeUint32_contents [OF assms(1), of x] assms(2) by simp_all
  show "readUint32 \<lparr>ib_data = xs @ ?ys, ib_position = length xs\<rparr> = (Inr x, \<lparr>ib_data = xs @ ?ys, ib_position = length xs + 4\<rparr>)"
    using readUint32_written [of "\<lparr>ib_data = xs @ ?ys, ib_position = length xs\<rparr>" xs x "[]"] by simp
qed

theorem buffer_round_trip_witness:
  "\<exists>ys. ob_contents (writeUint32 0x01020304 (OutputBuffer 0)) = map Some ([] @ ys) \<and> wf_ob (writeUint32 0x01020304 (OutputBuffer 0)) \<and>
    readUint32 \<lparr>ib_data = [] @ ys, ib_position = length ([] :: byte list)\<rparr> =
      (Inr 0x01020304, \<lparr>ib_data = [] @ ys, ib_position = length ([] :: byte list) + 4\<rparr>)"
  by (rule buffer_round_trip) (simp_all add: OutputBuffer_def wf_ob_def ob_contents_def getCapacity_def)

end
