(* ===== verification/Dns_Renderer.thy ===== *)
theory Dns_Renderer
  imports Dns_NameWire
begin

text \<open>
  The message renderer of \<^verbatim>\<open>src/lib/dns/messagerenderer.cc\<close>: it writes a message into an output buffer and
  compresses names with a hash table of the names it has written.

  The hash of a label sequence is computed with \<^verbatim>\<open>boost::hash_combine\<close>, the parameter \<open>H\<close>.  The buffer the
  renderer writes into is its own or one that was set by the user of the class; \<open>user_buffer\<close> is the latter.
\<close>

section \<open>Data members\<close>

definition COMPRESS_POINTER_MARK8 :: byte where "COMPRESS_POINTER_MARK8 = 0xc0"
definition COMPRESS_POINTER_MARK16 :: "16 word" where "COMPRESS_POINTER_MARK16 = 0xc000"
definition MAX_COMPRESS_POINTER :: nat where "MAX_COMPRESS_POINTER = 0x3fff"
definition BUCKETS :: nat where "BUCKETS = 64"
definition NO_OFFSET :: "16 word" where "NO_OFFSET = 65535"

lemmas renderer_consts = COMPRESS_POINTER_MARK8_def COMPRESS_POINTER_MARK16_def MAX_COMPRESS_POINTER_def BUCKETS_def NO_OFFSET_def

datatype compress_mode = CASE_INSENSITIVE | CASE_SENSITIVE

type_synonym hash = "64 word"

record offset_item =
  item_hash :: hash
  item_pos :: "16 word"
  item_len :: "16 word"

definition OffsetItem :: "hash \<Rightarrow> nat \<Rightarrow> nat \<Rightarrow> offset_item" where
  "OffsetItem h pos len = \<lparr>item_hash = h, item_pos = word_of_nat pos, item_len = word_of_nat len\<rparr>"

record renderer =
  local_buffer :: output_buffer
  user_buffer :: "output_buffer option"
  rd_table :: "offset_item list list"
  msglength_limit :: "16 word"
  rd_truncated :: bool
  rd_compress_mode :: compress_mode
  seq_hashes :: "hash option list"

definition MessageRenderer :: renderer where
  "MessageRenderer =
     \<lparr>local_buffer = OutputBuffer 0, user_buffer = None, rd_table = replicate BUCKETS [], msglength_limit = 512,
      rd_truncated = False, rd_compress_mode = CASE_INSENSITIVE, seq_hashes = replicate MAX_LABELS None\<rparr>"

section \<open>The abstract renderer: one buffer\<close>

definition getBuffer :: "renderer \<Rightarrow> output_buffer" where
  "getBuffer r = (case user_buffer r of None \<Rightarrow> local_buffer r | Some b \<Rightarrow> b)"

definition onBuffer :: "(output_buffer \<Rightarrow> output_buffer) \<Rightarrow> renderer \<Rightarrow> renderer" where
  "onBuffer f r =
     (case user_buffer r of None \<Rightarrow> r\<lparr>local_buffer := f (local_buffer r)\<rparr> | Some b \<Rightarrow> r\<lparr>user_buffer := Some (f b)\<rparr>)"

definition onBufferE :: "(output_buffer, 'e, 'a) exec \<Rightarrow> (renderer, 'e, 'a) exec" where
  "onBufferE m r = (case m (getBuffer r) of (res, b) \<Rightarrow> (res, onBuffer (\<lambda>_. b) r))"

definition rd_getLength :: "renderer \<Rightarrow> nat" where
  "rd_getLength r = ob_getLength (getBuffer r)"

definition rd_skip :: "nat \<Rightarrow> renderer \<Rightarrow> renderer" where
  "rd_skip len = onBuffer (ob_skip len)"

definition rd_trim :: "nat \<Rightarrow> (renderer, bundy_exn, unit) exec" where
  "rd_trim len = onBufferE (ob_trim len)"

definition rd_writeUint8 :: "byte \<Rightarrow> renderer \<Rightarrow> renderer" where
  "rd_writeUint8 x = onBuffer (writeUint8 x)"

definition rd_writeUint16 :: "16 word \<Rightarrow> renderer \<Rightarrow> renderer" where
  "rd_writeUint16 x = onBuffer (writeUint16 x)"

definition rd_writeUint16At :: "16 word \<Rightarrow> nat \<Rightarrow> (renderer, bundy_exn, unit) exec" where
  "rd_writeUint16At x pos = onBufferE (writeUint16At x pos)"

definition rd_writeUint32 :: "32 word \<Rightarrow> renderer \<Rightarrow> renderer" where
  "rd_writeUint32 x = onBuffer (writeUint32 x)"

definition rd_writeData :: "byte list \<Rightarrow> renderer \<Rightarrow> renderer" where
  "rd_writeData xs = onBuffer (writeData xs)"

section \<open>State of the renderer\<close>

definition rd_clear :: "renderer \<Rightarrow> renderer" where
  "rd_clear r = (onBuffer ob_clear r)
     \<lparr>msglength_limit := 512, rd_truncated := False, rd_compress_mode := CASE_INSENSITIVE,
      rd_table := map (\<lambda>_. []) (rd_table r)\<rparr>"

definition getLengthLimit :: "renderer \<Rightarrow> nat" where
  "getLengthLimit r = unat (msglength_limit r)"

definition setLengthLimit :: "nat \<Rightarrow> renderer \<Rightarrow> renderer" where
  "setLengthLimit len r = r\<lparr>msglength_limit := word_of_nat len\<rparr>"

definition isTruncated :: "renderer \<Rightarrow> bool" where
  "isTruncated r = rd_truncated r"

definition setTruncated :: "renderer \<Rightarrow> renderer" where
  "setTruncated r = r\<lparr>rd_truncated := True\<rparr>"

definition getCompressMode :: "renderer \<Rightarrow> compress_mode" where
  "getCompressMode r = rd_compress_mode r"

definition setCompressMode :: "compress_mode \<Rightarrow> (renderer, bundy_exn, unit) exec" where
  "setCompressMode mode r =
     (if rd_getLength r \<noteq> 0 then raise InvalidParameter r else (Inr (), r\<lparr>rd_compress_mode := mode\<rparr>))"

definition setBuffer :: "output_buffer option \<Rightarrow> (renderer, bundy_exn, unit) exec" where
  "setBuffer buffer r =
     (if buffer \<noteq> None \<and> rd_getLength r \<noteq> 0 then raise InvalidParameter r
      else if buffer = None \<and> user_buffer r = None then raise InvalidParameter r
      else if buffer = None then (Inr (), rd_clear (r\<lparr>user_buffer := None\<rparr>))
      else (Inr (), r\<lparr>user_buffer := buffer\<rparr>))"

section \<open>The table of names\<close>

text \<open>The loop of \<^verbatim>\<open>nextPosition\<close>, with the counter that its assertion bounds.\<close>

function follow_pointers :: "output_buffer \<Rightarrow> 16 word \<Rightarrow> nat \<Rightarrow> bundy_exn + 16 word" where
  "follow_pointers b pos i =
     bindS (ob_at (unat pos) b) (\<lambda>c.
       if c AND COMPRESS_POINTER_MARK8 = COMPRESS_POINTER_MARK8 then
         bindS (ob_at (unat pos + 1) b) (\<lambda>c2.
           if \<not> i + 2 < MAX_WIRE then Inl AssertionFailure
           else follow_pointers b (word_of_nat (unat (c AND NOT COMPRESS_POINTER_MARK8) * 256 + unat c2)) (i + 2))
       else Inr pos)"
  by pat_completeness auto
termination
  by (relation "measure (\<lambda>(b, pos, i). MAX_WIRE - i)") auto

declare follow_pointers.simps [simp del]

definition nextPosition :: "output_buffer \<Rightarrow> 16 word \<Rightarrow> 16 word \<Rightarrow> bundy_exn + 16 word \<times> 16 word" where
  "nextPosition b pos llen =
     (if llen = 0 then
        bindS (follow_pointers b pos 0) (\<lambda>pos'. bindS (ob_at (unat pos') b) (\<lambda>c. Inr (pos', ucast c)))
      else Inr (pos, llen - 1))"

text \<open>The loop of \<^verbatim>\<open>NameCompare::operator()\<close>, with the number of octets left.\<close>

fun compare_loop :: "bool \<Rightarrow> output_buffer \<Rightarrow> nat \<Rightarrow> 16 word \<Rightarrow> 16 word \<Rightarrow> (input_buffer, bundy_exn, bool) exec" where
  "compare_loop cs b 0 pos llen = ret True"
| "compare_loop cs b (Suc k) pos llen =
     bindE (liftS (nextPosition b pos llen)) (\<lambda>(pos', llen').
     bindE (liftS (ob_at (unat pos') b)) (\<lambda>ch1.
     bindE readUint8 (\<lambda>ch2.
       if fold_case cs ch1 \<noteq> fold_case cs ch2 then ret False else compare_loop cs b k (pos' + 1) llen')))"

definition NameCompare :: "bool \<Rightarrow> output_buffer \<Rightarrow> hash \<Rightarrow> offset_item \<Rightarrow> (input_buffer, bundy_exn, bool) exec" where
  "NameCompare cs b h item name_buf =
     (if item_hash item \<noteq> h \<or> unat (item_len item) \<noteq> ib_getLength name_buf then (Inr False, name_buf)
      else thenE (setPosition 0) (compare_loop cs b (unat (item_len item)) (item_pos item) 0) name_buf)"

text \<open>\<^verbatim>\<open>find_if\<close>\<close>

fun find_item :: "bool \<Rightarrow> output_buffer \<Rightarrow> hash \<Rightarrow> offset_item list \<Rightarrow> (input_buffer, bundy_exn, offset_item option) exec" where
  "find_item cs b h [] = ret None"
| "find_item cs b h (item # items) =
     bindE (NameCompare cs b h item) (\<lambda>eq. if eq then ret (Some item) else find_item cs b h items)"

definition bucket_id :: "hash \<Rightarrow> nat" where
  "bucket_id h = unat h mod BUCKETS"

definition findOffset :: "bool \<Rightarrow> hash \<Rightarrow> renderer \<Rightarrow> (input_buffer, bundy_exn, 16 word) exec" where
  "findOffset cs h r =
     bindE (find_item cs (getBuffer r) h (rev (rd_table r ! bucket_id h))) (\<lambda>found.
       ret (case found of Some item \<Rightarrow> item_pos item | None \<Rightarrow> NO_OFFSET))"

definition addOffset :: "hash \<Rightarrow> nat \<Rightarrow> nat \<Rightarrow> renderer \<Rightarrow> renderer" where
  "addOffset h offset len r =
     r\<lparr>rd_table := (rd_table r)[bucket_id h := rd_table r ! bucket_id h @ [OffsetItem h offset len]]\<rparr>"

section \<open>Writing a name\<close>

definition getHash :: "(hash \<Rightarrow> byte \<Rightarrow> hash) \<Rightarrow> bool \<Rightarrow> label_sequence \<Rightarrow> bundy_exn + hash" where
  "getHash H cs = getHashHelper H cs 0 16"

text \<open>
  The search: \<open>k\<close> iterations are left, \<open>i\<close> is \<^verbatim>\<open>nlabels_uncomp\<close>.  The result is the final value of it and the offset that was found.
\<close>

fun search_loop :: "(hash \<Rightarrow> byte \<Rightarrow> hash) \<Rightarrow> nat \<Rightarrow> nat \<Rightarrow> label_sequence \<Rightarrow> (renderer, bundy_exn, nat \<times> 16 word) exec" where
  "search_loop H 0 i sequence = ret (i, NO_OFFSET)"
| "search_loop H (Suc k) i sequence =
     bindE (liftS (if i > 0 then stripLeft 1 sequence else Inr sequence)) (\<lambda>sequence.
     bindE (liftS (getData sequence)) (\<lambda>(data, data_len).
       if data_len = 1 then ret (i + 1, NO_OFFSET)
       else
         (\<lambda>r.
           let cs = (rd_compress_mode r = CASE_SENSITIVE) in
           bindE (liftS (if i < length (seq_hashes r) then getHash H cs sequence else Inl StdOutOfRange)) (\<lambda>h.
           thenE (modifyE (\<lambda>r. r\<lparr>seq_hashes := (seq_hashes r)[i := Some h]\<rparr>))
           (bindE (liftS (rd_range data 0 data_len)) (\<lambda>octets. \<lambda>r.
             case findOffset cs h r (InputBuffer octets) of
               (Inl e, _) \<Rightarrow> (Inl e, r)
             | (Inr off, _) \<Rightarrow> if off \<noteq> NO_OFFSET then (Inr (i, off), r) else search_loop H k (i + 1) sequence r))) r)))"

text \<open>The loop that records the names whose labels have been written; \<open>k\<close> iterations are left.\<close>

fun record_loop :: "nat \<Rightarrow> nat \<Rightarrow> nat \<Rightarrow> nat \<Rightarrow> (renderer, bundy_exn, unit) exec" where
  "record_loop 0 i offset seqlen r = (Inr (), r)"
| "record_loop (Suc k) i offset seqlen r =
     (case ob_at offset (getBuffer r) of
        Inl e \<Rightarrow> (Inl e, r)
      | Inr label_len \<Rightarrow>
          if label_len = 0 then (Inr (), r)
          else if offset > MAX_COMPRESS_POINTER then (Inr (), r)
          else case seq_hashes r ! i of
            None \<Rightarrow> (Inl UndefinedRead, r)
          | Some h \<Rightarrow>
              record_loop k (i + 1) (offset + (unat label_len + 1)) (seqlen - (unat label_len + 1)) (addOffset h offset seqlen r))"

definition write_uncompressed :: "label_sequence \<Rightarrow> bool \<Rightarrow> nat \<Rightarrow> (renderer, bundy_exn, unit) exec" where
  "write_uncompressed ls compress nlabels_uncomp =
     (if nlabels_uncomp > 0 \<or> \<not> compress then
        bindE (liftS (if compress \<and> getLabelCount ls > nlabels_uncomp
                      then stripRight (getLabelCount ls - nlabels_uncomp) ls else Inr ls)) (\<lambda>uncomp_sequence.
        bindE (liftS (getData uncomp_sequence)) (\<lambda>(data, data_len).
        bindE (liftS (rd_range data 0 data_len)) (\<lambda>octets. modifyE (rd_writeData octets))))
      else ret ())"

definition write_pointer :: "bool \<Rightarrow> 16 word \<Rightarrow> (renderer, bundy_exn, unit) exec" where
  "write_pointer compress ptr_offset =
     (if compress \<and> ptr_offset \<noteq> NO_OFFSET then modifyE (rd_writeUint16 (ptr_offset OR COMPRESS_POINTER_MARK16)) else ret ())"

definition writeName_ls :: "(hash \<Rightarrow> byte \<Rightarrow> hash) \<Rightarrow> label_sequence \<Rightarrow> bool \<Rightarrow> (renderer, bundy_exn, unit) exec" where
  "writeName_ls H ls compress =
     bindE (search_loop H (getLabelCount ls) 0 ls) (\<lambda>(nlabels_uncomp, ptr_offset). \<lambda>r.
       let offset = rd_getLength r in
       thenE (write_uncompressed ls compress nlabels_uncomp)
       (thenE (write_pointer compress ptr_offset)
       (bindE (liftS (getDataLength ls)) (\<lambda>seqlen. record_loop nlabels_uncomp 0 offset seqlen))) r)"

definition writeName :: "(hash \<Rightarrow> byte \<Rightarrow> hash) \<Rightarrow> name \<Rightarrow> bool \<Rightarrow> (renderer, bundy_exn, unit) exec" where
  "writeName H name compress = writeName_ls H (LabelSequence name) compress"

end
