(* ===== verification/Dns_Compression.thy ===== *)
theory Dns_Compression
  imports Dns_Renderer
begin

text \<open>
  Correctness of name compression: the names the renderer writes, compressed or not, are the names the wire parser reads.
\<close>

section \<open>Names in a partly written message\<close>

text \<open>
  \<open>M\<close> holds the octets of a message that belong to names and \<open>None\<close> elsewhere.  \<open>linked M b pos L e\<close>: the octets from \<open>pos\<close> to
  \<open>e\<close> are a name with the labels \<open>L\<close>, in which every pointer leads to the first octet of a label, before \<open>b\<close> and before the pointers followed so far.
\<close>

definition octets_at :: "byte option list \<Rightarrow> nat \<Rightarrow> byte list \<Rightarrow> bool" where
  "octets_at M pos xs \<longleftrightarrow> (\<forall>i < length xs. pos + i < length M \<and> M ! (pos + i) = Some (xs ! i))"

inductive linked :: "byte option list \<Rightarrow> nat \<Rightarrow> nat \<Rightarrow> label list \<Rightarrow> nat \<Rightarrow> bool" for M where
  root: "octets_at M pos [0] \<Longrightarrow> linked M b pos [[]] (pos + 1)"
| label: "octets_at M pos (word_of_nat (length l) # l) \<Longrightarrow> valid_label l \<Longrightarrow> linked M b (pos + 1 + length l) L e \<Longrightarrow> linked M b pos (l # L) e"
| pointer: "octets_at M pos [hi, lo] \<Longrightarrow> 192 \<le> unat hi \<Longrightarrow> pointer_target hi lo = ptr \<Longrightarrow> ptr < b \<Longrightarrow>
    linked M ptr ptr (l # L) e \<Longrightarrow> octets_at M ptr (word_of_nat (length l) # l) \<Longrightarrow> linked M b pos (l # L) (pos + 2)"

lemma octets_at_Nil [simp]: "octets_at M pos []"
  by (simp add: octets_at_def)

lemma octets_at_Cons: "octets_at M pos (x # xs) \<longleftrightarrow> pos < length M \<and> M ! pos = Some x \<and> octets_at M (pos + 1) xs"
  by (auto simp: octets_at_def nth_Cons less_Suc_eq_0_disj split: nat.split_asm)

lemma octets_at_append: "octets_at M pos (xs @ ys) \<longleftrightarrow> octets_at M pos xs \<and> octets_at M (pos + length xs) ys"
  by (induction xs arbitrary: pos) (auto simp: octets_at_Cons)

text \<open>More octets of names.\<close>

definition extends :: "byte option list \<Rightarrow> byte option list \<Rightarrow> bool" where
  "extends M M' \<longleftrightarrow> length M \<le> length M' \<and> (\<forall>i < length M. M ! i \<noteq> None \<longrightarrow> M' ! i = M ! i)"

lemma extends_refl [simp]: "extends M M"
  by (simp add: extends_def)

lemma extends_trans: "extends M N \<Longrightarrow> extends N K \<Longrightarrow> extends M K"
  by (auto simp: extends_def)

lemma extends_append [simp]: "extends M (M @ N)"
  by (simp add: extends_def nth_append)

lemma octets_at_mono: "octets_at M pos xs \<Longrightarrow> extends M M' \<Longrightarrow> octets_at M' pos xs"
  by (fastforce simp: octets_at_def extends_def)

lemma linked_mono: "linked M b pos L e \<Longrightarrow> extends M M' \<Longrightarrow> linked M' b pos L e"
  by (induction rule: linked.induct) (blast intro: linked.intros octets_at_mono)+

lemma linked_bound: "linked M b pos L e \<Longrightarrow> b \<le> b' \<Longrightarrow> linked M b' pos L e"
  by (induction arbitrary: b' rule: linked.induct) (blast intro: linked.intros order_less_le_trans)+

lemma linked_labels: "linked M b pos L e \<Longrightarrow> L \<noteq> [] \<and> last L = [] \<and> (\<forall>l \<in> set (butlast L). valid_label l)"
  by (induction rule: linked.induct) auto

lemma linked_ConsE:
  assumes "linked M b pos (l # L) e" "octets_at M pos [word_of_nat (length l)]" "valid_label l"
  shows "linked M b (pos + 1 + length l) L e \<and> octets_at M pos (word_of_nat (length l) # l)"
  using assms(1)
proof cases
  case root
  then show ?thesis using assms(3) by (simp add: valid_label_def)
next
  case label
  then show ?thesis by simp
next
  case (pointer hi lo ptr e')
  then have "word_of_nat (length l) = hi"
    using assms(2) by (simp add: octets_at_Cons)
  then have "unat hi = length l"
    using assms(3) unat_of_nat_byte [of "length l"] by (auto simp: valid_label_def name_limits)
  then show ?thesis
    using pointer assms(3) by (simp add: valid_label_def name_limits)
qed

text \<open>Such a name is what the wire parser reads.\<close>

lemma octets_at_msg: "octets_at (map Some msg) pos xs \<longleftrightarrow> pos + length xs \<le> length msg \<and> take (length xs) (drop pos msg) = xs \<or> xs = []"
proof (induction xs arbitrary: pos)
  case (Cons x xs)
  show ?case
  proof (cases "pos < length msg")
    case True
    then show ?thesis
      using Cons.IH [of "pos + 1"]
      by (cases xs) (auto simp: octets_at_Cons Cons_nth_drop_Suc [symmetric, OF True])
  qed (simp add: octets_at_Cons)
qed simp

lemma octets_at_msg_nth: "octets_at (map Some msg) pos (x # xs) \<Longrightarrow> pos < length msg \<and> msg ! pos = x"
  by (auto simp: octets_at_Cons)

lemma linked_names_at: "linked (map Some msg) b pos L e \<Longrightarrow> names_at msg b pos L e"
proof (induction rule: linked.induct)
  case (root pos b)
  then show ?case
    using names_at.root [of pos msg b] by (simp add: octets_at_msg_nth)
next
  case (label pos l b L e)
  have u: "unat (word_of_nat (length l) :: byte) = length l"
    using label(2) by (intro unat_of_nat_byte) (simp add: valid_label_def name_limits)
  have m: "msg ! pos = word_of_nat (length l)" "pos + 1 + length l \<le> length msg" "take (length l) (drop (pos + 1) msg) = l"
    using label(1,2) octets_at_msg [of msg "pos + 1" l] by (auto simp: octets_at_Cons valid_label_def)
  then show ?case
    using names_at.label [of msg pos b L e] label(2,4) u by (auto simp: valid_label_def Suc_le_eq)
next
  case (pointer pos hi lo ptr b l L e)
  then show ?case
    using names_at.pointer [of msg pos ptr b "l # L" e] by (auto simp: octets_at_Cons)
qed

section \<open>Comparison with a stored name\<close>

definition marks :: "byte option list \<Rightarrow> output_buffer \<Rightarrow> bool" where
  "marks M b \<longleftrightarrow> wf_ob b \<and> length M = ob_size b \<and> extends M (ob_contents b)"

lemma marks_ob_at: "marks M b \<Longrightarrow> octets_at M pos (x # xs) \<Longrightarrow> ob_at pos b = Inr x"
  by (auto simp: marks_def extends_def octets_at_Cons ob_at_def ob_contents_def wf_ob_def getCapacity_def split: option.splits)

lemma compare_step:
  assumes "nextPosition b pos llen = Inr (pos', llen')" "ob_at (unat pos') b = Inr ch1" "q < length d"
  shows "compare_loop cs b (Suc k) pos llen \<lparr>ib_data = d, ib_position = q\<rparr> =
    (if fold_case cs ch1 = fold_case cs (d ! q) then compare_loop cs b k (pos' + 1) llen' \<lparr>ib_data = d, ib_position = q + 1\<rparr>
     else (Inr False, \<lparr>ib_data = d, ib_position = q + 1\<rparr>))"
  using assms by (simp add: bindE_def liftS_def readUint8_def ret_def)

lemma compare_chars:
  assumes "marks M b"
  shows "octets_at M (unat p) xs \<Longrightarrow> unat p + length xs < 65536 \<Longrightarrow> unat llen = length xs \<Longrightarrow> drop q d = ys @ zs \<Longrightarrow> length ys = length xs \<Longrightarrow>
    fst (compare_loop cs b (length xs + k) p llen \<lparr>ib_data = d, ib_position = q\<rparr>) =
      (if map (fold_case cs) xs = map (fold_case cs) ys
       then fst (compare_loop cs b k (p + word_of_nat (length xs)) 0 \<lparr>ib_data = d, ib_position = q + length xs\<rparr>)
       else Inr False)"
proof (induction xs arbitrary: p llen q ys)
  case Nil
  then show ?case
    by (simp add: unat_eq_0)
next
  case (Cons x xs)
  obtain y ys' where ys: "ys = y # ys'"
    using Cons.prems(5) by (cases ys) auto
  have q: "q < length d" "d ! q = y" "drop (q + 1) d = ys' @ zs"
    using Cons.prems(4) ys
    by (auto simp: nth_via_drop) (metis drop_eq_Nil list.distinct(1) not_le_imp_less, metis drop_Suc list.sel(3) tl_drop)
  have l: "llen \<noteq> 0" "unat (llen - 1) = length xs"
    using Cons.prems(3) unat_minus_one [of llen] by fastforce+
  have p: "unat (p + 1) = unat p + 1"
    using Cons.prems(2) by (subst unat_add_lem [THEN iffD1]) auto
  have "octets_at M (unat (p + 1)) xs" "unat (p + 1) + length xs < 65536"
    using Cons.prems p by (simp_all add: octets_at_Cons)
  note IH = Cons.IH [OF this l(2) q(3)]
  have n: "nextPosition b p llen = Inr (p, llen - 1)" "ob_at (unat p) b = Inr x"
    using l marks_ob_at [OF assms Cons.prems(1)] by (simp_all add: nextPosition_def)
  show ?case
    using compare_step [OF n q(1), of cs "length xs + k"] IH Cons.prems(5) q(2) ys by (simp add: add.assoc)
qed

lemma pointer_target_less: "192 \<le> unat hi \<Longrightarrow> pointer_target hi lo \<le> MAX_COMPRESS_POINTER"
  using unat_byte_less [of hi] unat_byte_less [of lo] unfolding pointer_target_def MAX_COMPRESS_POINTER_def by linarith

lemma follow_label:
  assumes "ob_at (unat pos) b = Inr c" "unat c \<le> MAX_LABELLEN"
  shows "follow_pointers b pos i = Inr pos"
  using assms pointer_mark [of c] by (subst follow_pointers.simps) (simp add: renderer_consts name_limits)

lemma follow_pointer:
  assumes "ob_at (unat pos) b = Inr hi" "ob_at (unat pos + 1) b = Inr lo" "192 \<le> unat hi"
    and "ob_at (pointer_target hi lo) b = Inr c" "unat c \<le> MAX_LABELLEN"
  shows "follow_pointers b pos 0 = Inr (word_of_nat (pointer_target hi lo))"
proof -
  have "unat (word_of_nat (pointer_target hi lo) :: 16 word) = pointer_target hi lo"
    using pointer_target_less [OF assms(3), of lo] by (simp add: unat_of_nat take_bit_eq_mod MAX_COMPRESS_POINTER_def)
  then show ?thesis
    using assms pointer_mark [of hi] pointer_high [of hi] follow_label [of "word_of_nat (pointer_target hi lo)" b c]
    by (subst follow_pointers.simps) (simp add: renderer_consts name_limits pointer_target_def)
qed

lemma fold_case_length: "n \<le> MAX_LABELLEN \<Longrightarrow> fold_case cs (word_of_nat n) = word_of_nat n"
  by (simp add: fold_case_def maptolower_length_byte)

lemma compare_linked:
  assumes "marks M b"
  shows "linked M bd pos L e \<Longrightarrow> unat p = pos \<Longrightarrow> pos + length (wire L) < 65536 \<Longrightarrow> length (wire L) \<le> MAX_WIRE \<Longrightarrow>
    drop q d = ys @ zs \<Longrightarrow> length ys = length (wire L) \<Longrightarrow>
    fst (compare_loop cs b (length (wire L)) p 0 \<lparr>ib_data = d, ib_position = q\<rparr>) = Inr (map (fold_case cs) (wire L) = map (fold_case cs) ys)"
proof (induction arbitrary: p q ys rule: linked.induct)
  case (root pos bd)
  obtain y where ys: "ys = [y]"
    using root.prems(5) by (auto simp: length_Suc_conv)
  have q: "q < length d" "d ! q = y"
    using root.prems(4) ys by (auto simp: nth_via_drop) (metis drop_eq_Nil list.distinct(1) not_le_imp_less)
  have "ob_at (unat p) b = Inr 0"
    using root marks_ob_at [OF assms] by blast
  then have "nextPosition b p 0 = Inr (p, 0)" "ob_at (unat p) b = Inr 0"
    by (simp_all add: nextPosition_def follow_label)
  from compare_step [OF this q(1), of cs 0] show ?case
    using q ys by (simp add: ret_def)
next
  case (label pos l bd L e)
  have len: "unat (word_of_nat (length l) :: byte) = length l" "length l \<le> MAX_LABELLEN"
    using label(2) by (auto intro!: unat_of_nat_byte simp: valid_label_def name_limits)
  obtain y ys1 ys2 where ys: "ys = y # ys1 @ ys2" "length ys1 = length l" "length ys2 = length (wire L)"
  proof -
    obtain y ys' where "ys = y # ys'" "length ys' = length l + length (wire L)"
      using label.prems(5) by (cases ys) auto
    then show thesis
      using that [of y "take (length l) ys'" "drop (length l) ys'"] by simp
  qed
  have q: "q < length d" "d ! q = y" "drop (q + 1) d = ys1 @ ys2 @ zs" "drop (q + 1 + length l) d = ys2 @ zs"
    using label.prems(4) ys
    by (auto simp: nth_via_drop) (metis drop_eq_Nil list.distinct(1) not_le_imp_less, metis drop_Suc list.sel(3) tl_drop,
        metis add.commute append_eq_conv_conj drop_Suc drop_drop list.sel(3) plus_1_eq_Suc tl_drop)
  have at: "ob_at (unat p) b = Inr (word_of_nat (length l))"
    using label.hyps(1) label.prems(1) marks_ob_at [OF assms] by blast
  have n: "nextPosition b p 0 = Inr (p, word_of_nat (length l))"
    using at len by (simp add: nextPosition_def follow_label unsigned_of_nat)
  have p1: "unat (p + 1) = pos + 1" "unat (p + 1 + word_of_nat (length l)) = pos + 1 + length l"
    using label.prems(1,2) by (simp_all add: unat_word_ariths unat_of_nat take_bit_eq_mod)
  have "fst (compare_loop cs b (length (wire (l # L))) p 0 \<lparr>ib_data = d, ib_position = q\<rparr>) =
    (if fold_case cs (word_of_nat (length l)) = fold_case cs y
     then fst (compare_loop cs b (length l + length (wire L)) (p + 1) (word_of_nat (length l)) \<lparr>ib_data = d, ib_position = q + 1\<rparr>) else Inr False)"
    using compare_step [OF n at q(1), of cs "length l + length (wire L)"] q(2) by simp
  also have "fst (compare_loop cs b (length l + length (wire L)) (p + 1) (word_of_nat (length l)) \<lparr>ib_data = d, ib_position = q + 1\<rparr>) =
    (if map (fold_case cs) l = map (fold_case cs) ys1
     then fst (compare_loop cs b (length (wire L)) (p + 1 + word_of_nat (length l)) 0 \<lparr>ib_data = d, ib_position = q + 1 + length l\<rparr>) else Inr False)"
    using label(1) label.prems(2) p1(1) q(3) ys(2) len
    by (intro compare_chars [OF assms]) (auto simp: octets_at_Cons unat_of_nat take_bit_eq_mod name_limits)
  also have "fst (compare_loop cs b (length (wire L)) (p + 1 + word_of_nat (length l)) 0 \<lparr>ib_data = d, ib_position = q + 1 + length l\<rparr>) =
     Inr (map (fold_case cs) (wire L) = map (fold_case cs) ys2)"
    using p1(2) label.prems(2,3) q(4) ys(3) by (intro label.IH) auto
  finally show ?case
    using ys by simp
next
  case (pointer pos hi lo ptr bd l L e)
  have p: "ob_at (unat p) b = Inr hi" "ob_at (unat p + 1) b = Inr lo" "ob_at ptr b = Inr (word_of_nat (length l))"
    using pointer.hyps(1,6) pointer.prems(1) marks_ob_at [OF assms, where xs = "[]"] by (auto simp: octets_at_Cons)
  have "length l \<le> MAX_LABELLEN"
    using linked_labels [OF pointer.hyps(5)] by (cases L) (auto simp: valid_label_def)
  then have len: "unat (word_of_nat (length l) :: byte) \<le> MAX_LABELLEN"
    by (subst unat_of_nat_byte) (auto simp: name_limits)
  define p' :: "16 word" where "p' = word_of_nat ptr"
  have p': "unat p' = ptr"
    using pointer_target_less [OF pointer.hyps(2), of lo] pointer.hyps(3) by (simp add: p'_def unat_of_nat take_bit_eq_mod MAX_COMPRESS_POINTER_def)
  have "nextPosition b p 0 = nextPosition b p' 0"
    using follow_pointer [OF p(1,2) pointer.hyps(2), of "word_of_nat (length l)"] follow_label [of p' b "word_of_nat (length l)" 0] p len p' pointer.hyps(3)
    by (simp add: nextPosition_def p'_def)
  then have "compare_loop cs b (length (wire (l # L))) p 0 = compare_loop cs b (length (wire (l # L))) p' 0"
    by simp
  then show ?case
    using pointer.IH [OF p' _ pointer.prems(3-5)] p' pointer_target_less [OF pointer.hyps(2), of lo] pointer.hyps(3) pointer.prems(3)
    by (simp add: MAX_COMPRESS_POINTER_def name_limits)
qed

section \<open>The table of names\<close>

definition same_name :: "bool \<Rightarrow> label list \<Rightarrow> label list \<Rightarrow> bool" where
  "same_name cs L K \<longleftrightarrow> map (map (fold_case cs)) L = map (map (fold_case cs)) K"

definition name_hash :: "(hash \<Rightarrow> byte \<Rightarrow> hash) \<Rightarrow> bool \<Rightarrow> label list \<Rightarrow> hash" where
  "name_hash H cs L = fold (\<lambda>c h. H h (fold_case cs c)) (take 16 (wire L)) 0"

definition item_names :: "(hash \<Rightarrow> byte \<Rightarrow> hash) \<Rightarrow> bool \<Rightarrow> byte option list \<Rightarrow> offset_item \<Rightarrow> label list \<Rightarrow> bool" where
  "item_names H cs M item L \<longleftrightarrow>
     (let p = unat (item_pos item) in
      (\<exists>e. linked M p p L e) \<and> p \<le> MAX_COMPRESS_POINTER \<and> abs_labels L \<and> unat (item_len item) = length (wire L) \<and>
      item_hash item = name_hash H cs L \<and> hd L \<noteq> [] \<and> octets_at M p (word_of_nat (length (hd L)) # hd L))"

lemma fold_case_wire:
  "\<forall>l \<in> set L. length l \<le> MAX_LABELLEN \<Longrightarrow> map (fold_case cs) (wire L) = wire (map (map (fold_case cs)) L)"
  by (induction L) (simp_all add: fold_case_length)

lemma wire_inject: "\<forall>l \<in> set A \<union> set B. length l < 256 \<Longrightarrow> wire A = wire B \<longleftrightarrow> A = B"
  by (metis UnCI unwire_wire)

lemma same_name_wire:
  assumes "abs_labels L" "abs_labels K"
  shows "map (fold_case cs) (wire L) = map (fold_case cs) (wire K) \<longleftrightarrow> same_name cs L K"
proof -
  have l: "\<forall>l \<in> set L. length l \<le> MAX_LABELLEN" "\<forall>l \<in> set K. length l \<le> MAX_LABELLEN"
    using assms abs_labels_lengths(1) by auto
  have "wire (map (map (fold_case cs)) L) = wire (map (map (fold_case cs)) K) \<longleftrightarrow> same_name cs L K"
    unfolding same_name_def using l by (intro wire_inject) (auto simp: name_limits)
  then show ?thesis
    using fold_case_wire [OF l(1), of cs] fold_case_wire [OF l(2), of cs] by simp
qed

lemma same_name_hash:
  assumes "same_name cs L K" "abs_labels L" "abs_labels K"
  shows "name_hash H cs L = name_hash H cs K" "length (wire L) = length (wire K)"
proof -
  have w: "map (fold_case cs) (wire L) = map (fold_case cs) (wire K)"
    using assms same_name_wire by blast
  have f: "fold (\<lambda>c h. H h (fold_case cs c)) xs 0 = fold (\<lambda>c h. H h c) (map (fold_case cs) xs) 0" for xs
    by (simp add: fold_map comp_def)
  have "map (fold_case cs) (take 16 (wire L)) = map (fold_case cs) (take 16 (wire K))"
    using w by (metis take_map)
  then show "name_hash H cs L = name_hash H cs K"
    unfolding name_hash_def f by (rule arg_cong)
  show "length (wire L) = length (wire K)"
    using w by (rule map_eq_imp_length_eq)
qed

lemma compare_keeps_data: "keeps (\<lambda>nb. ib_data nb = D) (compare_loop cs b k pos llen)"
  by (induction k arbitrary: pos llen)
    (auto simp: keeps_def bindE_def liftS_def readUint8_def ret_def raise_def split: sum.splits prod.splits if_splits)

lemma NameCompare_keeps_data: "keeps (\<lambda>nb. ib_data nb = D) (NameCompare cs b h item)"
  using compare_keeps_data
  by (fastforce simp: keeps_def NameCompare_def thenE_def setPosition_def raise_def split: sum.splits prod.splits if_splits)

lemma NameCompare_same:
  assumes "marks M b" "item_names H cs M item L" "abs_labels K" "ib_data nb = wire K"
  shows "fst (NameCompare cs b (name_hash H cs K) item nb) = Inr (same_name cs L K)"
proof (cases "item_hash item = name_hash H cs K \<and> unat (item_len item) = length (wire K)")
  case False
  then have "\<not> same_name cs L K"
    using same_name_hash [of cs L K] assms(2,3) by (auto simp: item_names_def Let_def)
  then show ?thesis
    using False assms(4) by (auto simp: NameCompare_def ib_getLength_def)
next
  case True
  obtain e where L: "linked M (unat (item_pos item)) (unat (item_pos item)) L e" "unat (item_pos item) \<le> MAX_COMPRESS_POINTER"
    "abs_labels L" "unat (item_len item) = length (wire L)"
    using assms(2) by (auto simp: item_names_def Let_def)
  have "fst (compare_loop cs b (length (wire L)) (item_pos item) 0 \<lparr>ib_data = wire K, ib_position = 0\<rparr>) =
      Inr (map (fold_case cs) (wire L) = map (fold_case cs) (wire K))"
    using L True abs_labels_lengths(2) [OF L(3)]
    by (intro compare_linked [OF assms(1) L(1) refl]) (auto simp: MAX_COMPRESS_POINTER_def name_limits)
  moreover obtain q where "nb = \<lparr>ib_data = wire K, ib_position = q\<rparr>"
    using assms(4) by (cases nb) simp
  ultimately show ?thesis
    using True L(4) assms(4) same_name_wire [OF L(3) assms(3)] by (simp add: NameCompare_def ib_getLength_def thenE_def setPosition_def)
qed

lemma find_item_same:
  assumes "marks M b" "abs_labels K"
  shows "\<forall>item \<in> set items. \<exists>L. item_names H cs M item L \<Longrightarrow> ib_data nb = wire K \<Longrightarrow>
    \<exists>nb' found. find_item cs b (name_hash H cs K) items nb = (Inr found, nb') \<and>
      (case found of
         Some item \<Rightarrow> item \<in> set items \<and> (\<exists>L. item_names H cs M item L \<and> same_name cs L K)
       | None \<Rightarrow> \<forall>item \<in> set items. \<forall>L. item_names H cs M item L \<longrightarrow> \<not> same_name cs L K)"
proof (induction items arbitrary: nb)
  case Nil
  then show ?case by (simp add: ret_def)
next
  case (Cons item items)
  obtain L where L: "item_names H cs M item L"
    using Cons.prems(1) by auto
  have u: "same_name cs L' K \<longleftrightarrow> same_name cs L K" if "item_names H cs M item L'" for L'
    using NameCompare_same [OF assms(1) that assms(2) Cons.prems(2)] NameCompare_same [OF assms(1) L assms(2) Cons.prems(2)] by simp
  obtain nb1 where nb1: "NameCompare cs b (name_hash H cs K) item nb = (Inr (same_name cs L K), nb1)"
    using NameCompare_same [OF assms(1) L assms(2) Cons.prems(2)] by (metis prod.collapse)
  have "ib_data nb1 = wire K"
    using keepsD [OF NameCompare_keeps_data Cons.prems(2), of cs b "name_hash H cs K" item] nb1 by simp
  then obtain nb' found where IH: "find_item cs b (name_hash H cs K) items nb1 = (Inr found, nb')"
    "case found of Some item \<Rightarrow> item \<in> set items \<and> (\<exists>L. item_names H cs M item L \<and> same_name cs L K)
       | None \<Rightarrow> \<forall>item \<in> set items. \<forall>L. item_names H cs M item L \<longrightarrow> \<not> same_name cs L K"
    using Cons.IH [of nb1] Cons.prems(1) by auto
  show ?case
  proof (cases "same_name cs L K")
    case True
    then show ?thesis
      using nb1 L by (auto simp: bindE_def ret_def)
  next
    case False
    then show ?thesis
      using nb1 IH u by (cases found) (auto simp: bindE_def)
  qed
qed

definition case_sensitive :: "renderer \<Rightarrow> bool" where
  "case_sensitive r = (rd_compress_mode r = CASE_SENSITIVE)"

definition rd_inv :: "(hash \<Rightarrow> byte \<Rightarrow> hash) \<Rightarrow> byte option list \<Rightarrow> renderer \<Rightarrow> bool" where
  "rd_inv H M r \<longleftrightarrow>
     marks M (getBuffer r) \<and> length (rd_table r) = BUCKETS \<and> length (seq_hashes r) = MAX_LABELS \<and>
     (\<forall>i < BUCKETS. \<forall>item \<in> set (rd_table r ! i).
        bucket_id (item_hash item) = i \<and> (\<exists>L. item_names H (case_sensitive r) M item L))"

text \<open>The names that can be pointed to.\<close>

definition stored :: "(hash \<Rightarrow> byte \<Rightarrow> hash) \<Rightarrow> byte option list \<Rightarrow> renderer \<Rightarrow> offset_item \<Rightarrow> label list \<Rightarrow> bool" where
  "stored H M r item L \<longleftrightarrow> (\<exists>i < BUCKETS. item \<in> set (rd_table r ! i)) \<and> item_names H (case_sensitive r) M item L"

lemma stored_bucket: "rd_inv H M r \<Longrightarrow> stored H M r item L \<Longrightarrow> item \<in> set (rd_table r ! bucket_id (item_hash item))"
  unfolding rd_inv_def stored_def by metis

lemma findOffset_spec:
  assumes "rd_inv H M r" "abs_labels K" "ib_data nb = wire K"
  obtains nb' off where "findOffset (case_sensitive r) (name_hash H (case_sensitive r) K) r nb = (Inr off, nb')"
    "if off = NO_OFFSET then \<nexists>item L. stored H M r item L \<and> same_name (case_sensitive r) L K
     else \<exists>item L. stored H M r item L \<and> item_pos item = off \<and> same_name (case_sensitive r) L K"
proof -
  let ?cs = "case_sensitive r"
  let ?i = "bucket_id (name_hash H ?cs K)"
  have i: "?i < BUCKETS"
    by (simp add: bucket_id_def BUCKETS_def)
  have "\<forall>item \<in> set (rev (rd_table r ! ?i)). \<exists>L. item_names H ?cs M item L"
    using assms(1) i by (simp add: rd_inv_def)
  from find_item_same [OF _ assms(2) this assms(3), of "getBuffer r"] obtain nb' found where
    f: "find_item ?cs (getBuffer r) (name_hash H ?cs K) (rev (rd_table r ! ?i)) nb = (Inr found, nb')"
    "case found of Some item \<Rightarrow> item \<in> set (rev (rd_table r ! ?i)) \<and> (\<exists>L. item_names H ?cs M item L \<and> same_name ?cs L K)
       | None \<Rightarrow> \<forall>item \<in> set (rev (rd_table r ! ?i)). \<forall>L. item_names H ?cs M item L \<longrightarrow> \<not> same_name ?cs L K"
    using assms(1) by (auto simp: rd_inv_def)
  have here: "item \<in> set (rd_table r ! ?i)" if st: "stored H M r item L" and sm: "same_name ?cs L K" for item L
  proof -
    have "item_hash item = name_hash H ?cs L" "abs_labels L"
      using st by (auto simp: stored_def item_names_def Let_def)
    then show ?thesis
      using stored_bucket [OF assms(1) st] same_name_hash(1) [OF sm _ assms(2), of H] by simp
  qed
  show thesis
  proof (cases found)
    case None
    then show ?thesis
      using that [of NO_OFFSET nb'] f here by (auto simp: findOffset_def bindE_def ret_def stored_def)
  next
    case (Some item)
    then obtain L where L: "stored H M r item L" "same_name ?cs L K"
      using f(2) i by (auto simp: stored_def)
    then have "item_pos item \<noteq> NO_OFFSET"
      by (auto simp: stored_def item_names_def Let_def MAX_COMPRESS_POINTER_def NO_OFFSET_def)
    then show ?thesis
      using that [of "item_pos item" nb'] f(1) Some L by (auto simp: findOffset_def bindE_def ret_def)
  qed
qed

section \<open>Label sequences\<close>

lemma ls_rep_stripLeft:
  assumes "ls_rep s A" "i < length A"
  shows "\<exists>s'. stripLeft i s = Inr s' \<and> ls_rep s' (drop i A)"
proof -
  obtain P S junk ojunk where s: "ls_data s = wire (P @ A @ S) @ junk" "ls_offsets s = map word_of_nat (offs (P @ A @ S)) @ ojunk"
    "first_label s = length P" "last_label s = length P + length A - 1" "length (wire (P @ A @ S)) \<le> MAX_WIRE"
    "\<forall>l \<in> set (P @ A @ S). length l \<le> MAX_LABELLEN"
    using assms(1) by (auto simp: ls_rep_def)
  have e: "P @ A @ S = P @ take i A @ drop i A @ S"
    by simp
  have "ls_rep (s\<lparr>first_label := first_label s + i\<rparr>) (drop i A)"
    unfolding ls_rep_def
    using assms(2) s by (intro conjI exI [of _ "P @ take i A"] exI [of _ S] exI [of _ junk] exI [of _ ojunk]) (auto simp: e [symmetric])
  then show ?thesis
    using assms ls_rep_count [OF assms(1)] by (auto simp: stripLeft_def)
qed

lemma ls_rep_stripRight:
  assumes "ls_rep s A" "i < length A"
  shows "\<exists>s'. stripRight i s = Inr s' \<and> ls_rep s' (take (length A - i) A)"
proof -
  obtain P S junk ojunk where s: "ls_data s = wire (P @ A @ S) @ junk" "ls_offsets s = map word_of_nat (offs (P @ A @ S)) @ ojunk"
    "first_label s = length P" "last_label s = length P + length A - 1" "length (wire (P @ A @ S)) \<le> MAX_WIRE"
    "\<forall>l \<in> set (P @ A @ S). length l \<le> MAX_LABELLEN"
    using assms(1) by (auto simp: ls_rep_def)
  have e: "P @ A @ S = P @ take (length A - i) A @ drop (length A - i) A @ S"
    by (metis append_assoc append_take_drop_id)
  have "ls_rep (s\<lparr>last_label := last_label s - i\<rparr>) (take (length A - i) A)"
    unfolding ls_rep_def
    using assms(2) s by (intro conjI exI [of _ P] exI [of _ "drop (length A - i) A @ S"] exI [of _ junk] exI [of _ ojunk]) (auto simp: e [symmetric])
  then show ?thesis
    using assms ls_rep_count [OF assms(1)] by (auto simp: stripRight_def)
qed

lemma ls_rep_getHash:
  assumes "ls_rep s A"
  shows "getHash H cs s = Inr (name_hash H cs A)"
proof -
  obtain post where "getData s = Inr (wire A @ post, length (wire A))"
    using assms by (rule ls_rep_getData)
  moreover have "(if length (wire A) > 16 then 16 else length (wire A)) = length (take 16 (wire A))"
    by simp
  moreover have "rd_range (wire A @ post) 0 (length (take 16 (wire A))) = Inr (take 16 (wire A))"
    by (rule rd_range_drop [of _ _ _ "drop 16 (wire A) @ post"]) (metis append_assoc append_take_drop_id drop0)
  ultimately show ?thesis
    by (simp add: getHash_def getHashHelper_def name_hash_def Let_def del: length_take)
qed

lemma ls_rep_octets:
  assumes "ls_rep s A"
  obtains post where "getData s = Inr (wire A @ post, length (wire A))" "rd_range (wire A @ post) 0 (length (wire A)) = Inr (wire A)"
  using ls_rep_getData [OF assms] rd_range_drop [of 0] by (metis drop0)

section \<open>The search\<close>

lemma getBuffer_hashes [simp]: "getBuffer (r\<lparr>seq_hashes := hs\<rparr>) = getBuffer r"
  by (simp add: getBuffer_def split: option.split)

lemma case_sensitive_hashes [simp]: "case_sensitive (r\<lparr>seq_hashes := hs\<rparr>) = case_sensitive r"
  by (simp add: case_sensitive_def)

lemma rd_inv_hashes: "rd_inv H M r \<Longrightarrow> length hs = MAX_LABELS \<Longrightarrow> rd_inv H M (r\<lparr>seq_hashes := hs\<rparr>)"
  by (simp add: rd_inv_def)

lemma stored_hashes [simp]: "stored H M (r\<lparr>seq_hashes := hs\<rparr>) = stored H M r"
  by (intro ext) (simp add: stored_def)

lemma abs_labels_drop: "abs_labels A \<Longrightarrow> i < length A \<Longrightarrow> abs_labels (drop i A)"
proof -
  assume A: "abs_labels A" "i < length A"
  then obtain K where K: "A = K @ [[]]" "\<forall>l \<in> set K. valid_label l" "length (wire K) < MAX_WIRE"
    by (auto elim: abs_labelsE)
  have "length (wire (drop i K)) \<le> length (wire K)"
    by (metis append_take_drop_id le_add2 length_append wire_append)
  moreover have "drop i A = drop i K @ [[]]"
    using A(2) K(1) by simp
  moreover have "\<forall>l \<in> set (drop i K). valid_label l"
    using K(2) by (meson in_set_dropD)
  ultimately show ?thesis
    using K(3) by (simp add: abs_labels_snoc)
qed

text \<open>What the search has found: the number of labels to write, and the offset of the rest.\<close>

definition search_result :: "(hash \<Rightarrow> byte \<Rightarrow> hash) \<Rightarrow> byte option list \<Rightarrow> renderer \<Rightarrow> label list \<Rightarrow> nat \<Rightarrow> 16 word \<Rightarrow> hash option list \<Rightarrow> bool" where
  "search_result H M r A u off hs \<longleftrightarrow>
     length hs = MAX_LABELS \<and> u \<le> length A \<and>
     (\<forall>j < u. j + 1 < length A \<longrightarrow> hs ! j = Some (name_hash H (case_sensitive r) (drop j A)) \<and>
        (\<nexists>item L. stored H M r item L \<and> same_name (case_sensitive r) L (drop j A))) \<and>
     (if off = NO_OFFSET then u = length A
      else u + 1 < length A \<and> (\<exists>item L. stored H M r item L \<and> item_pos item = off \<and> same_name (case_sensitive r) L (drop u A)))"

lemma search_loop_spec:
  assumes "rd_inv H M r" "abs_labels A"
  shows "length A = i + k \<Longrightarrow> 0 < k \<Longrightarrow> ls_rep s (drop (i - 1) A) \<Longrightarrow> length hs = MAX_LABELS \<Longrightarrow>
    \<forall>j < i. hs ! j = Some (name_hash H (case_sensitive r) (drop j A)) \<and>
        (\<nexists>item L. stored H M r item L \<and> same_name (case_sensitive r) L (drop j A)) \<Longrightarrow>
    \<exists>u off hs'. search_loop H k i s (r\<lparr>seq_hashes := hs\<rparr>) = (Inr (u, off), r\<lparr>seq_hashes := hs'\<rparr>) \<and> search_result H M r A u off hs'"
proof (induction k arbitrary: i s hs)
  case (Suc k)
  let ?cs = "case_sensitive r" and ?r = "r\<lparr>seq_hashes := hs\<rparr>"
  have i: "i < length A" "i < MAX_LABELS"
    using Suc.prems(1) abs_labels_count(2) [OF assms(2)] by auto
  obtain s' where s': "(if i > 0 then stripLeft 1 s else Inr s) = Inr s'" "ls_rep s' (drop i A)"
  proof (cases "i > 0")
    case True
    then have "1 < length (drop (i - 1) A)" "drop 1 (drop (i - 1) A) = drop i A"
      using i by auto
    then show thesis
      using ls_rep_stripLeft [OF Suc.prems(3), of 1] True that by (auto simp del: drop_drop)
  next
    case False
    then show thesis
      using Suc.prems(3) that by auto
  qed
  have K: "abs_labels (drop i A)"
    using abs_labels_drop [OF assms(2) i(1)] .
  obtain post where post: "getData s' = Inr (wire (drop i A) @ post, length (wire (drop i A)))"
    "rd_range (wire (drop i A) @ post) 0 (length (wire (drop i A))) = Inr (wire (drop i A))"
    using s'(2) by (rule ls_rep_octets)
  show ?case
  proof (cases "k = 0")
    case True
    then have "length (drop i A) = 1"
      using Suc.prems(1) by simp
    then have "drop i A = [[]]"
      using K by (cases "drop i A") (auto simp: abs_labels_def)
    then have "search_loop H (Suc k) i s ?r = (Inr (i + 1, NO_OFFSET), ?r)"
      using s'(1) post by (simp add: bindE_def liftS_def ret_def)
    moreover have "search_result H M r A (i + 1) NO_OFFSET hs"
      using Suc.prems True by (simp add: search_result_def)
    ultimately show ?thesis
      by blast
  next
    case False
    have "length (drop i A) \<noteq> 1"
      using False Suc.prems(1) by simp
    then have len: "length (wire (drop i A)) \<noteq> 1"
      using length_wire_ge_length [of "drop i A"] K by (auto simp: abs_labels_def)
    let ?hs = "hs[i := Some (name_hash H ?cs (drop i A))]"
    let ?r' = "r\<lparr>seq_hashes := ?hs\<rparr>"
    have inv: "rd_inv H M ?r'"
      using rd_inv_hashes [OF assms(1)] Suc.prems(4) by simp
    obtain nb' off where off: "findOffset ?cs (name_hash H ?cs (drop i A)) ?r' (InputBuffer (wire (drop i A))) = (Inr off, nb')"
      "if off = NO_OFFSET then \<nexists>item L. stored H M r item L \<and> same_name ?cs L (drop i A)
       else \<exists>item L. stored H M r item L \<and> item_pos item = off \<and> same_name ?cs L (drop i A)"
      by (rule findOffset_spec [OF inv K, of "InputBuffer (wire (drop i A))", simplified case_sensitive_hashes stored_hashes])
        (simp add: InputBuffer_def)
    have step: "search_loop H (Suc k) i s ?r = (if off \<noteq> NO_OFFSET then (Inr (i, off), ?r') else search_loop H k (i + 1) s' ?r')"
      using s'(1) post len off(1) i(2) Suc.prems(4) ls_rep_getHash [OF s'(2), of H ?cs]
      by (simp add: bindE_def liftS_def thenE_def modifyE_def Let_def case_sensitive_def)
    show ?thesis
    proof (cases "off = NO_OFFSET")
      case True
      have "\<exists>u off hs'. search_loop H k (i + 1) s' ?r' = (Inr (u, off), r\<lparr>seq_hashes := hs'\<rparr>) \<and> search_result H M r A u off hs'"
        using Suc.prems False off(2) True i s'(2) by (intro Suc.IH) (auto simp: nth_list_update less_Suc_eq)
      then show ?thesis
        using step True by simp
    next
      case found: False
      have "search_result H M r A i off ?hs"
        using Suc.prems found off(2) False i by (auto simp: search_result_def nth_list_update)
      then show ?thesis
        using step found by auto
    qed
  qed
qed simp

lemma search_spec:
  assumes "rd_inv H M r" "abs_labels A" "ls_rep s A"
  obtains u off hs where "search_loop H (getLabelCount s) 0 s r = (Inr (u, off), r\<lparr>seq_hashes := hs\<rparr>)" "search_result H M r A u off hs"
proof -
  have "\<exists>u off hs'. search_loop H (length A) 0 s (r\<lparr>seq_hashes := seq_hashes r\<rparr>) = (Inr (u, off), r\<lparr>seq_hashes := hs'\<rparr>) \<and>
      search_result H M r A u off hs'"
    using assms abs_labels_count(1) [OF assms(2)] by (intro search_loop_spec) (auto simp: rd_inv_def)
  then show thesis
    using that ls_rep_count [OF assms(3)] by auto
qed

section \<open>Recording the names that were written\<close>

lemma linked_labels_then:
  assumes "\<forall>l \<in> set P. valid_label l" "octets_at M pos (wire P)" "linked M b (pos + length (wire P)) T e"
  shows "linked M b pos (P @ T) e"
  using assms
proof (induction P arbitrary: pos)
  case (Cons l P)
  have "linked M b (pos + 1 + length l) (P @ T) e"
    using Cons.prems by (intro Cons.IH) (auto simp: octets_at_Cons octets_at_append add.assoc)
  then show ?case
    using Cons.prems linked.label [of M pos l b "P @ T" e] by (simp add: octets_at_Cons octets_at_append)
qed simp

lemma same_name_abs:
  assumes "same_name cs L K" "abs_labels K"
  shows "abs_labels L" "length L = length K"
proof -
  have m: "map length L = map length K"
    using arg_cong [OF assms(1) [unfolded same_name_def], of "map length"] by (simp add: comp_def)
  then show n: "length L = length K"
    by (rule map_eq_imp_length_eq)
  have w: "length (wire A) = sum_list (map length A) + length A" for A
    by (induction A) auto
  have v: "valid_label l \<longleftrightarrow> length l \<in> {1..MAX_LABELLEN}" for l
    by (simp add: valid_label_def)
  have "map length (butlast L) = map length (butlast K)"
    using m by (metis map_butlast)
  then have "length ` set (butlast L) = length ` set (butlast K)"
    by (metis set_map)
  moreover have "\<forall>n \<in> length ` set (butlast K). n \<in> {1..MAX_LABELLEN}"
    using assms(2) v by (auto simp: abs_labels_def)
  ultimately have "\<forall>l \<in> set (butlast L). valid_label l"
    using v by (metis imageI)
  moreover have "L \<noteq> []" "length (last L) = length (last K)"
    using m n assms(2) by (auto simp: abs_labels_def) (metis last_map length_0_conv map_is_Nil_conv)
  ultimately show "abs_labels L"
    using assms(2) w [of L] w [of K] m n by (simp add: abs_labels_def)
qed

lemma same_name_drop: "same_name cs L K \<Longrightarrow> same_name cs (drop i L) (drop i K)"
  unfolding same_name_def by (metis drop_map)

lemma getBuffer_table [simp]: "getBuffer (r\<lparr>rd_table := tb\<rparr>) = getBuffer r"
  by (simp add: getBuffer_def split: option.split)

lemma case_sensitive_table [simp]: "case_sensitive (r\<lparr>rd_table := tb\<rparr>) = case_sensitive r"
  by (simp add: case_sensitive_def)

lemma addOffset_inv:
  assumes "rd_inv H M r" "item_names H (case_sensitive r) M (OffsetItem h offset len) L"
  shows "rd_inv H M (addOffset h offset len r)" "stored H M (addOffset h offset len r) (OffsetItem h offset len) L"
    "stored H M r item K \<Longrightarrow> stored H M (addOffset h offset len r) item K"
proof -
  have i: "bucket_id h < BUCKETS" "bucket_id (item_hash (OffsetItem h offset len)) = bucket_id h"
    by (simp_all add: bucket_id_def BUCKETS_def OffsetItem_def)
  show "rd_inv H M (addOffset h offset len r)"
    using assms i by (auto simp: rd_inv_def addOffset_def nth_list_update)
  show "stored H M (addOffset h offset len r) (OffsetItem h offset len) L"
    using assms i by (auto simp: rd_inv_def stored_def addOffset_def intro!: exI [of _ "bucket_id h"])
  show "stored H M r item K \<Longrightarrow> stored H M (addOffset h offset len r) item K"
    using assms(1) i(1) by (auto simp: rd_inv_def stored_def addOffset_def nth_list_update)
qed

lemma addOffset_frame: "\<exists>tb. addOffset h offset len r = r\<lparr>rd_table := tb\<rparr>"
  by (auto simp: addOffset_def)

text \<open>The labels \<open>P\<close> stand at \<open>o\<close>, followed by \<open>T\<close>; the hashes are those of \<open>A\<close>, the same name up to case.\<close>

definition written :: "(hash \<Rightarrow> byte \<Rightarrow> hash) \<Rightarrow> byte option list \<Rightarrow> renderer \<Rightarrow> nat \<Rightarrow> label list \<Rightarrow> label list \<Rightarrow> label list \<Rightarrow> nat \<Rightarrow> bool" where
  "written H M r pos P T A n \<longleftrightarrow>
     (\<forall>l \<in> set P. valid_label l) \<and> octets_at M pos (wire P) \<and> (\<exists>e. linked M pos (pos + length (wire P)) T e) \<and>
     abs_labels A \<and> same_name (case_sensitive r) (P @ T) A \<and>
     (n \<le> length P \<or> n = length P + 1 \<and> octets_at M (pos + length (wire P)) [0]) \<and>
     (\<forall>j < n. j < length P \<longrightarrow> seq_hashes r ! j = Some (name_hash H (case_sensitive r) (drop j A)))"

definition part_pos :: "nat \<Rightarrow> label list \<Rightarrow> nat \<Rightarrow> nat" where
  "part_pos pos P j = pos + length (wire (take j P))"

lemma written_octets:
  assumes "octets_at M pos (wire P)" "i < length P"
  shows "octets_at M (part_pos pos P i) (wire (drop i P))" "octets_at M (part_pos pos P i) (word_of_nat (length (P ! i)) # P ! i)"
    "part_pos pos P (Suc i) = part_pos pos P i + (length (P ! i) + 1)"
    "part_pos pos P i + length (wire (drop i P)) = pos + length (wire P)"
proof -
  have "wire P = wire (take i P) @ wire (drop i P)"
    by (metis append_take_drop_id wire_append)
  then show a: "octets_at M (part_pos pos P i) (wire (drop i P))" "part_pos pos P i + length (wire (drop i P)) = pos + length (wire P)"
    using assms(1) by (simp_all add: octets_at_append part_pos_def)
  have "wire (drop i P) = (word_of_nat (length (P ! i)) # P ! i) @ wire (drop (Suc i) P)"
    using assms(2) by (simp add: Cons_nth_drop_Suc [symmetric])
  then show "octets_at M (part_pos pos P i) (word_of_nat (length (P ! i)) # P ! i)"
    using a(1) by (metis octets_at_append)
  show "part_pos pos P (Suc i) = part_pos pos P i + (length (P ! i) + 1)"
    using assms(2) by (simp add: part_pos_def take_Suc_conv_app_nth)
qed

lemma written_item:
  assumes "written H M r pos P T A n" "i < n" "i < length P" "part_pos pos P i \<le> MAX_COMPRESS_POINTER"
  shows "item_names H (case_sensitive r) M (OffsetItem (name_hash H (case_sensitive r) (drop i A)) (part_pos pos P i) (length (wire (drop i A))))
    (drop i (P @ T))"
proof -
  let ?p = "part_pos pos P i" and ?L = "drop i (P @ T)"
  have w: "\<forall>l \<in> set P. valid_label l" "octets_at M pos (wire P)" "abs_labels A" "same_name (case_sensitive r) (P @ T) A"
    using assms(1) by (auto simp: written_def)
  obtain e where e: "linked M pos (pos + length (wire P)) T e"
    using assms(1) by (auto simp: written_def)
  note o = written_octets [OF w(2) assms(3)]
  have "linked M ?p ?p (drop i P @ T) e"
  proof (rule linked_labels_then)
    show "\<forall>l \<in> set (drop i P). valid_label l" "octets_at M ?p (wire (drop i P))"
      using w(1) o(1) by (auto dest: in_set_dropD)
    show "linked M ?p (?p + length (wire (drop i P))) T e"
      unfolding o(4) by (rule linked_bound [OF e]) (simp add: part_pos_def)
  qed
  moreover have iA: "i < length A"
    using same_name_abs(2) [OF w(4,3)] assms(3) by simp
  have aL: "abs_labels ?L" "length (wire ?L) = length (wire (drop i A))"
    "name_hash H (case_sensitive r) ?L = name_hash H (case_sensitive r) (drop i A)"
    using same_name_drop [OF w(4), of i] abs_labels_drop [OF w(3) iA] same_name_abs(1) same_name_hash by blast+
  moreover have "hd ?L = P ! i" "P ! i \<noteq> []"
    using assms(3) w(1) nth_mem [OF assms(3)] by (force simp: hd_append hd_drop_conv_nth valid_label_def)+
  moreover have "unat (word_of_nat ?p :: 16 word) = ?p"
    using assms(4) by (simp add: unat_of_nat take_bit_eq_mod MAX_COMPRESS_POINTER_def)
  moreover have "unat (word_of_nat (length (wire (drop i A))) :: 16 word) = length (wire (drop i A))"
    using aL abs_labels_lengths(2) [OF aL(1)] by (simp add: unat_of_nat take_bit_eq_mod name_limits)
  ultimately show ?thesis
    using assms(3,4) o(2) by (auto simp: item_names_def OffsetItem_def Let_def)
qed

lemma written_frame:
  "written H M (r\<lparr>rd_table := tb\<rparr>) pos P T A n = written H M r pos P T A n"
  by (simp add: written_def)

lemma record_loop_spec:
  assumes "i + k = n" "rd_inv H M r" "written H M r pos P T A n"
  shows "\<exists>r' tb. record_loop k i (part_pos pos P i) (length (wire (drop i A))) r = (Inr (), r') \<and> r' = r\<lparr>rd_table := tb\<rparr> \<and> rd_inv H M r' \<and>
    (\<forall>item L. stored H M r item L \<longrightarrow> stored H M r' item L) \<and>
    (\<forall>j. i \<le> j \<and> j < n \<and> j < length P \<and> part_pos pos P j \<le> MAX_COMPRESS_POINTER \<longrightarrow> (\<exists>item. stored H M r' item (drop j (P @ T))))"
  using assms
proof (induction k arbitrary: i r)
  case 0
  then show ?case
    by (auto intro!: exI [of _ "rd_table r"])
next
  case (Suc k)
  have w: "\<forall>l \<in> set P. valid_label l" "octets_at M pos (wire P)" "abs_labels A" "same_name (case_sensitive r) (P @ T) A"
    "n \<le> length P \<or> n = length P + 1 \<and> octets_at M (pos + length (wire P)) [0]"
    using Suc.prems(3) by (auto simp: written_def)
  have marks: "marks M (getBuffer r)"
    using Suc.prems(2) by (simp add: rd_inv_def)
  show ?case
  proof (cases "i < length P")
    case False
    then have "octets_at M (part_pos pos P i) [0]" "i = length P"
      using w(5) Suc.prems(1) by (auto simp: part_pos_def)
    then show ?thesis
      using marks_ob_at [OF marks, of "part_pos pos P i" 0] Suc.prems(1,2) by (auto intro!: exI [of _ "rd_table r"])
  next
    case True
    note o = written_octets [OF w(2) True]
    have v: "valid_label (P ! i)"
      using w(1) True by simp
    then have u: "unat (word_of_nat (length (P ! i)) :: byte) = length (P ! i)"
      by (intro unat_of_nat_byte) (simp add: valid_label_def name_limits)
    have at: "ob_at (part_pos pos P i) (getBuffer r) = Inr (word_of_nat (length (P ! i)))" "(word_of_nat (length (P ! i)) :: byte) \<noteq> 0"
      using marks_ob_at [OF marks o(2)] u v by (auto simp: valid_label_def)
    show ?thesis
    proof (cases "part_pos pos P i \<le> MAX_COMPRESS_POINTER")
      case far: False
      moreover have "part_pos pos P i \<le> part_pos pos P j" if "i \<le> j" for j
        using length_wire_take_mono [OF that, of P] by (simp add: part_pos_def)
      ultimately show ?thesis
        using at Suc.prems(2) by (auto intro!: exI [of _ "rd_table r"] dest: order_trans)
    next
      case near: True
      let ?h = "name_hash H (case_sensitive r) (drop i A)"
      let ?item = "OffsetItem ?h (part_pos pos P i) (length (wire (drop i A)))"
      let ?r = "addOffset ?h (part_pos pos P i) (length (wire (drop i A))) r"
      have h: "seq_hashes r ! i = Some ?h"
        using Suc.prems(1,3) True by (auto simp: written_def)
      have "item_names H (case_sensitive r) M ?item (drop i (P @ T))"
        using written_item [OF Suc.prems(3) _ True near] Suc.prems(1) by simp
      note add = addOffset_inv [OF Suc.prems(2) this]
      obtain tb where tb: "?r = r\<lparr>rd_table := tb\<rparr>"
        using addOffset_frame by blast
      have "map length (P @ T) = map length A"
        using arg_cong [OF w(4) [unfolded same_name_def], of "map length"] by (simp add: comp_def)
      moreover have "i < length A" "i < length (P @ T)"
        using True same_name_abs(2) [OF w(4,3)] by auto
      ultimately have "length (P ! i) = length (A ! i)" "i < length A"
        using True by (metis nth_append nth_map, simp)
      then have len: "length (wire (drop i A)) - (length (P ! i) + 1) = length (wire (drop (Suc i) A))"
        by (simp add: Cons_nth_drop_Suc [symmetric])
      have "\<exists>r' tb. record_loop k (Suc i) (part_pos pos P (Suc i)) (length (wire (drop (Suc i) A))) ?r = (Inr (), r') \<and> r' = ?r\<lparr>rd_table := tb\<rparr> \<and> rd_inv H M r' \<and>
        (\<forall>item L. stored H M ?r item L \<longrightarrow> stored H M r' item L) \<and>
        (\<forall>j. Suc i \<le> j \<and> j < n \<and> j < length P \<and> part_pos pos P j \<le> MAX_COMPRESS_POINTER \<longrightarrow> (\<exists>item. stored H M r' item (drop j (P @ T))))"
        using Suc.prems(1,3) add(1) tb by (intro Suc.IH) (auto simp: written_frame)
      then obtain r' tb' where r': "record_loop k (Suc i) (part_pos pos P (Suc i)) (length (wire (drop (Suc i) A))) ?r = (Inr (), r')"
        "r' = ?r\<lparr>rd_table := tb'\<rparr>" "rd_inv H M r'" "\<forall>item L. stored H M ?r item L \<longrightarrow> stored H M r' item L"
        "\<forall>j. Suc i \<le> j \<and> j < n \<and> j < length P \<and> part_pos pos P j \<le> MAX_COMPRESS_POINTER \<longrightarrow> (\<exists>item. stored H M r' item (drop j (P @ T)))"
        by blast
      have "record_loop (Suc k) i (part_pos pos P i) (length (wire (drop i A))) r = (Inr (), r')"
        using at near h u len o(3) r'(1) by simp
      moreover have "\<exists>item. stored H M r' item (drop j (P @ T))" if "i \<le> j" "j < n" "j < length P" "part_pos pos P j \<le> MAX_COMPRESS_POINTER" for j
        using that r'(4,5) add(2) by (cases "j = i") auto
      ultimately show ?thesis
        using r'(2-4) add(3) tb by auto
    qed
  qed
qed

section \<open>Compression pointers\<close>

lemma halves_unat:
  assumes "push_bit 8 (ucast (hi :: byte)) OR ucast (lo :: byte) = (x :: 16 word)"
  shows "unat x = unat hi * 256 + unat lo"
proof -
  have "push_bit 8 (ucast hi) + ucast lo = push_bit 8 (ucast hi) OR (ucast lo :: 16 word)"
    by (rule disjunctive_add) (auto simp: bit_simps dest: bit_imp_le_length)
  moreover have "unat (push_bit 8 (ucast hi) + ucast lo :: 16 word) = unat hi * 256 + unat lo"
  proof -
    have "unat hi < 65536" "unat lo < 65536" "unat hi * 256 < 65536" "unat hi * 256 + unat lo < 65536"
      using unat_byte_less [of hi] unat_byte_less [of lo] by linarith+
    then show ?thesis
      by (simp add: push_bit_eq_mult unat_word_ariths unsigned_ucast_eq take_bit_eq_mod)
  qed
  ultimately show ?thesis
    using assms by simp
qed

lemma unat_marked:
  assumes "unat off \<le> MAX_COMPRESS_POINTER"
  shows "unat (off OR COMPRESS_POINTER_MARK16) = unat off + 192 * 256"
proof -
  have "unat (take_bit 14 off) = unat off"
    using assms unfolding unsigned_take_bit_eq by (intro take_bit_nat_eq_self) (simp add: MAX_COMPRESS_POINTER_def)
  then have t: "off = take_bit 14 off"
    using unsigned_word_eqI by metis
  have c: "(0xc000 :: 16 word) = push_bit 14 3"
    by (simp add: push_bit_eq_mult)
  have "\<not> bit (0xc000 :: 16 word) n" if "n < 14" for n
    unfolding c bit_push_bit_iff using that by simp
  then have "off + 0xc000 = off OR 0xc000"
    by (intro disjunctive_add) (subst t, auto simp: bit_simps)
  moreover have "unat (off + 0xc000 :: 16 word) = unat off + 192 * 256"
    using assms by (simp add: unat_word_ariths MAX_COMPRESS_POINTER_def)
  ultimately show ?thesis
    by (simp add: COMPRESS_POINTER_MARK16_def)
qed

lemma pointer_octets:
  assumes "unat off \<le> MAX_COMPRESS_POINTER"
  defines "x \<equiv> off OR COMPRESS_POINTER_MARK16"
  defines "hi \<equiv> ucast (drop_bit 8 (x AND 0xff00)) :: byte" and "lo \<equiv> ucast (x AND 0x00ff) :: byte"
  shows "192 \<le> unat hi" "pointer_target hi lo = unat off"
proof -
  have "unat off + 192 * 256 = unat hi * 256 + unat lo"
    using halves_unat [OF halves16 [of x]] unat_marked [OF assms(1)] by (simp add: x_def hi_def lo_def)
  then show "192 \<le> unat hi" "pointer_target hi lo = unat off"
    using unat_byte_less [of lo] unfolding pointer_target_def by linarith+
qed

section \<open>Writing\<close>

lemma onBuffer_simps [simp]:
  "getBuffer (onBuffer f r) = f (getBuffer r)" "rd_table (onBuffer f r) = rd_table r" "seq_hashes (onBuffer f r) = seq_hashes r"
  "rd_compress_mode (onBuffer f r) = rd_compress_mode r" "msglength_limit (onBuffer f r) = msglength_limit r"
  "rd_truncated (onBuffer f r) = rd_truncated r" "case_sensitive (onBuffer f r) = case_sensitive r"
  by (simp_all add: getBuffer_def onBuffer_def case_sensitive_def split: option.split)

text \<open>What appending octets, of names or not, keeps.\<close>

definition appends :: "byte option list \<Rightarrow> byte option list \<Rightarrow> output_buffer \<Rightarrow> output_buffer \<Rightarrow> bool" where
  "appends N ys b b' \<longleftrightarrow> wf_ob b' \<and> ob_contents b' = ob_contents b @ ys \<and> length N = length ys \<and> extends N ys"

lemma length_contents: "wf_ob b \<Longrightarrow> length (ob_contents b) = ob_size b"
  by (simp add: ob_contents_def wf_ob_def getCapacity_def)

lemma marks_append:
  assumes "marks M b" "appends N ys b b'"
  shows "marks (M @ N) b'"
proof -
  have l: "length M = length (ob_contents b)" "length (M @ N) = length (ob_contents b')"
    using assms length_contents by (auto simp: marks_def appends_def)
  have "extends (M @ N) (ob_contents b @ ys)"
    using assms l by (auto simp: marks_def appends_def extends_def nth_append)
  then show ?thesis
    using assms l length_contents [of b'] by (simp add: marks_def appends_def)
qed

lemma item_names_mono: "item_names H cs M item L \<Longrightarrow> extends M M' \<Longrightarrow> item_names H cs M' item L"
  by (auto simp: item_names_def Let_def intro: linked_mono octets_at_mono)

lemma rd_inv_append:
  assumes "rd_inv H M r" "appends N ys (getBuffer r) (getBuffer r')"
    and "rd_table r' = rd_table r" "length (seq_hashes r') = MAX_LABELS" "case_sensitive r' = case_sensitive r"
  shows "rd_inv H (M @ N) r'" "stored H M r item L \<Longrightarrow> stored H (M @ N) r' item L"
proof -
  have "\<exists>L. item_names H (case_sensitive r) (M @ N) item L" if "\<exists>L. item_names H (case_sensitive r) M item L" for item
    using that item_names_mono [OF _ extends_append] by blast
  then show "rd_inv H (M @ N) r'"
    using assms marks_append [of M "getBuffer r" N ys "getBuffer r'"] by (simp add: rd_inv_def)
  show "stored H M r item L \<Longrightarrow> stored H (M @ N) r' item L"
    using assms(3,5) item_names_mono [OF _ extends_append] by (auto simp: stored_def)
qed

lemma appends_writeData: "wf_ob b \<Longrightarrow> appends (map Some xs) (map Some xs) b (writeData xs b)"
  by (simp add: appends_def writeData_contents)

lemma write_uncompressed_spec:
  assumes "ls_rep s A" "u \<le> length A"
  shows "write_uncompressed s compress u r =
    (Inr (), if u > 0 \<or> \<not> compress then rd_writeData (if compress then wire (take u A) else wire A) r else r)"
proof -
  have n: "getLabelCount s = length A"
    using assms(1) by (rule ls_rep_count)
  obtain s' where s': "(if compress \<and> getLabelCount s > u then stripRight (getLabelCount s - u) s else Inr s) = Inr s'"
    "ls_rep s' (if compress then take u A else A)" if "u > 0 \<or> \<not> compress"
  proof (cases "compress \<and> getLabelCount s > u")
    case True
    then have "\<exists>s'. stripRight (length A - u) s = Inr s' \<and> ls_rep s' (take u A)" if "u > 0"
      using that ls_rep_stripRight [OF assms(1), of "length A - u"] n assms(2) by (cases "length A = 0") auto
    then show thesis
      using True n that by (cases "u = 0") auto
  next
    case False
    then show thesis
      using assms n by (intro that [of s]) auto
  qed
  show ?thesis
  proof (cases "u > 0 \<or> \<not> compress")
    case True
    obtain post where "getData s' = Inr (wire (if compress then take u A else A) @ post, length (wire (if compress then take u A else A)))"
      "rd_range (wire (if compress then take u A else A) @ post) 0 (length (wire (if compress then take u A else A))) = Inr (wire (if compress then take u A else A))"
      using s'(2) [OF True] by (rule ls_rep_octets)
    then show ?thesis
      using True s'(1) [OF True] by (simp add: write_uncompressed_def bindE_def liftS_def modifyE_def del: if_split split del: if_split)
        (simp split: if_splits)
  next
    case False
    then show ?thesis
      by (simp add: write_uncompressed_def ret_def)
  qed
qed

text \<open>
  The octets of a name: those of the labels \<open>P\<close> that are written out, and a pointer to \<open>T\<close> or the root.
\<close>

definition name_octets :: "(hash \<Rightarrow> byte \<Rightarrow> hash) \<Rightarrow> byte option list \<Rightarrow> renderer \<Rightarrow> bool \<Rightarrow> label list \<Rightarrow> nat \<Rightarrow> 16 word \<Rightarrow> label list \<Rightarrow> label list \<Rightarrow> byte list \<Rightarrow> bool" where
  "name_octets H M r compress A u off P T out \<longleftrightarrow>
     (if compress \<and> off \<noteq> NO_OFFSET
      then P = take u A \<and> (\<exists>item. stored H M r item T \<and> item_pos item = off) \<and> same_name (case_sensitive r) T (drop u A) \<and>
        (\<exists>hi lo. out = wire P @ [hi, lo] \<and> 192 \<le> unat hi \<and> pointer_target hi lo = unat off)
      else P = butlast A \<and> T = [[]] \<and> out = wire A)"

lemma written_out:
  assumes "rd_inv H M r" "abs_labels A" "search_result H M r A u off hs"
    and "name_octets H M r compress A u off P T out" "seq_hashes r' = hs" "case_sensitive r' = case_sensitive r"
  defines "M' \<equiv> M @ map Some out"
  shows "written H M' r' (length M) P T A u" "linked M' (length M) (length M) (P @ T) (length M + length out)"
proof -
  have A: "A = butlast A @ [[]]" "\<forall>l \<in> set (butlast A). valid_label l"
    using assms(2) unfolding abs_labels_def by (metis append_butlast_last_id, blast)
  have u: "u \<le> length A" "\<forall>j < u. j + 1 < length A \<longrightarrow> hs ! j = Some (name_hash H (case_sensitive r) (drop j A))"
    "off \<noteq> NO_OFFSET \<Longrightarrow> u + 1 < length A"
    using assms(3) by (auto simp: search_result_def split: if_splits)
  have at: "octets_at M' (length M) out"
    by (simp add: M'_def octets_at_def nth_append)
  have goal: "written H M' r' (length M) P T A u \<and> linked M' (length M) (length M) (P @ T) (length M + length out)"
  proof (cases "compress \<and> off \<noteq> NO_OFFSET")
    case True
    then obtain item hi lo where n: "P = take u A" "stored H M r item T" "item_pos item = off" "same_name (case_sensitive r) T (drop u A)"
      "out = wire P @ [hi, lo]" "192 \<le> unat hi" "pointer_target hi lo = unat off"
      using assms(4) by (auto simp: name_octets_def)
    obtain e where i: "linked M (unat off) (unat off) T e" "hd T \<noteq> []" "octets_at M (unat off) (word_of_nat (length (hd T)) # hd T)"
      using n(2,3) by (auto simp: stored_def item_names_def Let_def)
    have "unat off < length M"
      using i(3) by (simp add: octets_at_Cons)
    moreover obtain t T' where T: "T = t # T'"
      using linked_labels [OF i(1)] by (cases T) auto
    moreover have e: "extends M M'"
      by (simp add: M'_def)
    moreover have "octets_at M' (length M + length (wire P)) [hi, lo]"
      using at n(5) by (simp add: octets_at_append)
    ultimately have l: "linked M' (length M) (length M + length (wire P)) T (length M + length (wire P) + 2)"
      using linked.pointer [of M' "length M + length (wire P)" hi lo "unat off" "length M" t T' e] n(6,7) i octets_at_mono [OF i(3) e]
        linked_mono [OF i(1) e] by simp
    have P: "\<forall>l \<in> set P. valid_label l" "u = length P"
    proof -
      have "P = take u (butlast A)"
        using take_butlast [of u A] n(1) u(3) True by simp
      then show "\<forall>l \<in> set P. valid_label l"
        using A(2) by (meson in_set_takeD)
      show "u = length P"
        using n(1) u(1) by simp
    qed
    have s: "same_name (case_sensitive r) (P @ T) A"
      using n(1,4) unfolding same_name_def by (metis append_take_drop_id map_append)
    have "linked M' (length M) (length M) (P @ T) (length M + length out)"
      using linked_labels_then [OF P(1) _ l] at n(5) by (simp add: octets_at_append add.assoc)
    moreover have "written H M' r' (length M) P T A u"
      using P l s at n(5) assms(2,5,6) u True by (auto simp: written_def octets_at_append)
    ultimately show ?thesis
      by simp
  next
    case False
    then have n: "P = butlast A" "T = [[]]" "out = wire P @ [0]"
      using assms(4) arg_cong [OF A(1), of wire] by (auto simp: name_octets_def)
    have PT: "P @ T = A" "length A = length P + 1"
      using A(1) n(1,2) abs_labels_count(1) [OF assms(2)] by simp_all
    have z: "octets_at M' (length M + length (wire P)) [0]"
      using at n(3) by (simp add: octets_at_append)
    then have l: "linked M' (length M) (length M + length (wire P)) T (length M + length (wire P) + 1)"
      unfolding n(2) by (rule linked.root)
    have "linked M' (length M) (length M) (P @ T) (length M + length out)"
      using linked_labels_then [OF _ _ l] at n A(2) by (simp add: octets_at_append add.assoc)
    moreover have "octets_at M' (length M) (wire P)" "\<forall>l \<in> set P. valid_label l"
      using at n(1,3) A(2) by (simp_all add: octets_at_append)
    moreover have "u \<le> length P \<or> u = length P + 1 \<and> octets_at M' (length M + length (wire P)) [0]"
      using u(1) PT(2) z by (cases "u \<le> length P") simp_all
    moreover have "\<forall>j < u. j < length P \<longrightarrow> seq_hashes r' ! j = Some (name_hash H (case_sensitive r') (drop j A))"
      using u(2) PT(2) assms(5,6) by simp
    moreover have "same_name (case_sensitive r') (P @ T) A"
      using PT(1) by (simp add: same_name_def)
    ultimately show ?thesis
      using l assms(2) unfolding written_def by blast
  qed
  show "written H M' r' (length M) P T A u" "linked M' (length M) (length M) (P @ T) (length M + length out)"
    using goal by simp_all
qed

lemma rd_length: "rd_inv H M r \<Longrightarrow> rd_getLength r = length M"
  by (simp add: rd_inv_def marks_def rd_getLength_def ob_getLength_def)

lemma output_spec:
  assumes "rd_inv H M r" "abs_labels A" "ls_rep s A" "search_result H M r A u off hs"
  shows "\<exists>P T out r'. thenE (write_uncompressed s compress u) (write_pointer compress off) (r\<lparr>seq_hashes := hs\<rparr>) = (Inr (), r') \<and>
    name_octets H M r compress A u off P T out \<and> appends (map Some out) (map Some out) (getBuffer r) (getBuffer r') \<and>
    (\<exists>f. r' = onBuffer f (r\<lparr>seq_hashes := hs\<rparr>))"
proof -
  let ?r = "r\<lparr>seq_hashes := hs\<rparr>"
  have u: "u \<le> length A" "off = NO_OFFSET \<Longrightarrow> u = length A" "length A > 0"
    using assms(4) abs_labels_count(1) [OF assms(2)] by (auto simp: search_result_def)
  have wf: "wf_ob (getBuffer r)"
    using assms(1) by (simp add: rd_inv_def marks_def)
  note w = write_uncompressed_spec [OF assms(3) u(1), of compress]
  show ?thesis
  proof (cases "compress \<and> off \<noteq> NO_OFFSET")
    case False
    have "(if compress then wire (take u A) else wire A) = wire A" "u > 0 \<or> \<not> compress"
      using False u by auto
    then have "thenE (write_uncompressed s compress u) (write_pointer compress off) ?r = (Inr (), rd_writeData (wire A) ?r)"
      using False by (auto simp: thenE_def w write_pointer_def ret_def)
    moreover have "name_octets H M r compress A u off (butlast A) [[]] (wire A)"
      using False by (auto simp: name_octets_def)
    ultimately show ?thesis
      using appends_writeData [OF wf] by (fastforce simp: rd_writeData_def)
  next
    case True
    then obtain item T where item: "stored H M r item T" "item_pos item = off" "same_name (case_sensitive r) T (drop u A)"
      using assms(4) by (auto simp: search_result_def)
    then have "unat off \<le> MAX_COMPRESS_POINTER"
      by (auto simp: stored_def item_names_def Let_def)
    note ptr = pointer_octets [OF this]
    let ?x = "off OR COMPRESS_POINTER_MARK16"
    let ?out = "wire (take u A) @ [ucast (drop_bit 8 (?x AND 0xff00)), ucast (?x AND 0x00ff)]"
    define f where "f b = writeUint16 ?x (if u > 0 then writeData (wire (take u A)) b else b)" for b
    have app: "appends (map Some ?out) (map Some ?out) (getBuffer r) (f (getBuffer r))"
      using writeData_contents [OF wf] writeUint16_contents [OF wf] writeUint16_contents [OF writeData_contents(2) [OF wf]]
      by (auto simp: appends_def f_def)
    have "onBuffer (writeUint16 ?x) (onBuffer g ?r) = onBuffer (\<lambda>b. writeUint16 ?x (g b)) ?r" for g
      by (simp add: onBuffer_def split: option.split)
    moreover have "write_uncompressed s compress u ?r = (Inr (), if u > 0 then onBuffer (writeData (wire (take u A))) ?r else ?r)"
      unfolding w using True by (simp add: rd_writeData_def)
    moreover have "f = (if u > 0 then (\<lambda>b. writeUint16 ?x (writeData (wire (take u A)) b)) else writeUint16 ?x)"
      by (auto simp: f_def)
    ultimately have "thenE (write_uncompressed s compress u) (write_pointer compress off) ?r = (Inr (), onBuffer f ?r)"
      using True by (simp add: thenE_def write_pointer_def modifyE_def rd_writeUint16_def)
    moreover have "name_octets H M r compress A u off (take u A) T ?out"
      using True item ptr by (auto simp: name_octets_def)
    ultimately show ?thesis
      using app by (metis getBuffer_hashes onBuffer_simps(1))
  qed
qed

text \<open>
  Writing a name: it appends octets that denote the name, up to case where names are compared so, and keeps the table valid.
\<close>

definition name_appended :: "(hash \<Rightarrow> byte \<Rightarrow> hash) \<Rightarrow> byte option list \<Rightarrow> renderer \<Rightarrow> label list \<Rightarrow> bool \<Rightarrow> byte list \<Rightarrow> label list \<Rightarrow> renderer \<Rightarrow> bool" where
  "name_appended H M r A compress out L r' \<longleftrightarrow>
     rd_inv H (M @ map Some out) r' \<and> appends (map Some out) (map Some out) (getBuffer r) (getBuffer r') \<and>
     linked (M @ map Some out) (length M) (length M) L (length M + length out) \<and>
     same_name (case_sensitive r) L A \<and> (compress \<or> L = A) \<and> length out \<le> length (wire A) \<and>
     rd_compress_mode r' = rd_compress_mode r \<and> msglength_limit r' = msglength_limit r \<and> rd_truncated r' = rd_truncated r \<and>
     (\<forall>item K. stored H M r item K \<longrightarrow> stored H (M @ map Some out) r' item K) \<and>
     (length M \<le> MAX_COMPRESS_POINTER \<and> 1 < length A \<longrightarrow>
        (\<exists>item K. stored H (M @ map Some out) r' item K \<and> same_name (case_sensitive r) K A)) \<and>
     (compress \<and> 1 < length A \<and> (\<exists>item K. stored H M r item K \<and> same_name (case_sensitive r) K A) \<longrightarrow> length out = 2)"

lemma writeName_spec:
  assumes "rd_inv H M r" "abs_labels A" "ls_rep s A"
  obtains out L r' where "writeName_ls H s compress r = (Inr (), r')" "name_appended H M r A compress out L r'"
proof -
  obtain u off hs where s: "search_loop H (getLabelCount s) 0 s r = (Inr (u, off), r\<lparr>seq_hashes := hs\<rparr>)" "search_result H M r A u off hs"
    by (rule search_spec [OF assms])
  let ?r = "r\<lparr>seq_hashes := hs\<rparr>"
  obtain P T out r1 f where o: "thenE (write_uncompressed s compress u) (write_pointer compress off) ?r = (Inr (), r1)"
    "name_octets H M r compress A u off P T out" "appends (map Some out) (map Some out) (getBuffer r) (getBuffer r1)"
    "r1 = onBuffer f ?r"
    using output_spec [OF assms s(2), of compress] by blast
  let ?M = "M @ map Some out"
  have r1: "seq_hashes r1 = hs" "case_sensitive r1 = case_sensitive r" "rd_table r1 = rd_table r" "length hs = MAX_LABELS"
    using o(4) s(2) by (simp_all add: search_result_def)
  note inv1 = rd_inv_append [OF assms(1) o(3) r1(3) _ r1(2)]
  note out = written_out [OF assms(1,2) s(2) o(2) r1(1,2)]
  obtain r' tb where r': "record_loop u 0 (length M) (length (wire A)) r1 = (Inr (), r')" "r' = r1\<lparr>rd_table := tb\<rparr>" "rd_inv H ?M r'"
    "\<forall>item L. stored H ?M r1 item L \<longrightarrow> stored H ?M r' item L"
    "\<forall>j. j < u \<and> j < length P \<and> part_pos (length M) P j \<le> MAX_COMPRESS_POINTER \<longrightarrow> (\<exists>item. stored H ?M r' item (drop j (P @ T)))"
    using record_loop_spec [OF _ inv1(1) out(1), of 0 u] r1 by (auto simp: part_pos_def)
  have w: "writeName_ls H s compress r = (Inr (), r')"
    using s(1) o(1) r'(1) rd_length [OF assms(1)] ls_rep_getDataLength [OF assms(3)]
    by (auto simp: writeName_ls_def bindE_def thenE_def liftS_def Let_def rd_getLength_def split: prod.splits sum.splits)
  have same: "same_name (case_sensitive r) (P @ T) A"
    using out(1) r1(2) by (simp add: written_def)
  have kept: "stored H ?M r' item K" if "stored H M r item K" for item K
    using inv1(2) [OF _ that] r'(4) r1(1,4) by simp
  have "\<exists>item K. stored H ?M r' item K \<and> same_name (case_sensitive r) K A" if near: "length M \<le> MAX_COMPRESS_POINTER" and two: "1 < length A"
  proof (cases "u = 0")
    case True
    then obtain item K where "stored H M r item K" "same_name (case_sensitive r) K A"
      using s(2) two by (auto simp: search_result_def split: if_splits)
    then show ?thesis
      using kept by blast
  next
    case False
    moreover have "length P = u \<or> length P = length A - 1"
      using o(2) s(2) by (auto simp: name_octets_def search_result_def split: if_splits)
    ultimately have "0 < length P"
      using two by auto
    with False show ?thesis
      using r'(5) near same by (metis drop0 gr0I part_pos_def take0 wire.simps(1) list.size(3) add_0_right)
  qed
  moreover have "length out = 2" if "compress" "1 < length A" "stored H M r item K" "same_name (case_sensitive r) K A" for item K
  proof -
    have "u = 0"
      using s(2) that(2-4) by (auto simp: search_result_def)
    moreover have "off \<noteq> NO_OFFSET"
      using s(2) that(2) \<open>u = 0\<close> by (auto simp: search_result_def)
    ultimately show ?thesis
      using o(2) that(1) by (auto simp: name_octets_def)
  qed
  moreover have "compress \<or> P @ T = A"
  proof -
    have "butlast A @ [[]] = A"
      using assms(2) unfolding abs_labels_def by (metis append_butlast_last_id)
    then show ?thesis
      using o(2) by (auto simp: name_octets_def split: if_splits)
  qed
  moreover have "length out \<le> length (wire A)"
  proof (cases "compress \<and> off \<noteq> NO_OFFSET")
    case True
    then have "2 \<le> length (drop u A)"
      using s(2) by (auto simp: search_result_def)
    then have "2 \<le> length (wire (drop u A))"
      using length_wire_ge_length order_trans by blast
    moreover have "length (wire A) = length (wire (take u A)) + length (wire (drop u A))"
      by (metis append_take_drop_id length_append wire_append)
    ultimately show ?thesis
      using o(2) True by (auto simp: name_octets_def)
  next
    case False
    then show ?thesis
      using o(2) by (auto simp: name_octets_def)
  qed
  moreover have "rd_compress_mode r' = rd_compress_mode r" "msglength_limit r' = msglength_limit r" "rd_truncated r' = rd_truncated r"
    "getBuffer r' = getBuffer r1"
    using r'(2) o(4) by simp_all
  ultimately have "name_appended H M r A compress out (P @ T) r'"
    unfolding name_appended_def using r'(3) o(3) out(2) same kept by auto
  then show thesis
    using that w by blast
qed

section \<open>Runs of the renderer\<close>

text \<open>
  \<open>rendering H m r M N\<close>: the renderer reached the state \<open>r\<close> from a fresh or cleared one in the mode \<open>m\<close>, by writing names
  and other data in any order and by filling in octets that belong to no name.  \<open>M\<close> holds the octets that belong to names, and \<open>N\<close> the
  names with the positions where they begin and end.
\<close>

inductive rendering :: "(hash \<Rightarrow> byte \<Rightarrow> hash) \<Rightarrow> compress_mode \<Rightarrow> renderer \<Rightarrow> byte option list \<Rightarrow> (nat \<times> nat \<times> name) list \<Rightarrow> bool" for H where
  fresh: "setCompressMode m MessageRenderer = (Inr (), r) \<Longrightarrow> rendering H m r [] []"
| cleared: "rendering H m r M N \<Longrightarrow> setCompressMode m' (rd_clear r) = (Inr (), r') \<Longrightarrow> rendering H m' r' [] []"
| name: "rendering H m r M N \<Longrightarrow> wf_name n \<Longrightarrow> writeName H n compress r = (Inr (), r') \<Longrightarrow>
    rendering H m r' (M @ drop (length M) (ob_contents (getBuffer r'))) (N @ [(rd_getLength r, rd_getLength r', n)])"
| uint8: "rendering H m r M N \<Longrightarrow> rendering H m (rd_writeUint8 x r) (M @ replicate 1 None) N"
| uint16: "rendering H m r M N \<Longrightarrow> rendering H m (rd_writeUint16 y r) (M @ replicate 2 None) N"
| uint32: "rendering H m r M N \<Longrightarrow> rendering H m (rd_writeUint32 z r) (M @ replicate 4 None) N"
| data: "rendering H m r M N \<Longrightarrow> rendering H m (rd_writeData xs r) (M @ replicate (length xs) None) N"
| skip: "rendering H m r M N \<Longrightarrow> rendering H m (rd_skip k r) (M @ replicate k None) N"
| patch: "rendering H m r M N \<Longrightarrow> rd_writeUint16At y pos r = (Inr (), r') \<Longrightarrow> M ! pos = None \<Longrightarrow> M ! (pos + 1) = None \<Longrightarrow>
    rendering H m r' M N"
| limit: "rendering H m r M N \<Longrightarrow> rendering H m (setLengthLimit len r) M N"
| truncated: "rendering H m r M N \<Longrightarrow> rendering H m (setTruncated r) M N"

definition name_there :: "bool \<Rightarrow> byte option list \<Rightarrow> nat \<times> nat \<times> name \<Rightarrow> bool" where
  "name_there cs M = (\<lambda>(p, q, n). wf_name n \<and> (\<exists>L. linked M p p L q \<and> same_name cs L (labels_of n)))"

definition name_stored :: "(hash \<Rightarrow> byte \<Rightarrow> hash) \<Rightarrow> byte option list \<Rightarrow> renderer \<Rightarrow> nat \<times> nat \<times> name \<Rightarrow> bool" where
  "name_stored H M r = (\<lambda>(p, q, n). p \<le> MAX_COMPRESS_POINTER \<and> 1 < labelcount n \<longrightarrow>
     (\<exists>item K. stored H M r item K \<and> same_name (case_sensitive r) K (labels_of n)))"

definition rendering_inv :: "(hash \<Rightarrow> byte \<Rightarrow> hash) \<Rightarrow> compress_mode \<Rightarrow> renderer \<Rightarrow> byte option list \<Rightarrow> (nat \<times> nat \<times> name) list \<Rightarrow> bool" where
  "rendering_inv H m r M N \<longleftrightarrow>
     rd_inv H M r \<and> rd_compress_mode r = m \<and> (\<forall>w \<in> set N. name_there (case_sensitive r) M w \<and> name_stored H M r w)"

lemma name_there_mono: "name_there cs M w \<Longrightarrow> extends M M' \<Longrightarrow> name_there cs M' w"
  by (auto simp: name_there_def intro: linked_mono)

lemma rendering_append:
  assumes "rendering_inv H m r M N" "appends (replicate k None) ys (getBuffer r) (f (getBuffer r))"
  shows "rendering_inv H m (onBuffer f r) (M @ replicate k None) N"
proof -
  have inv: "rd_inv H M r"
    using assms(1) by (simp add: rendering_inv_def)
  have a: "appends (replicate k None) ys (getBuffer r) (getBuffer (onBuffer f r))"
    using assms(2) by simp
  note ap = rd_inv_append [OF inv a, simplified, OF inv [unfolded rd_inv_def, THEN conjunct2, THEN conjunct2, THEN conjunct1]]
  show ?thesis
    using assms(1) ap name_there_mono [OF _ extends_append]
    by (fastforce simp: rendering_inv_def name_stored_def)
qed

lemma appends_None:
  "wf_ob b' \<Longrightarrow> ob_contents b' = ob_contents b @ ys \<Longrightarrow> length ys = k \<Longrightarrow> appends (replicate k None) ys b b'"
  by (auto simp: appends_def extends_def)

lemma ob_skip_contents:
  "wf_ob b \<Longrightarrow> wf_ob (ob_skip k b)" "wf_ob b \<Longrightarrow> \<exists>ys. length ys = k \<and> ob_contents (ob_skip k b) = ob_contents b @ ys"
proof -
  assume b: "wf_ob b"
  let ?b = "ensureAllocated (ob_size b + k) b"
  have e: "ob_size b + k \<le> getCapacity ?b" "ob_size ?b = ob_size b" "ob_contents ?b = ob_contents b"
    using ensureAllocated [where needed = "ob_size b + k" and b = b] b by auto
  then show "wf_ob (ob_skip k b)"
    by (simp add: ob_skip_def wf_ob_def Let_def getCapacity_def)
  have "ob_contents (ob_skip k b) = ob_contents b @ take k (drop (ob_size b) (ob_buffer ?b))"
    using e by (simp add: ob_skip_def ob_contents_def Let_def take_add)
  then show "\<exists>ys. length ys = k \<and> ob_contents (ob_skip k b) = ob_contents b @ ys"
    using e(1) by (intro exI [of _ "take k (drop (ob_size b) (ob_buffer ?b))"]) (simp add: getCapacity_def)
qed

lemma rendering_patch:
  assumes "rendering_inv H m r M N" "rd_writeUint16At y pos r = (Inr (), r')" "M ! pos = None" "M ! (pos + 1) = None"
  shows "rendering_inv H m r' M N"
proof -
  define f where "f b = poke (pos + 1) (ucast (y AND 0x00ff)) (poke pos (ucast (drop_bit 8 (y AND 0xff00))) b)" for b
  have r': "r' = onBuffer (\<lambda>_. f (getBuffer r)) r" "pos + 2 \<le> ob_size (getBuffer r)"
    using assms(2) by (auto simp: rd_writeUint16At_def onBufferE_def writeUint16At_def raise_def f_def split: if_splits)
  have c: "ob_contents (f b) = (ob_contents b)[pos := Some (ucast (drop_bit 8 (y AND 0xff00))), pos + 1 := Some (ucast (y AND 0x00ff))]"
    "ob_size (f b) = ob_size b" "wf_ob (f b) = wf_ob b" for b
    by (simp_all add: f_def poke_def ob_contents_def take_update_swap wf_ob_def getCapacity_def)
  have m: "marks M (getBuffer r)"
    using assms(1) by (simp add: rendering_inv_def rd_inv_def)
  have "extends M ((ob_contents (getBuffer r))[pos := a, pos + 1 := b])" for a b
    unfolding extends_def
  proof (intro conjI allI impI)
    fix i
    assume "i < length M" "M ! i \<noteq> None"
    then have "i \<noteq> pos" "i \<noteq> pos + 1" "ob_contents (getBuffer r) ! i = M ! i"
      using assms(3,4) m by (auto simp: marks_def extends_def)
    then show "(ob_contents (getBuffer r))[pos := a, pos + 1 := b] ! i = M ! i"
      by simp
  qed (use m in \<open>simp add: marks_def extends_def\<close>)
  then have "marks M (f (getBuffer r))"
    using m by (simp add: marks_def c)
  then show ?thesis
    using assms(1) r'(1) by (auto simp: rendering_inv_def rd_inv_def name_stored_def stored_def)
qed

lemma rendering_name:
  assumes "rendering_inv H m r M N" "wf_name n"
  obtains out r' where "writeName H n compress r = (Inr (), r')" "drop (length M) (ob_contents (getBuffer r')) = map Some out"
    "rendering_inv H m r' (M @ map Some out) (N @ [(rd_getLength r, rd_getLength r', n)])" "rd_getLength r' = rd_getLength r + length out"
    "length out \<le> nlength n"
    "compress \<and> 1 < labelcount n \<and> (\<exists>item K. stored H M r item K \<and> same_name (case_sensitive r) K (labels_of n)) \<longrightarrow> length out = 2"
proof -
  obtain A where A: "abs_labels A" "n = mk_name A"
    using assms(2) by (rule wf_nameE)
  have inv: "rd_inv H M r"
    using assms(1) by (simp add: rendering_inv_def)
  obtain out L r' where w: "writeName_ls H (LabelSequence n) compress r = (Inr (), r')" "name_appended H M r A compress out L r'"
    by (rule writeName_spec [OF inv A(1), of "LabelSequence n" compress]) (use A ls_rep_LabelSequence in simp)
  have l: "labels_of n = A" "nlength n = length (wire A)" "labelcount n = length A"
    using A by simp_all
  let ?M = "M @ map Some out"
  have inv': "rd_inv H ?M r'" "appends (map Some out) (map Some out) (getBuffer r) (getBuffer r')"
    using w(2) by (simp_all add: name_appended_def)
  have len: "rd_getLength r = length M" "rd_getLength r' = length M + length out"
    using rd_length [OF inv] rd_length [OF inv'(1)] by simp_all
  have c: "length (ob_contents (getBuffer r)) = length M"
    using inv length_contents [of "getBuffer r"] by (simp add: rd_inv_def marks_def)
  have cs: "case_sensitive r' = case_sensitive r"
    using w(2) by (simp add: name_appended_def case_sensitive_def)
  have "name_stored H ?M r' v \<and> name_there (case_sensitive r') ?M v" if "v \<in> set N" for v
    using that assms(1) w(2) cs name_there_mono [OF _ extends_append]
    by (fastforce simp: rendering_inv_def name_stored_def name_appended_def)
  moreover have "name_stored H ?M r' (length M, length M + length out, n)" "name_there (case_sensitive r') ?M (length M, length M + length out, n)"
    using w(2) l cs assms(2) by (auto simp: name_stored_def name_there_def name_appended_def)
  moreover have "rd_compress_mode r' = m"
    using w(2) assms(1) by (simp add: name_appended_def rendering_inv_def)
  ultimately have "rendering_inv H m r' ?M (N @ [(length M, length M + length out, n)])"
    using inv' by (auto simp: rendering_inv_def)
  then show thesis
    using that [of r' out] w l len c inv'(2) by (auto simp: writeName_def name_appended_def appends_def)
qed

lemma getBuffer_frame [simp]:
  "getBuffer (r\<lparr>msglength_limit := x\<rparr>) = getBuffer r" "getBuffer (r\<lparr>rd_truncated := t\<rparr>) = getBuffer r"
  "case_sensitive (r\<lparr>msglength_limit := x\<rparr>) = case_sensitive r" "case_sensitive (r\<lparr>rd_truncated := t\<rparr>) = case_sensitive r"
  by (simp_all add: getBuffer_def case_sensitive_def split: option.split)

lemma rendering_start:
  "length (rd_table r) = BUCKETS \<Longrightarrow> (\<forall>i < BUCKETS. rd_table r ! i = []) \<Longrightarrow> length (seq_hashes r) = MAX_LABELS \<Longrightarrow>
   wf_ob (getBuffer r) \<Longrightarrow> ob_size (getBuffer r) = 0 \<Longrightarrow> rendering_inv H (rd_compress_mode r) r [] []"
  by (simp add: rendering_inv_def rd_inv_def marks_def extends_def)

lemma rendering_reach: "rendering H m r M N \<Longrightarrow> rendering_inv H m r M N"
proof (induction rule: rendering.induct)
  case (fresh m r)
  then have r: "r = MessageRenderer\<lparr>rd_compress_mode := m\<rparr>"
    by (auto simp: setCompressMode_def raise_def split: if_splits)
  show ?case
    using rendering_start [of r H]
    by (simp add: r MessageRenderer_def getBuffer_def OutputBuffer_def wf_ob_def)
next
  case (cleared m r M N m' r')
  then have r': "r' = (rd_clear r)\<lparr>rd_compress_mode := m'\<rparr>"
    by (auto simp: setCompressMode_def raise_def split: if_splits)
  have b: "getBuffer r' = ob_clear (getBuffer r)"
    by (simp add: r' rd_clear_def getBuffer_def onBuffer_def split: option.split)
  have "rd_inv H M r"
    using cleared.IH by (simp add: rendering_inv_def)
  then show ?case
    using rendering_start [of r' H] b by (simp add: r' rd_clear_def rd_inv_def ob_clear_def wf_ob_def)
next
  case (name m r M N n compress r')
  obtain out r'' where w: "writeName H n compress r = (Inr (), r'')" "drop (length M) (ob_contents (getBuffer r'')) = map Some out"
    "rendering_inv H m r'' (M @ map Some out) (N @ [(rd_getLength r, rd_getLength r'', n)])"
    by (rule rendering_name [OF name.IH name.hyps(2)])
  then show ?case
    using name.hyps(3) by simp
next
  case (uint8 m r M N x)
  then have "wf_ob (getBuffer r)" by (simp add: rendering_inv_def rd_inv_def marks_def)
  then show ?case
    unfolding rd_writeUint8_def using uint8.IH by (intro rendering_append appends_None) (auto simp: writeUint8_contents)
next
  case (uint16 m r M N y)
  then have "wf_ob (getBuffer r)" by (simp add: rendering_inv_def rd_inv_def marks_def)
  then show ?case
    unfolding rd_writeUint16_def using uint16.IH by (intro rendering_append appends_None) (auto simp: writeUint16_contents)
next
  case (uint32 m r M N z)
  then have "wf_ob (getBuffer r)" by (simp add: rendering_inv_def rd_inv_def marks_def)
  then show ?case
    unfolding rd_writeUint32_def using uint32.IH by (intro rendering_append appends_None) (auto simp: writeUint32_contents)
next
  case (data m r M N xs)
  then have "wf_ob (getBuffer r)" by (simp add: rendering_inv_def rd_inv_def marks_def)
  then show ?case
    unfolding rd_writeData_def using data.IH by (intro rendering_append appends_None) (auto simp: writeData_contents)
next
  case (skip m r M N k)
  then have "wf_ob (getBuffer r)" by (simp add: rendering_inv_def rd_inv_def marks_def)
  then obtain ys where "length ys = k" "ob_contents (ob_skip k (getBuffer r)) = ob_contents (getBuffer r) @ ys" "wf_ob (ob_skip k (getBuffer r))"
    using ob_skip_contents by blast
  then show ?case
    unfolding rd_skip_def using skip.IH by (intro rendering_append appends_None) auto
next
  case (patch m r M N y pos r')
  then show ?case by (blast intro: rendering_patch)
next
  case (limit m r M N len)
  then show ?case
    by (auto simp: rendering_inv_def rd_inv_def name_stored_def stored_def setLengthLimit_def)
next
  case (truncated m r M N)
  then show ?case
    by (auto simp: rendering_inv_def rd_inv_def name_stored_def stored_def setTruncated_def)
qed

lemma linked_read:
  assumes "linked M p p L q" "extends M (map Some msg)" "abs_labels L"
  shows "Name_wire False \<lparr>ib_data = msg, ib_position = p\<rparr> = (Inr (mk_name L), \<lparr>ib_data = msg, ib_position = q\<rparr>)"
  using Name_wire_denotes [of "\<lparr>ib_data = msg, ib_position = p\<rparr>" L q False] linked_names_at [OF linked_mono [OF assms(1,2)]]
    abs_labels_lengths(2) [OF assms(3)]
  by (simp add: downcase_char_def cong: map_cong)

lemma same_name_equals:
  assumes "same_name cs L (labels_of n)" "wf_name n"
  shows "wf_name (mk_name L)" "Name_equals (mk_name L) n = Inr True" "cs \<Longrightarrow> mk_name L = n"
proof -
  have A: "abs_labels (labels_of n)" "n = mk_name (labels_of n)"
    using assms(2) by (auto simp: wf_name_def)
  have L: "abs_labels L"
    using same_name_abs(1) [OF assms(1) A(1)] .
  then show wf: "wf_name (mk_name L)"
    by (rule wf_mk_name)
  have "map (map maptolower) L = map (map maptolower) (labels_of n)"
  proof (cases cs)
    case True
    then show ?thesis using assms(1) by (simp add: same_name_def fold_case_def cong: map_cong)
  next
    case False
    then show ?thesis using assms(1) by (simp add: same_name_def fold_case_def cong: map_cong)
  qed
  then have "name_key L = name_key (labels_of n)"
    by (simp add: name_key_def rev_map [symmetric])
  then show "Name_equals (mk_name L) n = Inr True"
    using Name_equals_labels [OF wf assms(2)] L by simp
  show "mk_name L = n" if cs
    using assms(1) A(2) that by (simp add: same_name_def fold_case_def cong: map_cong)
qed

lemma rendered_read:
  assumes "rendering H m r M N" "(p, q, n) \<in> set N" "ob_contents (getBuffer r) = map Some msg"
  obtains n' where "Name_wire False \<lparr>ib_data = msg, ib_position = p\<rparr> = (Inr n', \<lparr>ib_data = msg, ib_position = q\<rparr>)"
    "wf_name n'" "Name_equals n' n = Inr True" "m = CASE_SENSITIVE \<Longrightarrow> n' = n"
proof -
  have inv: "rendering_inv H m r M N"
    using assms(1) by (rule rendering_reach)
  obtain L where L: "wf_name n" "linked M p p L q" "same_name (case_sensitive r) L (labels_of n)"
    using inv assms(2) by (auto simp: rendering_inv_def name_there_def)
  have "extends M (map Some msg)"
    using inv assms(3) by (simp add: rendering_inv_def rd_inv_def marks_def)
  moreover have "abs_labels L"
    using same_name_abs(1) [OF L(3)] L(1) by (simp add: wf_name_def)
  ultimately have "Name_wire False \<lparr>ib_data = msg, ib_position = p\<rparr> = (Inr (mk_name L), \<lparr>ib_data = msg, ib_position = q\<rparr>)"
    by (rule linked_read [OF L(2)])
  then show thesis
    using that same_name_equals [OF L(3,1)] inv by (simp add: rendering_inv_def case_sensitive_def)
qed

end
