(* ===== verification/Render_Properties.thy ===== *)
theory Render_Properties
  imports Dns_Compression
begin

text \<open>
  The properties of the message renderer: the names in a rendered message, how much compression saves, and what trimming leaves behind.
\<close>

section \<open>Names in a rendered message\<close>

text \<open>
  C8.  Every name the renderer has written, compressed or not, is read back from the finished message where it was written: the wire
  parser ends behind it with an equal name, the very same name in the case sensitive mode.  Between the names anything may have been
  written, and octets that belong to no name may have been filled in later.
\<close>

theorem rendered_names_read_back:
  assumes "rendering H m r M N" "(p, q, n) \<in> set N" "ob_contents (getBuffer r) = map Some msg"
  shows "\<exists>n'. Name_wire False \<lparr>ib_data = msg, ib_position = p\<rparr> = (Inr n', \<lparr>ib_data = msg, ib_position = q\<rparr>) \<and>
    wf_name n' \<and> Name_equals n' n = Inr True \<and> (m = CASE_SENSITIVE \<longrightarrow> n' = n)"
  by (rule rendered_read [OF assms]) blast

definition demo_hash :: "hash \<Rightarrow> byte \<Rightarrow> hash" where
  "demo_hash h c = h * 31 + ucast c"

definition demo_name :: name where
  "demo_name = mk_name [[0x61], [0x62], []]"

definition demo_upper :: name where
  "demo_upper = mk_name [[0x63], [0x41], [0x42], []]"

lemma demo_names_wf: "wf_name demo_name" "wf_name demo_upper"
  unfolding demo_name_def demo_upper_def by (intro wf_mk_name; simp add: abs_labels_def valid_label_def name_limits)+

lemma marks_full: "marks (map Some xs) b \<Longrightarrow> ob_contents b = map Some xs"
  by (rule nth_equalityI) (auto simp: marks_def extends_def length_contents)

text \<open>A message with the names \<^verbatim>\<open>a.b\<close> and \<^verbatim>\<open>c.A.B\<close>.\<close>

lemma demo_rendering:
  obtains r M p q out r0 where "rendering demo_hash CASE_INSENSITIVE r (map Some out) [(0, p, demo_name), (p, q, demo_upper)]"
    "ob_contents (getBuffer r) = map Some out"
proof -
  have f: "rendering demo_hash CASE_INSENSITIVE MessageRenderer [] []"
    by (rule rendering.fresh) (simp add: setCompressMode_def MessageRenderer_def rd_getLength_def getBuffer_def OutputBuffer_def ob_getLength_def)
  have z: "rd_getLength MessageRenderer = 0"
    by (simp add: MessageRenderer_def rd_getLength_def getBuffer_def OutputBuffer_def ob_getLength_def)
  obtain out1 r1 where r1: "writeName demo_hash demo_name True MessageRenderer = (Inr (), r1)"
    "drop (length ([] :: byte option list)) (ob_contents (getBuffer r1)) = map Some out1"
    by (rule rendering_name [OF rendering_reach [OF f] demo_names_wf(1), of True]) blast
  have R1: "rendering demo_hash CASE_INSENSITIVE r1 (map Some out1) [(0, rd_getLength r1, demo_name)]"
    using rendering.name [OF f demo_names_wf(1) r1(1)] r1(2) z by simp
  obtain out2 r2 where r2: "writeName demo_hash demo_upper True r1 = (Inr (), r2)"
    "drop (length (map Some out1)) (ob_contents (getBuffer r2)) = map Some out2"
    by (rule rendering_name [OF rendering_reach [OF R1] demo_names_wf(2), of True]) blast
  have R2: "rendering demo_hash CASE_INSENSITIVE r2 (map Some (out1 @ out2)) [(0, rd_getLength r1, demo_name), (rd_getLength r1, rd_getLength r2, demo_upper)]"
    using rendering.name [OF R1 demo_names_wf(2) r2(1)] r2(2) by simp
  then have "marks (map Some (out1 @ out2)) (getBuffer r2)"
    using rendering_reach [OF R2] by (simp add: rendering_inv_def rd_inv_def)
  then show thesis
    using that R2 marks_full by blast
qed

theorem rendered_names_read_back_witness:
  "\<exists>msg p q n'. Name_wire False \<lparr>ib_data = msg, ib_position = p\<rparr> = (Inr n', \<lparr>ib_data = msg, ib_position = q\<rparr>) \<and>
    wf_name n' \<and> Name_equals n' demo_upper = Inr True"
proof -
  obtain r p q out where "rendering demo_hash CASE_INSENSITIVE r (map Some out) [(0, p, demo_name), (p, q, demo_upper)]"
    "ob_contents (getBuffer r) = map Some out"
    by (rule demo_rendering)
  from rendered_names_read_back [OF this(1) _ this(2), of p q demo_upper] show ?thesis
    by auto
qed

section \<open>What compression saves\<close>

text \<open>
  C9.  Writing a well-formed name never fails while a message is rendered, takes at most as many octets as the name has, and two octets
  where a name that is the same in the mode of the renderer was written before within the reach of a pointer.
\<close>

theorem compressed_size:
  assumes "rendering H m r M N" "wf_name n"
  shows "\<exists>r' k. writeName H n compress r = (Inr (), r') \<and> rd_getLength r' = rd_getLength r + k \<and> k \<le> nlength n \<and>
    (compress \<and> 1 < labelcount n \<and> (\<exists>(p, q, n') \<in> set N. p \<le> MAX_COMPRESS_POINTER \<and>
       (if m = CASE_SENSITIVE then n' = n else Name_equals n' n = Inr True)) \<longrightarrow> k = 2)"
proof -
  have inv: "rendering_inv H m r M N"
    using assms(1) by (rule rendering_reach)
  obtain out :: "byte list" and r' where w: "writeName H n compress r = (Inr (), r')" "rd_getLength r' = rd_getLength r + length out" "length out \<le> nlength n"
    "compress \<and> 1 < labelcount n \<and> (\<exists>item K. stored H M r item K \<and> same_name (case_sensitive r) K (labels_of n)) \<longrightarrow> length out = 2"
    by (rule rendering_name [OF inv assms(2), of compress]) blast
  have "\<exists>item K. stored H M r item K \<and> same_name (case_sensitive r) K (labels_of n)"
    if e: "(p, q, n') \<in> set N" "p \<le> MAX_COMPRESS_POINTER" "1 < labelcount n"
      "if m = CASE_SENSITIVE then n' = n else Name_equals n' n = Inr True" for p q n'
  proof -
    have n': "wf_name n'" "name_stored H M r (p, q, n')"
      using inv e(1) by (auto simp: rendering_inv_def name_there_def)
    have s: "same_name (case_sensitive r) (labels_of n') (labels_of n)"
      using e(4) inv Name_equals_labels [OF n'(1) assms(2)]
      by (auto simp: same_name_def case_sensitive_def rendering_inv_def fold_case_def name_key_def rev_map [symmetric] cong: map_cong split: if_splits)
    have "abs_labels (labels_of n)" "n = mk_name (labels_of n)" "n' = mk_name (labels_of n')"
      using assms(2) n'(1) by (auto simp: wf_name_def)
    then have "labelcount n' = labelcount n"
      using same_name_abs(2) [OF s] by (metis mk_name_simps(4))
    then obtain item K where "stored H M r item K" "same_name (case_sensitive r) K (labels_of n')"
      using n'(2) e(2,3) by (auto simp: name_stored_def)
    then show ?thesis
      using s by (auto simp: same_name_def)
  qed
  then show ?thesis
    using w by (intro exI [of _ r'] exI [of _ "length out"]) fastforce
qed

theorem compressed_size_witness:
  "\<exists>r r'. writeName demo_hash demo_name True r = (Inr (), r') \<and> rd_getLength r' = rd_getLength r + 2"
proof -
  obtain r p q out where R: "rendering demo_hash CASE_INSENSITIVE r (map Some out) [(0, p, demo_name), (p, q, demo_upper)]"
    by (rule demo_rendering)
  have "Name_equals demo_name demo_name = Inr True" "1 < labelcount demo_name"
    using Name_equals_labels [OF demo_names_wf(1,1)] by (simp_all add: demo_name_def)
  with compressed_size [OF R demo_names_wf(1), of True] show ?thesis
    by auto
qed

section \<open>Trimming\<close>

lemma compare_past_end:
  assumes "ob_size b \<le> unat (item_pos item)" "0 < unat (item_len item)"
  shows "fst (NameCompare cs b h item nb) =
    (if item_hash item \<noteq> h \<or> unat (item_len item) \<noteq> length (ib_data nb) then Inr False else Inl AssertionFailure)"
proof -
  obtain k where k: "unat (item_len item) = Suc k"
    using assms(2) by (cases "unat (item_len item)") auto
  have "nextPosition b (item_pos item) 0 = Inl AssertionFailure"
    using assms(1) by (simp add: nextPosition_def follow_pointers.simps ob_at_def)
  then have "compare_loop cs b (unat (item_len item)) (item_pos item) 0 nb' = (Inl AssertionFailure, nb')" for nb'
    unfolding k by (simp add: bindE_def liftS_def)
  then show ?thesis
    by (auto simp: NameCompare_def ib_getLength_def thenE_def setPosition_def)
qed

lemma find_past_end:
  assumes "\<forall>item \<in> set items. ob_size b \<le> unat (item_pos item) \<and> 0 < unat (item_len item)"
    and "\<exists>item \<in> set items. item_hash item = h \<and> unat (item_len item) = length d" "ib_data nb = d"
  shows "fst (find_item cs b h items nb) = Inl AssertionFailure"
  using assms
proof (induction items arbitrary: nb)
  case (Cons item items)
  have c: "fst (NameCompare cs b h item nb) =
    (if item_hash item \<noteq> h \<or> unat (item_len item) \<noteq> length (ib_data nb) then Inr False else Inl AssertionFailure)"
    using Cons.prems(1) by (intro compare_past_end) auto
  have d: "ib_data (snd (NameCompare cs b h item nb)) = d"
    using keepsD [OF NameCompare_keeps_data Cons.prems(3)] .
  obtain res nb' where N: "NameCompare cs b h item nb = (res, nb')"
    by fastforce
  show ?case
  proof (cases "item_hash item \<noteq> h \<or> unat (item_len item) \<noteq> length d")
    case True
    then have "\<exists>item \<in> set items. item_hash item = h \<and> unat (item_len item) = length d"
      using Cons.prems(2) by auto
    then have "fst (find_item cs b h items nb') = Inl AssertionFailure"
      using d N Cons.prems(1) by (intro Cons.IH) auto
    then show ?thesis
      using c N True Cons.prems(3) by (simp add: bindE_def)
  next
    case False
    then show ?thesis
      using c N Cons.prems(3) by (simp add: bindE_def)
  qed
qed simp

text \<open>
  C18.  Trimming does not forget: where the octets of a name are trimmed from the end of a message and the name is written again, with
  compression or without, the comparison with the recorded name reads behind the end of the buffer and the process is aborted.
\<close>

theorem trimmed_name_aborts:
  assumes "wf_name n" "1 < labelcount n" "k \<le> MAX_COMPRESS_POINTER"
  shows "\<exists>r1 r2. writeName H n compress (rd_skip k MessageRenderer) = (Inr (), r1) \<and>
    rd_trim (rd_getLength r1 - k) r1 = (Inr (), r2) \<and> fst (writeName H n compress' r2) = Inl AssertionFailure"
proof -
  let ?r0 = "rd_skip k MessageRenderer"
  have f: "rendering H CASE_INSENSITIVE MessageRenderer [] []"
    by (rule rendering.fresh) (simp add: setCompressMode_def MessageRenderer_def rd_getLength_def getBuffer_def OutputBuffer_def ob_getLength_def)
  have R0: "rendering H CASE_INSENSITIVE ?r0 (replicate k None) []"
    using rendering.skip [OF f, of k] by simp
  obtain A where A: "abs_labels A" "n = mk_name A" "labels_of n = A"
    using assms(1) by (rule wf_nameE)
  have inv0: "rd_inv H (replicate k None) ?r0"
    using rendering_reach [OF R0] by (simp add: rendering_inv_def)
  obtain out L r1 where w: "writeName_ls H (LabelSequence n) compress ?r0 = (Inr (), r1)" "name_appended H (replicate k None) ?r0 A compress out L r1"
    by (rule writeName_spec [OF inv0 A(1), of "LabelSequence n" compress]) (use A ls_rep_LabelSequence in simp)
  let ?M = "replicate k None @ map Some out" and ?cs = "case_sensitive r1"
  have inv: "rd_inv H ?M r1" and cs: "?cs = case_sensitive ?r0"
    using w(2) by (auto simp: name_appended_def case_sensitive_def)
  obtain item K where item: "stored H ?M r1 item K" "same_name ?cs K A"
    using w(2) assms(2,3) A(2) cs by (auto simp: name_appended_def)
  define r2 where "r2 = onBuffer (\<lambda>b. b\<lparr>ob_size := k\<rparr>) r1"
  have len: "rd_getLength r1 = k + length out"
    using rd_length [OF inv] by simp
  have trim: "rd_trim (rd_getLength r1 - k) r1 = (Inr (), r2)"
    using len by (simp add: rd_trim_def onBufferE_def ob_trim_def rd_getLength_def ob_getLength_def r2_def onBuffer_def getBuffer_def
        split: option.splits)
  have far: "k \<le> unat (item_pos i) \<and> 0 < unat (item_len i)" if "\<exists>L. item_names H ?cs ?M i L" for i
  proof -
    obtain L where "octets_at ?M (unat (item_pos i)) (word_of_nat (length (hd L)) # hd L)" "unat (item_len i) = length (wire L)" "abs_labels L"
      using \<open>\<exists>L. item_names H ?cs ?M i L\<close> by (auto simp: item_names_def Let_def)
    then show ?thesis
      by (auto simp: octets_at_Cons nth_append abs_labels_def split: if_splits intro: leI)
  qed
  let ?h = "name_hash H ?cs A" and ?nb = "InputBuffer (wire A)"
  have bucket: "\<forall>i \<in> set (rev (rd_table r1 ! bucket_id ?h)). k \<le> unat (item_pos i) \<and> 0 < unat (item_len i)"
  proof
    fix i
    assume "i \<in> set (rev (rd_table r1 ! bucket_id ?h))"
    moreover have "bucket_id ?h < BUCKETS"
      by (simp add: bucket_id_def BUCKETS_def)
    ultimately have "\<exists>L. item_names H ?cs ?M i L"
      using inv by (simp add: rd_inv_def)
    then show "k \<le> unat (item_pos i) \<and> 0 < unat (item_len i)"
      by (rule far)
  qed
  have "item_hash item = ?h" "unat (item_len item) = length (wire A)"
    using item same_name_hash [OF item(2) _ A(1)] by (auto simp: stored_def item_names_def Let_def)
  moreover have "item \<in> set (rd_table r1 ! bucket_id ?h)"
    using stored_bucket [OF inv item(1)] \<open>item_hash item = ?h\<close> by simp
  ultimately have "fst (find_item ?cs (getBuffer r2) ?h (rev (rd_table r1 ! bucket_id ?h)) ?nb) = Inl AssertionFailure"
    using bucket by (intro find_past_end [where d = "wire A"]) (auto simp: r2_def InputBuffer_def)
  then have "fst (findOffset ?cs ?h r2 ?nb) = Inl AssertionFailure"
    by (auto simp: findOffset_def bindE_def r2_def split: prod.splits sum.splits)
  then obtain nb where f: "findOffset ?cs ?h r2 ?nb = (Inl AssertionFailure, nb)"
    by (metis prod.collapse)
  obtain post where post: "getData (LabelSequence n) = Inr (wire A @ post, length (wire A))"
    "rd_range (wire A @ post) 0 (length (wire A)) = Inr (wire A)"
    using ls_rep_octets [OF ls_rep_LabelSequence [OF A(1)]] A(2) by metis
  obtain m where m: "getLabelCount (LabelSequence n) = Suc m"
    using ls_rep_count [OF ls_rep_LabelSequence [OF A(1)]] A(2) assms(2) by (cases "length A") auto
  have "length (wire A) \<noteq> 1" "0 < length (seq_hashes r2)"
    using length_wire_ge_length [of A] A(2) assms(2) inv by (auto simp: r2_def rd_inv_def name_limits)
  moreover have "findOffset ?cs ?h (r2\<lparr>seq_hashes := hs\<rparr>) ?nb = (Inl AssertionFailure, nb)" for hs
    using f by (simp add: findOffset_def)
  ultimately have "\<exists>r3. search_loop H (Suc m) 0 (LabelSequence n) r2 = (Inl AssertionFailure, r3)"
    using post ls_rep_getHash [OF ls_rep_LabelSequence [OF A(1)], of H ?cs] A(2)
    by (simp add: bindE_def liftS_def thenE_def modifyE_def Let_def case_sensitive_def r2_def)
  then have "fst (writeName H n compress' r2) = Inl AssertionFailure"
    unfolding writeName_def writeName_ls_def m by (auto simp: bindE_def)
  then show ?thesis
    using w(1) trim by (auto simp: writeName_def)
qed

theorem trimmed_name_aborts_witness:
  "\<exists>r1 r2. writeName demo_hash demo_name True (rd_skip 12 MessageRenderer) = (Inr (), r1) \<and>
    rd_trim (rd_getLength r1 - 12) r1 = (Inr (), r2) \<and> fst (writeName demo_hash demo_name False r2) = Inl AssertionFailure"
  by (rule trimmed_name_aborts [OF demo_names_wf(1)]) (simp_all add: demo_name_def MAX_COMPRESS_POINTER_def)

end
