(* ===== verification/D2_StateModel.thy ===== *)
theory D2_StateModel
  imports Bundy_Prelude
begin

text \<open>
  The generic state machine of the DHCP-DDNS daemon: \<^verbatim>\<open>LabeledValue\<close> and
  \<^verbatim>\<open>LabeledValueSet\<close> (\<^verbatim>\<open>src/bin/d2/labeled_value.cc\<close>), \<^verbatim>\<open>State\<close>, \<^verbatim>\<open>StateSet\<close> and
  \<^verbatim>\<open>StateModel\<close> (\<^verbatim>\<open>src/bin/d2/state_model.cc\<close>).

  A bound member function stored in a \<^verbatim>\<open>State\<close> is an identifier of type \<open>'h\<close>; the record
  of virtual functions says which operation an identifier stands for.  The run loop of
  the source may run forever for a careless derivation, so it is a partial function whose
  value \<open>None\<close> is non-termination.  Texts of exceptions and of log messages are left out.
\<close>

section \<open>Exceptions of the daemon\<close>

text \<open>
  The exception classes the modelled code throws; \<open>LibError\<close> are the exceptions of the
  DNS and utility libraries, \<open>NullPointer\<close> is the dereference of a null shared pointer
  (an assertion of \<^verbatim>\<open>boost::shared_ptr\<close>, no exception).
\<close>

datatype d2_exn =
    LabeledValueError
  | StateModelError
  | NameChangeTransactionError
  | NameAddTransactionError
  | NameRemoveTransactionError
  | NcrMessageError
  | DhcidRdataComputeError
  | D2CfgError
  | D2QueueMgrError
  | D2QueueMgrQueueEmpty
  | D2QueueMgrInvalidIndex
  | D2UpdateMgrError
  | NcrListenerError
  | NcrListenerOpenError
  | NcrListenerReceiveError
  | InvalidQRFlag
  | InvalidZoneSection
  | NotUpdateMessage
  | InvalidMessageOperation
  | InvalidRdataText
  | InvalidRdataLength
  | NotImplemented
  | IOError
  | LibError bundy_exn
  | NullPointer

text \<open>What \<^verbatim>\<open>catch (const std::exception&)\<close> catches.\<close>

fun std_exception :: "d2_exn \<Rightarrow> bool" where
  "std_exception NullPointer = False"
| "std_exception (LibError AssertionFailure) = False"
| "std_exception (LibError UndefinedRead) = False"
| "std_exception _ = True"

section \<open>LabeledValue and LabeledValueSet\<close>

record labeled_value =
  lv_value :: int
  lv_label :: string

definition LabeledValue :: "int \<Rightarrow> string \<Rightarrow> d2_exn + labeled_value" where
  "LabeledValue v label = (if label = [] then Inl LabeledValueError else Inr \<lparr>lv_value = v, lv_label = label\<rparr>)"

definition lv_eq :: "'m labeled_value_scheme \<Rightarrow> 'm labeled_value_scheme \<Rightarrow> bool" where
  "lv_eq a b \<longleftrightarrow> lv_value a = lv_value b"

definition lv_less :: "'m labeled_value_scheme \<Rightarrow> 'm labeled_value_scheme \<Rightarrow> bool" where
  "lv_less a b \<longleftrightarrow> lv_value a < lv_value b"

type_synonym 'm lv_set = "int \<rightharpoonup> 'm labeled_value_scheme"

definition lvs_isDefined :: "int \<Rightarrow> 'm lv_set \<Rightarrow> bool" where
  "lvs_isDefined v m \<longleftrightarrow> m v \<noteq> None"

definition lvs_getLabel :: "int \<Rightarrow> 'm lv_set \<Rightarrow> string" where
  "lvs_getLabel v m = (case m v of Some p \<Rightarrow> lv_label p | None \<Rightarrow> ''UNDEFINED'')"

definition lvs_get :: "int \<Rightarrow> 'm lv_set \<Rightarrow> 'm labeled_value_scheme option" where
  "lvs_get v m = m v"

text \<open>\<^verbatim>\<open>LabeledValueSet::add\<close>; the entry \<open>None\<close> is a null pointer.\<close>

definition lvs_add :: "'m labeled_value_scheme option \<Rightarrow> 'm lv_set \<Rightarrow> d2_exn + 'm lv_set" where
  "lvs_add entry m =
     (case entry of
        None \<Rightarrow> Inl LabeledValueError
      | Some p \<Rightarrow> if lvs_isDefined (lv_value p) m then Inl LabeledValueError else Inr (m(lv_value p \<mapsto> p)))"

definition lvs_add_value :: "int \<Rightarrow> string \<Rightarrow> unit lv_set \<Rightarrow> d2_exn + unit lv_set" where
  "lvs_add_value v label m = bindS (LabeledValue v label) (\<lambda>p. lvs_add (Some p) m)"

section \<open>State and StateSet\<close>

record 'h sm_state = labeled_value +
  st_handler :: 'h

type_synonym 'h state_set = "int \<rightharpoonup> 'h sm_state"

definition State :: "int \<Rightarrow> string \<Rightarrow> 'h \<Rightarrow> d2_exn + 'h sm_state" where
  "State v label h = bindS (LabeledValue v label) (\<lambda>p. Inr (labeled_value.extend p \<lparr>st_handler = h\<rparr>))"

text \<open>\<^verbatim>\<open>StateSet::add\<close> turns every exception into a \<open>StateModelError\<close>.\<close>

definition ss_add :: "int \<Rightarrow> string \<Rightarrow> 'h \<Rightarrow> 'h state_set \<Rightarrow> d2_exn + 'h state_set" where
  "ss_add v label h m =
     (case bindS (State v label h) (\<lambda>p. lvs_add (Some p) m) of
        Inl e \<Rightarrow> if std_exception e then Inl StateModelError else Inl e
      | Inr m' \<Rightarrow> Inr m')"

definition ss_getState :: "int \<Rightarrow> 'h state_set \<Rightarrow> d2_exn + 'h sm_state" where
  "ss_getState v m =
     (if \<not> lvs_isDefined v m then Inl StateModelError
      else case lvs_get v m of Some st \<Rightarrow> Inr st | None \<Rightarrow> Inl NullPointer)"

section \<open>StateModel\<close>

definition NEW_ST :: int where "NEW_ST = 0"
definition END_ST :: int where "END_ST = 1"
definition SM_DERIVED_STATE_MIN :: int where "SM_DERIVED_STATE_MIN = 11"
definition NOP_EVT :: int where "NOP_EVT = 0"
definition START_EVT :: int where "START_EVT = 1"
definition END_EVT :: int where "END_EVT = 2"
definition FAIL_EVT :: int where "FAIL_EVT = 3"
definition SM_DERIVED_EVENT_MIN :: int where "SM_DERIVED_EVENT_MIN = 11"

lemmas sm_values =
  NEW_ST_def END_ST_def SM_DERIVED_STATE_MIN_def NOP_EVT_def START_EVT_def END_EVT_def FAIL_EVT_def
  SM_DERIVED_EVENT_MIN_def

record 'h state_model =
  events :: "unit lv_set"
  states :: "'h state_set"
  dictionaries_initted :: bool
  curr_state :: int
  prev_state :: int
  last_event :: int
  next_event :: int
  on_entry_flag :: bool
  on_exit_flag :: bool

definition StateModel :: "'h state_model" where
  "StateModel = \<lparr>events = Map.empty, states = Map.empty, dictionaries_initted = False, curr_state = NEW_ST,
     prev_state = NEW_ST, last_event = NOP_EVT, next_event = NOP_EVT, on_entry_flag = False, on_exit_flag = False\<rparr>"

text \<open>
  The virtual functions of a derivation, and the operation a handler identifier stands for.
\<close>

record ('h, 's) sm_virtuals =
  v_defineEvents :: "('s, d2_exn, unit) exec"
  v_verifyEvents :: "('s, d2_exn, unit) exec"
  v_defineStates :: "('s, d2_exn, unit) exec"
  v_verifyStates :: "('s, d2_exn, unit) exec"
  v_onModelFailure :: "'s \<Rightarrow> 's"
  v_handler :: "'h \<Rightarrow> ('s, d2_exn, unit) exec"

subsection \<open>Status of the model\<close>

definition isModelNew :: "('h, 'm) state_model_scheme \<Rightarrow> bool" where
  "isModelNew s \<longleftrightarrow> curr_state s = NEW_ST"

definition isModelRunning :: "('h, 'm) state_model_scheme \<Rightarrow> bool" where
  "isModelRunning s \<longleftrightarrow> curr_state s \<noteq> NEW_ST \<and> curr_state s \<noteq> END_ST"

definition isModelWaiting :: "('h, 'm) state_model_scheme \<Rightarrow> bool" where
  "isModelWaiting s \<longleftrightarrow> isModelRunning s \<and> next_event s = NOP_EVT"

definition isModelDone :: "('h, 'm) state_model_scheme \<Rightarrow> bool" where
  "isModelDone s \<longleftrightarrow> curr_state s = END_ST"

definition didModelFail :: "('h, 'm) state_model_scheme \<Rightarrow> bool" where
  "didModelFail s \<longleftrightarrow> isModelDone s \<and> next_event s = FAIL_EVT"

definition getStateLabel :: "int \<Rightarrow> ('h, 'm) state_model_scheme \<Rightarrow> string" where
  "getStateLabel st s = lvs_getLabel st (states s)"

definition getEventLabel :: "int \<Rightarrow> ('h, 'm) state_model_scheme \<Rightarrow> string" where
  "getEventLabel ev s = lvs_getLabel ev (events s)"

text \<open>What \<^verbatim>\<open>std::ostream\<close> prints for an \<^verbatim>\<open>unsigned int\<close>.\<close>

definition show_uint :: "int \<Rightarrow> string" where
  "show_uint i = show_nat (nat i)"

definition getContextStr :: "('h, 'm) state_model_scheme \<Rightarrow> string" where
  "getContextStr s =
     ''current state: [ '' @ show_uint (curr_state s) @ '' '' @ getStateLabel (curr_state s) s @
     '' ] next event: [ '' @ show_uint (next_event s) @ '' '' @ getEventLabel (next_event s) s @ '' ]''"

definition getPrevContextStr :: "('h, 'm) state_model_scheme \<Rightarrow> string" where
  "getPrevContextStr s =
     ''previous state: [ '' @ show_uint (prev_state s) @ '' '' @ getStateLabel (prev_state s) s @
     '' ] last event: [ '' @ show_uint (next_event s) @ '' '' @ getEventLabel (last_event s) s @ '' ]''"

subsection \<open>Changing state and posting events\<close>

definition setState :: "int \<Rightarrow> (('h, 'm) state_model_scheme, d2_exn, unit) exec" where
  "setState st s =
     (if st \<noteq> END_ST \<and> \<not> lvs_isDefined st (states s) then raise StateModelError s
      else
        (let s1 = s\<lparr>prev_state := curr_state s, curr_state := st\<rparr>;
             s2 = s1\<lparr>on_entry_flag := (st \<noteq> END_ST \<and> prev_state s1 \<noteq> curr_state s1)\<rparr>
         in (Inr (), s2\<lparr>on_exit_flag := on_entry_flag s2\<rparr>)))"

definition postNextEvent :: "int \<Rightarrow> (('h, 'm) state_model_scheme, d2_exn, unit) exec" where
  "postNextEvent ev s =
     (if ev \<noteq> FAIL_EVT \<and> \<not> lvs_isDefined ev (events s) then raise StateModelError s
      else (Inr (), s\<lparr>last_event := next_event s, next_event := ev\<rparr>))"

definition doOnEntry :: "(('h, 'm) state_model_scheme, d2_exn, bool) exec" where
  "doOnEntry s = (Inr (on_entry_flag s), s\<lparr>on_entry_flag := False\<rparr>)"

definition doOnExit :: "(('h, 'm) state_model_scheme, d2_exn, bool) exec" where
  "doOnExit s = (Inr (on_exit_flag s), s\<lparr>on_exit_flag := False\<rparr>)"

definition transition :: "int \<Rightarrow> int \<Rightarrow> (('h, 'm) state_model_scheme, d2_exn, unit) exec" where
  "transition st ev = thenE (setState st) (postNextEvent ev)"

definition endModel :: "(('h, 'm) state_model_scheme, d2_exn, unit) exec" where
  "endModel = transition END_ST END_EVT"

definition abortModel :: "('h, ('h, 'm) state_model_scheme) sm_virtuals \<Rightarrow> (('h, 'm) state_model_scheme, d2_exn, unit) exec" where
  "abortModel V = thenE (transition END_ST FAIL_EVT) (modifyE (v_onModelFailure V))"

subsection \<open>Dictionaries\<close>

text \<open>\<^verbatim>\<open>catch (const std::exception&)\<close> that rethrows as a \<open>StateModelError\<close>.\<close>

definition as_StateModelError :: "('s, d2_exn, 'a) exec \<Rightarrow> ('s, d2_exn, 'a) exec" where
  "as_StateModelError m = catchE std_exception m (\<lambda>_. raise StateModelError)"

definition defineEvent :: "int \<Rightarrow> string \<Rightarrow> (('h, 'm) state_model_scheme, d2_exn, unit) exec" where
  "defineEvent v label s =
     (if \<not> isModelNew s then raise StateModelError s
      else as_StateModelError (\<lambda>s. case lvs_add_value v label (events s) of
             Inl e \<Rightarrow> raise e s | Inr m \<Rightarrow> (Inr (), s\<lparr>events := m\<rparr>)) s)"

definition getEvent :: "int \<Rightarrow> (('h, 'm) state_model_scheme, d2_exn, labeled_value option) exec" where
  "getEvent v s =
     (if \<not> lvs_isDefined v (events s) then raise StateModelError s else (Inr (lvs_get v (events s)), s))"

definition defineState :: "int \<Rightarrow> string \<Rightarrow> 'h \<Rightarrow> (('h, 'm) state_model_scheme, d2_exn, unit) exec" where
  "defineState v label h s =
     (if \<not> isModelNew s then raise StateModelError s
      else as_StateModelError (\<lambda>s. case ss_add v label h (states s) of
             Inl e \<Rightarrow> raise e s | Inr m \<Rightarrow> (Inr (), s\<lparr>states := m\<rparr>)) s)"

definition getState :: "int \<Rightarrow> (('h, 'm) state_model_scheme, d2_exn, 'h sm_state) exec" where
  "getState v s =
     (if \<not> lvs_isDefined v (states s) then raise StateModelError s else (ss_getState v (states s), s))"

text \<open>The implementations of the base class; \<open>nop\<close> identifies \<^verbatim>\<open>nopStateHandler\<close>.\<close>

definition sm_defineEvents :: "(('h, 'm) state_model_scheme, d2_exn, unit) exec" where
  "sm_defineEvents =
     thenE (defineEvent NOP_EVT ''NOP_EVT'') (thenE (defineEvent START_EVT ''START_EVT'')
       (thenE (defineEvent END_EVT ''END_EVT'') (defineEvent FAIL_EVT ''FAIL_EVT'')))"

definition sm_verifyEvents :: "(('h, 'm) state_model_scheme, d2_exn, unit) exec" where
  "sm_verifyEvents =
     thenE (getEvent NOP_EVT) (thenE (getEvent START_EVT) (thenE (getEvent END_EVT) (thenE (getEvent FAIL_EVT) (ret ()))))"

definition sm_defineStates :: "'h \<Rightarrow> (('h, 'm) state_model_scheme, d2_exn, unit) exec" where
  "sm_defineStates nop = thenE (defineState NEW_ST ''NEW_ST'' nop) (defineState END_ST ''END_ST'' nop)"

definition sm_verifyStates :: "(('h, 'm) state_model_scheme, d2_exn, unit) exec" where
  "sm_verifyStates = thenE (getState NEW_ST) (thenE (getState END_ST) (ret ()))"

definition sm_onModelFailure :: "('h, 'm) state_model_scheme \<Rightarrow> ('h, 'm) state_model_scheme" where
  "sm_onModelFailure s = s"

definition nopStateHandler :: "(('h, 'm) state_model_scheme, d2_exn, unit) exec" where
  "nopStateHandler = ret ()"

definition initDictionaries :: "('h, ('h, 'm) state_model_scheme) sm_virtuals \<Rightarrow> (('h, 'm) state_model_scheme, d2_exn, unit) exec" where
  "initDictionaries V =
     thenE (as_StateModelError (thenE (v_defineEvents V) (v_verifyEvents V)))
       (thenE (as_StateModelError (thenE (v_defineStates V) (v_verifyStates V)))
         (modifyE (\<lambda>s. s\<lparr>dictionaries_initted := True\<rparr>)))"

subsection \<open>The run loop\<close>

text \<open>\<^verbatim>\<open>getState(curr_state_)->run()\<close>\<close>

definition run_current :: "('h, ('h, 'm) state_model_scheme) sm_virtuals \<Rightarrow> (('h, 'm) state_model_scheme, d2_exn, unit) exec" where
  "run_current V s = bindE (getState (curr_state s)) (\<lambda>st. v_handler V (st_handler st)) s"

text \<open>\<^verbatim>\<open>!isModelDone() && getNextEvent() != NOP_EVT\<close>\<close>

definition keeps_running :: "('h, 'm) state_model_scheme \<Rightarrow> bool" where
  "keeps_running s \<longleftrightarrow> \<not> isModelDone s \<and> next_event s \<noteq> NOP_EVT"

partial_function (option) run_loop ::
    "('h, ('h, 'm) state_model_scheme) sm_virtuals \<Rightarrow> ('h, 'm) state_model_scheme \<Rightarrow>
     ((d2_exn + unit) \<times> ('h, 'm) state_model_scheme) option" where
  "run_loop V s =
     (case run_current V s of
        (Inl e, s') \<Rightarrow> Some (Inl e, s')
      | (Inr _, s') \<Rightarrow> if keeps_running s' then run_loop V s' else Some (Inr (), s'))"

declare run_loop.simps [code]

definition runModel :: "('h, ('h, 'm) state_model_scheme) sm_virtuals \<Rightarrow> int \<Rightarrow> ('h, 'm) state_model_scheme \<Rightarrow>
    ((d2_exn + unit) \<times> ('h, 'm) state_model_scheme) option" where
  "runModel V ev s =
     (let s1 = (if \<not> dictionaries_initted s then snd (abortModel V s) else s);
          r = (case postNextEvent ev s1 of
                 (Inl e, s2) \<Rightarrow> Some (Inl e, s2)
               | (Inr _, s2) \<Rightarrow> run_loop V s2)
      in case r of
           None \<Rightarrow> None
         | Some (Inl e, s3) \<Rightarrow> if std_exception e then Some (abortModel V s3) else Some (Inl e, s3)
         | Some (Inr _, s3) \<Rightarrow> Some (Inr (), s3))"

definition startModel :: "('h, ('h, 'm) state_model_scheme) sm_virtuals \<Rightarrow> int \<Rightarrow> ('h, 'm) state_model_scheme \<Rightarrow>
    ((d2_exn + unit) \<times> ('h, 'm) state_model_scheme) option" where
  "startModel V st s =
     (case thenE (initDictionaries V) (setState st) s of
        (Inl e, s') \<Rightarrow> Some (Inl e, s')
      | (Inr _, s') \<Rightarrow> runModel V START_EVT s')"

section \<open>Transitions\<close>

text \<open>The model after a transition that is accepted.\<close>

definition goto :: "int \<Rightarrow> int \<Rightarrow> ('h, 'm) state_model_scheme \<Rightarrow> ('h, 'm) state_model_scheme" where
  "goto st ev s = s\<lparr>prev_state := curr_state s, curr_state := st, last_event := next_event s, next_event := ev,
     on_entry_flag := (st \<noteq> END_ST \<and> curr_state s \<noteq> st), on_exit_flag := (st \<noteq> END_ST \<and> curr_state s \<noteq> st)\<rparr>"

lemma goto_simps [simp]:
  "curr_state (goto st ev s) = st" "next_event (goto st ev s) = ev" "prev_state (goto st ev s) = curr_state s"
  "events (goto st ev s) = events s" "states (goto st ev s) = states s"
  "dictionaries_initted (goto st ev s) = dictionaries_initted s"
  "on_entry_flag (goto st ev s) = (st \<noteq> END_ST \<and> curr_state s \<noteq> st)"
  "state_model.more (goto st ev s) = state_model.more s"
  by (simp_all add: goto_def)

lemma transition_goto:
  assumes "st = END_ST \<or> states s st \<noteq> None" "ev = FAIL_EVT \<or> events s ev \<noteq> None"
  shows "transition st ev s = (Inr (), goto st ev s)"
  using assms by (auto simp: transition_def thenE_def setState_def postNextEvent_def lvs_isDefined_def goto_def Let_def)

lemma abortModel_eq: "abortModel V s = (Inr (), v_onModelFailure V (goto END_ST FAIL_EVT s))"
  by (simp add: abortModel_def thenE_def transition_goto modifyE_def)

lemma run_current_defined:
  "states s (curr_state s) = Some st \<Longrightarrow> run_current V s = v_handler V (st_handler st) s"
  by (simp add: run_current_def bindE_def getState_def lvs_isDefined_def ss_getState_def lvs_get_def)

section \<open>What runModel promises\<close>

text \<open>Whenever the loop ends, no exception leaves \<^verbatim>\<open>runModel\<close>.\<close>

lemma runModel_no_throw:
  assumes "runModel V ev s = Some (Inl e, s')"
  shows "\<not> std_exception e"
  using assms
  by (auto simp: runModel_def Let_def abortModel_eq split: option.splits prod.splits sum.splits if_splits)

text \<open>
  The contract of a derivation: \<open>I\<close> holds whenever a handler is called, \<open>J\<close> when the loop
  stops, and \<open>rank\<close> goes down from one call to the next.
\<close>

locale model_run =
  fixes V :: "('h, ('h, 'm) state_model_scheme) sm_virtuals"
    and I J :: "('h, 'm) state_model_scheme \<Rightarrow> bool"
    and rank :: "('h, 'm) state_model_scheme \<Rightarrow> nat"
  assumes handler_step: "I s \<Longrightarrow> \<exists>s'. run_current V s = (Inr (), s') \<and>
    (if keeps_running s' then I s' \<and> rank s' < rank s else J s')"
begin

lemma run_loop_ends: "I s \<Longrightarrow> \<exists>s'. run_loop V s = Some (Inr (), s') \<and> \<not> keeps_running s' \<and> J s'"
proof (induction "rank s" arbitrary: s rule: less_induct)
  case less
  obtain s' where s': "run_current V s = (Inr (), s')" "if keeps_running s' then I s' \<and> rank s' < rank s else J s'"
    using handler_step [OF less.prems] by auto
  then show ?case
    using less.hyps [of s'] by (subst run_loop.simps) (auto split: if_splits)
qed

lemma runModel_ends:
  assumes "dictionaries_initted s" "events s ev \<noteq> None" "I (s\<lparr>last_event := next_event s, next_event := ev\<rparr>)"
  shows "\<exists>s'. runModel V ev s = Some (Inr (), s') \<and> \<not> keeps_running s' \<and> J s'"
proof -
  obtain s' where "run_loop V (s\<lparr>last_event := next_event s, next_event := ev\<rparr>) = Some (Inr (), s')"
    "\<not> keeps_running s'" "J s'"
    using run_loop_ends [OF assms(3)] by auto
  then show ?thesis
    using assms(1,2) by (auto simp: runModel_def postNextEvent_def lvs_isDefined_def)
qed

end

end
