(* ===== verification/Util_Time.thy ===== *)
theory Util_Time
  imports Bundy_Prelude
begin

text \<open>
  Time in DNSSEC text form, \<^verbatim>\<open>YYYYMMDDHHmmSS\<close> (\<^verbatim>\<open>src/lib/util/time_utilities.cc\<close>): the
  conversion of seconds since 1970 to text and back.  The loops subtract on 64-bit values they
  have compared before, so they are modelled on natural numbers; the functions take and return
  64-bit words.
\<close>

section \<open>The calendar\<close>

definition days :: "nat list" where
  "days = [31, 28, 31, 30, 31, 30, 31, 31, 30, 31, 30, 31]"

definition isLeap :: "nat \<Rightarrow> bool" where
  "isLeap y \<longleftrightarrow> (y mod 4 = 0 \<and> y mod 100 \<noteq> 0) \<or> y mod 400 = 0"

definition yearSecs :: "nat \<Rightarrow> nat" where
  "yearSecs year = (if isLeap year then 366 else 365) * 86400"

text \<open>An index beyond the table of days is an undefined read.\<close>

definition monthSecs :: "nat \<Rightarrow> nat \<Rightarrow> bundy_exn + nat" where
  "monthSecs month year =
     (if month < length days then Inr ((days ! month + (if month = 1 \<and> isLeap year then 1 else 0)) * 86400)
      else Inl UndefinedRead)"

lemma length_days: "length days = 12"
  by (simp add: days_def)

lemma monthSecs_Inr:
  assumes "m < 12"
  obtains s where "monthSecs m year = Inr s"
  using assms by (simp add: monthSecs_def length_days)

section \<open>From seconds to text\<close>

text \<open>The loop over the years; \<open>year\<close> is \<^verbatim>\<open>tm_year + 1900\<close>.\<close>

function year_loop :: "nat \<Rightarrow> nat \<Rightarrow> bundy_exn + nat \<times> nat" where
  "year_loop v year =
     (if yearSecs year \<le> v
      then if year + 1 > 9999 then Inl InvalidTime else year_loop (v - yearSecs year) (year + 1)
      else Inr (v, year))"
  by auto
termination
  by (relation "measure fst") (auto simp: yearSecs_def)

function month_loop :: "nat \<Rightarrow> nat \<Rightarrow> nat \<Rightarrow> bundy_exn + nat \<times> nat" where
  "month_loop year v mon =
     (case monthSecs mon year of
        Inl e \<Rightarrow> Inl e
      | Inr secs \<Rightarrow> if secs \<le> v then month_loop year (v - secs) (mon + 1) else Inr (v, mon))"
  by auto
termination
  by (relation "measure (\<lambda>(year, v, mon). 12 - mon)") (auto simp: monthSecs_def days_def split: if_splits)

text \<open>The loops over the days, hours and minutes count how often a fixed number of seconds fits.\<close>

function count_loop :: "nat \<Rightarrow> nat \<Rightarrow> nat \<Rightarrow> nat \<times> nat" where
  "count_loop secs v n = (if 0 < secs \<and> secs \<le> v then count_loop secs (v - secs) (n + 1) else (v, n))"
  by auto
termination
  by (relation "measure (\<lambda>(secs, v, n). v)") auto

declare year_loop.simps [simp del] month_loop.simps [simp del] count_loop.simps [simp del]

text \<open>\<^verbatim>\<open>setfill('0') << setw(w)\<close>.\<close>

definition setw0 :: "nat \<Rightarrow> nat \<Rightarrow> string" where
  "setw0 w n = replicate (w - length (show_nat n)) (CHR ''0'') @ show_nat n"

definition timeToText64 :: "64 word \<Rightarrow> bundy_exn + string" where
  "timeToText64 t =
     bindS (year_loop (unat t) 1970) (\<lambda>(v1, year).
     bindS (month_loop year v1 0) (\<lambda>(v2, mon).
       let (v3, mday) = count_loop 86400 v2 1;
           (v4, hour) = count_loop 3600 v3 0;
           (sec, min) = count_loop 60 v4 0
       in Inr (setw0 4 year @ setw0 2 (mon + 1) @ setw0 2 mday @ setw0 2 hour @ setw0 2 min @ setw0 2 sec)))"

text \<open>
  \<^verbatim>\<open>timeToText32\<close>: the 32-bit value stands for the first time that is not more than \<open>2^31 - 1\<close> seconds
  before the current time \<open>now\<close>, which is an argument.
\<close>

function base_loop :: "int \<Rightarrow> int \<Rightarrow> int" where
  "base_loop start t = (if t < start then base_loop start (t + 0x100000000) else t)"
  by auto
termination
  by (relation "measure (\<lambda>(start, t). nat (start - t))") auto

declare base_loop.simps [simp del]

definition timeToText32 :: "int \<Rightarrow> 32 word \<Rightarrow> bundy_exn + string" where
  "timeToText32 now t = timeToText64 (word_of_int (base_loop (now - 0x7fffffff) (uint t)))"

section \<open>From text to seconds\<close>

definition DATE_LEN :: nat where
  "DATE_LEN = 14"

definition isdigit :: "char \<Rightarrow> bool" where
  "isdigit c \<longleftrightarrow> 48 \<le> (of_char c :: nat) \<and> (of_char c :: nat) \<le> 57"

text \<open>What \<^verbatim>\<open>sscanf\<close> stores for a field of digits.\<close>

definition scan_number :: "string \<Rightarrow> nat" where
  "scan_number s = foldl (\<lambda>n c. n * 10 + (of_char c - 48)) 0 s"

definition checkRange :: "nat \<Rightarrow> nat \<Rightarrow> nat \<Rightarrow> bundy_exn + unit" where
  "checkRange lo hi v = (if v \<ge> lo \<and> v \<le> hi then Inr () else Inl InvalidTime)"

lemma checkRange_eq_Inr: "checkRange lo hi v = Inr u \<longleftrightarrow> lo \<le> v \<and> v \<le> hi"
  by (simp add: checkRange_def)

fun months_loop :: "nat \<Rightarrow> nat" where
  "months_loop 0 = 0"
| "months_loop (Suc m) = months_loop m + days ! m * 86400"

fun years_loop :: "nat \<Rightarrow> nat" where
  "years_loop 0 = 0"
| "years_loop (Suc k) = years_loop k + yearSecs (1970 + k)"

definition timeval :: "nat \<Rightarrow> nat \<Rightarrow> nat \<Rightarrow> nat \<Rightarrow> nat \<Rightarrow> nat \<Rightarrow> nat" where
  "timeval year month day hour minute second =
     second + 60 * minute + 3600 * hour + (day - 1) * 86400 + months_loop (month - 1) +
     (if isLeap year \<and> month > 2 then 86400 else 0) + years_loop (year - 1970)"

definition timeFromText64 :: "string \<Rightarrow> bundy_exn + 64 word" where
  "timeFromText64 text_in =
     (if \<not> list_all isdigit text_in then Inl InvalidTime
      else if length text_in \<noteq> DATE_LEN then Inl InvalidTime
      else
        (let year = scan_number (take 4 text_in);
             month = scan_number (take 2 (drop 4 text_in));
             day = scan_number (take 2 (drop 6 text_in));
             hour = scan_number (take 2 (drop 8 text_in));
             minute = scan_number (take 2 (drop 10 text_in));
             second = scan_number (take 2 (drop 12 text_in))
         in bindS (checkRange 1970 9999 year) (\<lambda>_.
            bindS (checkRange 1 12 month) (\<lambda>_.
            bindS (checkRange 1 (days ! (month - 1) + (if month = 2 \<and> isLeap year then 1 else 0)) day) (\<lambda>_.
            bindS (checkRange 0 23 hour) (\<lambda>_.
            bindS (checkRange 0 59 minute) (\<lambda>_.
            bindS (checkRange 0 60 second) (\<lambda>_.
              Inr (word_of_nat (timeval year month day hour minute second))))))))))"

definition timeFromText32 :: "string \<Rightarrow> bundy_exn + 32 word" where
  "timeFromText32 text_in = bindS (timeFromText64 text_in) (\<lambda>t. Inr (ucast t))"

section \<open>Digits\<close>

lemma scan_number_snoc: "scan_number (s @ [c]) = scan_number s * 10 + (of_char c - 48)"
  by (simp add: scan_number_def)

lemma scan_number_zeros: "scan_number (replicate k (CHR ''0'') @ s) = scan_number s"
  by (induction k) (simp_all add: scan_number_def)

lemma scan_show_nat [simp]: "scan_number (show_nat n) = n"
proof (induction n rule: show_nat.induct)
  case (1 n)
  show ?case
  proof (cases "n < 10")
    case True
    then show ?thesis by (subst show_nat.simps) (simp add: scan_number_def)
  next
    case False
    have "of_char (char_of (48 + n mod 10) :: char) = 48 + n mod 10"
      by simp
    then show ?thesis
      using 1 False by (subst show_nat.simps) (simp add: scan_number_snoc)
  qed
qed

lemma isdigit_show_nat: "list_all isdigit (show_nat n)"
proof (induction n rule: show_nat.induct)
  case (1 n)
  have "isdigit (char_of (48 + m))" if "m < 10" for m :: nat
    using that by (simp add: isdigit_def)
  then show ?case
    using 1 by (subst show_nat.simps) simp
qed

lemma length_show_nat: "n < 10 ^ Suc k \<Longrightarrow> length (show_nat n) \<le> Suc k"
proof (induction k arbitrary: n)
  case 0
  then show ?case by (subst show_nat.simps) simp
next
  case (Suc k)
  then have "n div 10 < 10 ^ Suc k"
    by (simp add: less_mult_imp_div_less)
  then show ?case
    using Suc.IH [of "n div 10"] by (subst show_nat.simps) simp
qed

lemma setw0:
  "scan_number (setw0 w n) = n" "list_all isdigit (setw0 w n)"
  "n < 10 ^ w \<Longrightarrow> 0 < w \<Longrightarrow> length (setw0 w n) = w"
proof -
  show "scan_number (setw0 w n) = n"
    by (simp add: setw0_def scan_number_zeros)
  show "list_all isdigit (setw0 w n)"
    using isdigit_show_nat by (auto simp: setw0_def list_all_iff isdigit_def)
  show "length (setw0 w n) = w" if "n < 10 ^ w" "0 < w"
    using that length_show_nat [of n "w - 1"] by (simp add: setw0_def)
qed

section \<open>The loops\<close>

lemma yearSecs_pos [simp]: "0 < yearSecs y"
  by (simp add: yearSecs_def)

lemma years_loop_mono: "j \<le> k \<Longrightarrow> years_loop j \<le> years_loop k"
  by (induction k) (auto simp: le_Suc_eq)

lemma years_loop_strict: "j < k \<Longrightarrow> years_loop j < years_loop k"
  using years_loop_mono [of "Suc j" k] by (simp add: less_le_trans [OF _ years_loop_mono [of "Suc j" k]])

text \<open>The calendar repeats after 400 years, so the first second of the year 10000 is computed from 30 years.\<close>

lemma yearSecs_period: "yearSecs (y + 400) = yearSecs y"
proof -
  have "(y + 400) mod 4 = y mod 4" "(y + 400) mod 100 = y mod 100" "(y + 400) mod 400 = y mod 400"
    using mod_mult_self1 [of y 100 4] mod_mult_self1 [of y 4 100] by simp_all
  then show ?thesis by (simp add: yearSecs_def isLeap_def)
qed

lemma years_loop_numeral: "years_loop (numeral n) = years_loop (pred_numeral n) + yearSecs (1970 + pred_numeral n)"
  by (simp only: numeral_eq_Suc [of n] years_loop.simps)

lemma years_loop_30: "years_loop 30 = 946684800"
  by (simp add: years_loop_numeral yearSecs_def isLeap_def)

lemma years_loop_400: "years_loop 400 = 12622780800"
  by (simp add: years_loop_numeral yearSecs_def isLeap_def)

lemma years_loop_period: "years_loop (k + 400) = years_loop k + 12622780800"
proof (induction k)
  case (Suc k)
  then show ?case
    using yearSecs_period [of "1970 + k"] by (simp only: years_loop.simps add_Suc ac_simps)
qed (simp add: years_loop_400)

lemma years_loop_periods: "years_loop (k + n * 400) = years_loop k + n * 12622780800"
proof (induction n)
  case (Suc n)
  have "k + Suc n * 400 = (k + n * 400) + 400" by simp
  then have "years_loop (k + Suc n * 400) = years_loop (k + n * 400) + 12622780800"
    using years_loop_period by metis
  then show ?case
    using Suc by simp
qed simp

definition time_limit :: nat where
  "time_limit = 253402300800"

lemma years_loop_limit: "years_loop 8030 = time_limit"
  using years_loop_periods [of 30 20] by (simp add: time_limit_def years_loop_30)

lemma year_loop_ok:
  "v + years_loop k < years_loop 8030 \<Longrightarrow>
   \<exists>j r. year_loop v (1970 + k) = Inr (r, 1970 + j) \<and> j < 8030 \<and> v + years_loop k = years_loop j + r \<and> r < yearSecs (1970 + j)"
proof (induction v "1970 + k" arbitrary: k rule: year_loop.induct)
  case (1 v)
  have k: "k < 8030"
    using 1(2) years_loop_mono [of 8030 k] by (cases "k < 8030") auto
  show ?case
  proof (cases "yearSecs (1970 + k) \<le> v")
    case True
    have "years_loop (Suc k) \<le> v + years_loop k"
      using True by simp
    then have "Suc k < 8030"
      using 1(2) years_loop_mono [of 8030 "Suc k"] by (cases "Suc k < 8030") auto
    then show ?thesis
      using 1(1) [OF True, of "Suc k"] 1(2) True by (subst year_loop.simps) simp
  next
    case False
    then show ?thesis
      using k by (subst year_loop.simps) auto
  qed
qed

lemma year_loop_fails:
  "years_loop 8030 \<le> v + years_loop k \<Longrightarrow> k < 8030 \<Longrightarrow> year_loop v (1970 + k) = Inl InvalidTime"
proof (induction v "1970 + k" arbitrary: k rule: year_loop.induct)
  case (1 v)
  have *: "years_loop (Suc k) \<le> v + years_loop k"
    using 1(2,3) years_loop_mono [of "Suc k" 8030] by simp
  then show ?case
    using 1(1) [of "Suc k"] 1(2,3) by (subst year_loop.simps) auto
qed

lemma count_loop_div: "0 < secs \<Longrightarrow> count_loop secs v n = (v mod secs, n + v div secs)"
proof (induction secs v n rule: count_loop.induct)
  case (1 secs v n)
  then show ?case
    by (subst count_loop.simps) (auto simp: le_mod_geq le_div_geq)
qed

text \<open>The first second of a month in its year.\<close>

definition month_start :: "nat \<Rightarrow> nat \<Rightarrow> nat" where
  "month_start year m = months_loop m + (if isLeap year \<and> m > 1 then 86400 else 0)"

lemma months_loop_numeral: "months_loop (numeral n) = months_loop (pred_numeral n) + days ! pred_numeral n * 86400"
  by (simp only: numeral_eq_Suc [of n] months_loop.simps)

lemma month_start_Suc:
  "m < 12 \<Longrightarrow> monthSecs m year = Inr s \<Longrightarrow> month_start year (Suc m) = month_start year m + s"
  by (auto simp: month_start_def monthSecs_def split: if_splits)

lemma month_start_12: "month_start year 12 = yearSecs year"
  by (simp add: month_start_def yearSecs_def days_def months_loop_numeral)

lemma month_loop_ok:
  "v + month_start year m < yearSecs year \<Longrightarrow> m \<le> 12 \<Longrightarrow>
   \<exists>j r s. month_loop year v m = Inr (r, j) \<and> j < 12 \<and> v + month_start year m = month_start year j + r \<and>
     monthSecs j year = Inr s \<and> r < s"
proof (induction year v m rule: month_loop.induct)
  case (1 year v m)
  have "m \<noteq> 12"
    using 1(2) month_start_12 [of year] by auto
  then obtain s where s: "monthSecs m year = Inr s" "m < 12"
    using 1(3) by (simp add: monthSecs_def days_def)
  show ?case
  proof (cases "s \<le> v")
    case True
    then show ?thesis
      using 1(1) [OF s(1) True] 1(2) s month_start_Suc [OF s(2,1)] by (subst month_loop.simps) simp
  next
    case False
    then show ?thesis
      using s by (subst month_loop.simps) auto
  qed
qed

section \<open>The conversions\<close>

text \<open>Reading back six fields that are in range.\<close>

lemma timeFromText64_fields:
  assumes "1970 \<le> year" "year \<le> 9999" "mon < 12" "monthSecs mon year = Inr s" "d < s div 86400" "h < 24" "m < 60" "sec \<le> 60"
  shows "timeFromText64 (setw0 4 year @ setw0 2 (mon + 1) @ setw0 2 (d + 1) @ setw0 2 h @ setw0 2 m @ setw0 2 sec) =
    Inr (word_of_nat (sec + 60 * m + 3600 * h + 86400 * d + month_start year mon + years_loop (year - 1970)))"
proof -
  have s: "s div 86400 = days ! mon + (if mon = 1 \<and> isLeap year then 1 else 0)"
    using assms(3,4) by (auto simp: monthSecs_def split: if_splits)
  have "days ! mon \<le> 31"
    using assms(3) by (simp add: days_def nth_Cons' split: if_splits)
  then have "d < 99"
    using assms(5) s by (simp split: if_splits)
  then have len: "length (setw0 4 year) = 4" "length (setw0 2 (mon + 1)) = 2" "length (setw0 2 (d + 1)) = 2"
    "length (setw0 2 h) = 2" "length (setw0 2 m) = 2" "length (setw0 2 sec) = 2"
    using assms by (simp_all add: setw0(3))
  have "timeval year (mon + 1) (d + 1) h m sec = sec + 60 * m + 3600 * h + 86400 * d + month_start year mon + years_loop (year - 1970)"
    by (simp add: timeval_def month_start_def)
  moreover have "checkRange 1970 9999 year = Inr ()" "checkRange 1 12 (mon + 1) = Inr ()" "checkRange 0 23 h = Inr ()"
    "checkRange 0 59 m = Inr ()" "checkRange 0 60 sec = Inr ()"
    "checkRange 1 (days ! (mon + 1 - 1) + (if mon + 1 = 2 \<and> isLeap year then 1 else 0)) (d + 1) = Inr ()"
    using assms s by (simp_all add: checkRange_def)
  ultimately show ?thesis
    unfolding timeFromText64_def Let_def by (simp add: len setw0(1,2) DATE_LEN_def del: One_nat_def)
qed

lemma timeFromText64_length: "timeFromText64 text_in = Inr t \<Longrightarrow> length text_in = DATE_LEN"
  by (simp add: timeFromText64_def if_Inl_eq_Inr)

lemma time_round_trip:
  assumes "unat t < time_limit"
  shows "\<exists>text_in. timeToText64 t = Inr text_in \<and> length text_in = DATE_LEN \<and> timeFromText64 text_in = Inr t"
proof -
  obtain j r where y: "year_loop (unat t) 1970 = Inr (r, 1970 + j)" "j < 8030" "unat t = years_loop j + r" "r < yearSecs (1970 + j)"
    using year_loop_ok [of "unat t" 0] assms years_loop_limit by auto
  obtain mon r2 s where m: "month_loop (1970 + j) r 0 = Inr (r2, mon)" "mon < 12" "r = month_start (1970 + j) mon + r2"
    "monthSecs mon (1970 + j) = Inr s" "r2 < s"
    using month_loop_ok [of r "1970 + j" 0] y(4) by (auto simp: month_start_def)
  let ?d = "r2 div 86400" and ?h = "r2 mod 86400 div 3600" and ?m = "r2 mod 86400 mod 3600 div 60" and ?s = "r2 mod 86400 mod 3600 mod 60"
  let ?text_in = "setw0 4 (1970 + j) @ setw0 2 (mon + 1) @ setw0 2 (?d + 1) @ setw0 2 ?h @ setw0 2 ?m @ setw0 2 ?s"
  have text_in: "timeToText64 t = Inr ?text_in"
    by (simp add: timeToText64_def y(1) m(1) count_loop_div)
  have "86400 dvd s"
    using m(4) by (auto simp: monthSecs_def split: if_splits)
  then have d: "?d < s div 86400"
    using m(5) by (auto elim!: dvdE simp: less_mult_imp_div_less)
  have "?s + 60 * ?m + 3600 * ?h + 86400 * ?d = r2"
    using mult_div_mod_eq [of 60 "r2 mod 86400 mod 3600"] mult_div_mod_eq [of 3600 "r2 mod 86400"] mult_div_mod_eq [of 86400 r2]
    by linarith
  then have total: "?s + 60 * ?m + 3600 * ?h + 86400 * ?d + month_start (1970 + j) mon + years_loop (1970 + j - 1970) = unat t"
    using m(3) y(3) by simp
  have "timeFromText64 ?text_in = Inr (word_of_nat (unat t))"
    using timeFromText64_fields [OF _ _ m(2) m(4) d, of ?h ?m ?s] y(2) unfolding total by simp
  moreover have "length ?text_in = DATE_LEN"
    using calculation by (rule timeFromText64_length)
  ultimately show ?thesis
    using text_in by (intro exI [of _ ?text_in]) simp
qed

lemma timeToText64_fails: "time_limit \<le> unat t \<Longrightarrow> timeToText64 t = Inl InvalidTime"
  using year_loop_fails [of "unat t" 0] by (simp add: timeToText64_def years_loop_limit)

text \<open>What is accepted is at most the first second of the year 10000, which only a leap second reaches.\<close>

lemma timeFromText64_bound:
  assumes "timeFromText64 text_in = Inr t"
  shows "unat t \<le> time_limit"
proof -
  define year mon d h m sec where "year = scan_number (take 4 text_in)" "mon = scan_number (take 2 (drop 4 text_in))"
    "d = scan_number (take 2 (drop 6 text_in))" "h = scan_number (take 2 (drop 8 text_in))"
    "m = scan_number (take 2 (drop 10 text_in))" "sec = scan_number (take 2 (drop 12 text_in))"
  then have f: "1970 \<le> year" "year \<le> 9999" "1 \<le> mon" "mon \<le> 12" "1 \<le> d"
    "d \<le> days ! (mon - 1) + (if mon = 2 \<and> isLeap year then 1 else 0)" "h \<le> 23" "m \<le> 59" "sec \<le> 60"
    and t: "t = word_of_nat (timeval year mon d h m sec)"
    using assms by (simp_all add: timeFromText64_def Let_def bindS_eq_Inr if_Inl_eq_Inr checkRange_eq_Inr)
  have "mon - 1 < 12"
    using f(4) by simp
  then obtain s where s: "monthSecs (mon - 1) year = Inr s"
    by (rule monthSecs_Inr)
  have "d * 86400 \<le> s"
    using f(3,4,6) s by (auto simp: monthSecs_def split: if_splits)
  then have "sec + 60 * m + 3600 * h + (d - 1) * 86400 \<le> s"
    using f(5,7,8,9) by (cases d) auto
  moreover have "month_start year (Suc k) \<le> yearSecs year" if "k < 12" for k
  proof -
    have "month_start year a \<le> month_start year b" if "a \<le> b" "b \<le> 12" for a b
      using that
    proof (induction b)
      case (Suc b)
      obtain s where "monthSecs b year = Inr s"
        using Suc(3) monthSecs_Inr [of b year] by auto
      then have "month_start year b \<le> month_start year (Suc b)"
        using month_start_Suc [of b year s] Suc(3) by simp
      then show ?case
        using Suc by (auto simp: le_Suc_eq)
    qed simp
    then show ?thesis
      using that month_start_12 [of year] by (metis Suc_leI le_refl)
  qed
  from this [of "mon - 1"] have "month_start year (mon - 1) + s \<le> yearSecs year"
    using month_start_Suc [OF _ s] f(3,4) by simp
  ultimately have "timeval year mon d h m sec \<le> years_loop (year - 1970) + yearSecs year"
    using f(3) by (auto simp: timeval_def month_start_def split: if_splits)
  also have "\<dots> = years_loop (Suc (year - 1970))"
    using f(1) by simp
  also have "\<dots> \<le> time_limit"
    using years_loop_mono [of "Suc (year - 1970)" 8030] f(2) by (simp add: years_loop_limit)
  finally have "timeval year mon d h m sec \<le> time_limit" .
  then show ?thesis
    unfolding t by (simp add: unat_of_nat take_bit_eq_mod)
qed

text \<open>\<^verbatim>\<open>timeToText32\<close> prints a time that is congruent to its argument and not in the past half of the circle.\<close>

lemma base_loop_window:
  "start \<le> base_loop start t \<and> (\<exists>k. base_loop start t = t + int k * 0x100000000) \<and>
   (t < start \<longrightarrow> base_loop start t < start + 0x100000000)"
proof (induction start t rule: base_loop.induct)
  case (1 start t)
  show ?case
  proof (cases "t < start")
    case True
    then obtain k where "base_loop start (t + 0x100000000) = t + 0x100000000 + int k * 0x100000000"
      "start \<le> base_loop start (t + 0x100000000)" "base_loop start (t + 0x100000000) < start + 0x100000000 \<or> start \<le> t + 0x100000000"
      using 1 by fastforce
    moreover have "base_loop start (t + 0x100000000) = t + 0x100000000" if "start \<le> t + 0x100000000"
      using that by (subst base_loop.simps) simp
    ultimately show ?thesis
      using True by (subst (1 2 3) base_loop.simps) (auto intro: exI [of _ "Suc k"])
  next
    case False
    then show ?thesis
      by (subst (1 2 3) base_loop.simps) (auto intro: exI [of _ 0])
  qed
qed

end
