(* ===== verification/Util_Encode.thy ===== *)
theory Util_Encode
  imports Bundy_Prelude
begin

text \<open>
  Base-N text of binary data (\<^verbatim>\<open>src/lib/util/encode/base_n.cc\<close>): the transformer with its padding
  rules and its instances for base 16 and base 32 with the extended hex alphabet, whose tables the
  repository defines.  The bit stream iterator \<^verbatim>\<open>transform_width\<close> of Boost is a parameter \<open>tw\<close>:
  \<open>tw out inp xs\<close> are the groups of \<open>out\<close> bits it makes from the lowest \<open>inp\<close> bits of every
  element of \<open>xs\<close>.  Every exception of the decoder is a \<^verbatim>\<open>BadValue\<close>.
\<close>

section \<open>Bit groups\<close>

text \<open>A group of bits is written from its most significant bit.\<close>

definition to_bits :: "nat \<Rightarrow> nat \<Rightarrow> bool list" where
  "to_bits w n = map (\<lambda>i. bit n (w - 1 - i)) [0..<w]"

definition of_bits :: "bool list \<Rightarrow> nat" where
  "of_bits bs = foldl (\<lambda>n b. 2 * n + of_bool b) 0 bs"

function groups :: "nat \<Rightarrow> bool list \<Rightarrow> nat list" where
  "groups w bs =
     (if w = 0 \<or> bs = [] then []
      else of_bits (take w (bs @ replicate (w - length bs) False)) # groups w (drop w bs))"
  by auto
termination
  by (relation "measure (length \<circ> snd)") auto

declare groups.simps [simp del]

type_synonym width_transformer = "nat \<Rightarrow> nat \<Rightarrow> nat list \<Rightarrow> nat list"

text \<open>What \<^verbatim>\<open>transform_width\<close> is documented to do; missing bits at the end of the stream are zero.\<close>

definition regroups :: "width_transformer \<Rightarrow> bool" where
  "regroups tw \<longleftrightarrow> (\<forall>out inp xs. tw out inp xs = groups out (concat (map (to_bits inp) xs)))"

section \<open>The transformer\<close>

definition BASE_PADDING_CHAR :: char where
  "BASE_PADDING_CHAR = CHR ''=''"

definition BITS_PER_GROUP :: "nat \<Rightarrow> nat" where
  "BITS_PER_GROUP k = lcm k 8"

definition MAX_PADDING_CHARS :: "nat \<Rightarrow> nat" where
  "MAX_PADDING_CHARS k = BITS_PER_GROUP k div k - (8 div k + (if 8 mod k = 0 then 0 else 1))"

text \<open>\<^verbatim>\<open>isspace\<close> of a character that is greater than zero.\<close>

definition isspace :: "char \<Rightarrow> bool" where
  "isspace c \<longleftrightarrow> (of_char c :: nat) \<in> {0x20, 0x09, 0x0a, 0x0b, 0x0c, 0x0d}"

text \<open>The table lookups \<^verbatim>\<open>from_4_bit\<close> and \<^verbatim>\<open>from_5_bit\<close>, with their assertion.\<close>

fun from_table :: "string \<Rightarrow> nat list \<Rightarrow> bundy_exn + string" where
  "from_table table [] = Inr []"
| "from_table table (t # ts) =
     (if t < length table then bindS (from_table table ts) (\<lambda>r. Inr (table ! t # r)) else Inl AssertionFailure)"

definition baseN_encode :: "width_transformer \<Rightarrow> nat \<Rightarrow> string \<Rightarrow> byte list \<Rightarrow> bundy_exn + string" where
  "baseN_encode tw k table binary =
     (let bits0 = length binary * 8;
          bits = (if bits0 mod BITS_PER_GROUP k > 0 then bits0 + (BITS_PER_GROUP k - bits0 mod BITS_PER_GROUP k) else bits0);
          len = bits div k
      in bindS (from_table table (tw k 8 (map unat binary))) (\<lambda>result.
         if len \<ge> length result then Inr (result @ replicate (len - length result) BASE_PADDING_CHAR)
         else Inl AssertionFailure))"

text \<open>
  The loop that counts the padding characters from the end of the input, which is given reversed;
  the result is their number and the position \<^verbatim>\<open>srit\<close>, as the rest of the reversed input.
\<close>

fun pad_loop :: "nat \<Rightarrow> string \<Rightarrow> nat \<Rightarrow> bundy_exn + nat \<times> string" where
  "pad_loop maxpad [] padchars = Inr (padchars, [])"
| "pad_loop maxpad (ch # rest) padchars =
     (if ch = BASE_PADDING_CHAR
      then if padchars + 1 > maxpad then Inl BadValue else pad_loop maxpad rest (padchars + 1)
      else if \<not> isspace ch then Inr (padchars, ch # rest)
      else pad_loop maxpad rest padchars)"

text \<open>
  What \<^verbatim>\<open>DecodeNormalizer\<close> delivers for the input before \<^verbatim>\<open>base_beginpad_\<close> and from it on.  White space is
  skipped.  A padding character stands for zero once \<^verbatim>\<open>in_pad_\<close> is set, and is an error before; the
  flag is set by an increment that ends exactly at \<^verbatim>\<open>base_beginpad_\<close>, so not where the padding is
  preceded by white space.
\<close>

definition normalize :: "char \<Rightarrow> string \<Rightarrow> string \<Rightarrow> bundy_exn + string" where
  "normalize zero_code body tail =
     (if BASE_PADDING_CHAR \<in> set body then Inl BadValue
      else
        (let cs = filter (\<lambda>c. \<not> isspace c) body; pads = filter (\<lambda>c. \<not> isspace c) tail
         in if pads = [] then Inr cs
            else if body \<noteq> [] \<and> \<not> isspace (hd tail) then Inr (cs @ replicate (length pads) zero_code)
            else Inl BadValue))"

text \<open>The lookups \<^verbatim>\<open>to_4_bit\<close> and \<^verbatim>\<open>to_5_bit\<close>: a table from \<open>0\<close>, with \<open>None\<close> for \<^verbatim>\<open>-1\<close>.\<close>

fun to_table :: "nat option list \<Rightarrow> string \<Rightarrow> bundy_exn + nat list" where
  "to_table table [] = Inr []"
| "to_table table (c # cs) =
     (if of_char c < length table then
        (case table ! of_char c of
           None \<Rightarrow> Inl BadValue
         | Some v \<Rightarrow> bindS (to_table table cs) (\<lambda>r. Inr (v # r)))
      else Inl BadValue)"

definition baseN_decode :: "width_transformer \<Rightarrow> nat \<Rightarrow> char \<Rightarrow> nat option list \<Rightarrow> string \<Rightarrow> bundy_exn + byte list" where
  "baseN_decode tw k zero_code table input =
     bindS (pad_loop (MAX_PADDING_CHARS k) (rev input) 0) (\<lambda>(padchars, srit).
       let padbits = (padchars * k + 7) div 8 * 8 in
       if padbits > k * (padchars + 1) then Inl BadValue
       else
         (let padbytes = padbits div 8 in
          bindS (normalize zero_code (rev srit) (drop (length srit) input)) (\<lambda>cs.
          bindS (to_table table cs) (\<lambda>vs.
            if (length cs * k) mod 8 \<noteq> 0 then Inl BadValue
            else
              (let result = map word_of_nat (tw 8 k vs) in
               if \<not> length result \<ge> padbytes then Inl AssertionFailure
               else if padbytes > 0 \<and> result ! (length result - padbytes) \<noteq> 0 then Inl BadValue
               else Inr (take (length result - padbytes) result))))))"

section \<open>Base 16 and base 32\<close>

definition base16_chars :: string where
  "base16_chars = ''0123456789ABCDEF''"

definition base16_values :: "nat option list" where
  "base16_values =
     replicate 0x30 None @ map Some [0..<10] @ replicate 6 None @
     None # map Some [10..<16] @ replicate 9 None @ replicate 16 None @
     None # map Some [10..<16] @ replicate 9 None"

definition base32hex_chars :: string where
  "base32hex_chars = ''0123456789ABCDEFGHIJKLMNOPQRSTUV''"

definition base32hex_values :: "nat option list" where
  "base32hex_values =
     replicate 0x30 None @ map Some [0..<10] @ replicate 6 None @
     None # map Some [10..<32] @ replicate 9 None @
     None # map Some [10..<32] @ replicate 9 None"

definition encodeHex :: "width_transformer \<Rightarrow> byte list \<Rightarrow> bundy_exn + string" where
  "encodeHex tw binary = baseN_encode tw 4 base16_chars binary"

definition decodeHex :: "width_transformer \<Rightarrow> string \<Rightarrow> bundy_exn + byte list" where
  "decodeHex tw input = baseN_decode tw 4 (CHR ''0'') base16_values input"

definition encodeBase32Hex :: "width_transformer \<Rightarrow> byte list \<Rightarrow> bundy_exn + string" where
  "encodeBase32Hex tw binary = baseN_encode tw 5 base32hex_chars binary"

definition decodeBase32Hex :: "width_transformer \<Rightarrow> string \<Rightarrow> bundy_exn + byte list" where
  "decodeBase32Hex tw input = baseN_decode tw 5 (CHR ''0'') base32hex_values input"

section \<open>Bits and groups\<close>

lemma length_to_bits [simp]: "length (to_bits w n) = w"
  by (simp add: to_bits_def)

lemma of_bits_snoc: "of_bits (bs @ [b]) = 2 * of_bits bs + of_bool b"
  by (simp add: of_bits_def)

lemma to_bits_Suc: "to_bits (Suc w) n = to_bits w (n div 2) @ [odd n]"
proof -
  have "to_bits (Suc w) n = map (\<lambda>i. bit n (w - i)) [0..<w] @ [bit n 0]"
    by (simp add: to_bits_def)
  also have "map (\<lambda>i. bit n (w - i)) [0..<w] = to_bits w (n div 2)"
    unfolding to_bits_def by (rule map_cong) (auto simp flip: bit_Suc simp: Suc_diff_Suc)
  finally show ?thesis
    by (simp add: bit_0)
qed

lemma of_to_bits: "n < 2 ^ w \<Longrightarrow> of_bits (to_bits w n) = n"
proof (induction w arbitrary: n)
  case (Suc w)
  then have "n div 2 < 2 ^ w"
    by (simp add: less_mult_imp_div_less mult.commute)
  then show ?case
    using Suc.IH by (simp add: to_bits_Suc of_bits_snoc)
qed (simp add: of_bits_def to_bits_def)

lemma to_of_bits: "to_bits (length bs) (of_bits bs) = bs"
proof (induction bs rule: rev_induct)
  case (snoc b bs)
  then show ?case by (simp add: to_bits_Suc of_bits_snoc)
qed (simp add: to_bits_def)

lemma of_bits_less: "of_bits bs < 2 ^ length bs"
  by (induction bs rule: rev_induct) (auto simp: of_bits_snoc, simp add: of_bits_def)

lemma to_bits_0: "to_bits w 0 = replicate w False"
  by (simp add: to_bits_def map_replicate_const)

lemma groups_append:
  "0 < w \<Longrightarrow> length a = w \<Longrightarrow> groups w (a @ bs) = of_bits a # groups w bs"
  by (subst groups.simps) auto

lemma groups_values:
  assumes "0 < w" "\<forall>x \<in> set xs. x < 2 ^ w"
  shows "groups w (concat (map (to_bits w) xs) @ bs) = xs @ groups w bs"
  using assms by (induction xs) (simp_all add: groups_append of_to_bits)

lemma groups_Nil [simp]: "groups w [] = []"
  by (subst groups.simps) simp

text \<open>The groups of a stream hold its bits, filled up with zeros.\<close>

lemma groups_bits:
  assumes "0 < w"
  shows "\<exists>r < w. concat (map (to_bits w) (groups w bs)) = bs @ replicate r False \<and>
    length (groups w bs) * w = length bs + r \<and> (\<forall>x \<in> set (groups w bs). x < 2 ^ w)"
  using assms
proof (induction w bs rule: groups.induct)
  case (1 w bs)
  show ?case
  proof (cases "bs = []")
    case False
    let ?g = "take w (bs @ replicate (w - length bs) False)"
    have g: "length ?g = w"
      by simp
    have eq: "groups w bs = of_bits ?g # groups w (drop w bs)"
      using 1(2) False by (subst groups.simps) simp
    obtain r where r: "r < w" "concat (map (to_bits w) (groups w (drop w bs))) = drop w bs @ replicate r False"
      "length (groups w (drop w bs)) * w = length (drop w bs) + r" "\<forall>x \<in> set (groups w (drop w bs)). x < 2 ^ w"
      using 1 False by auto
    have bits: "concat (map (to_bits w) (groups w bs)) = ?g @ drop w bs @ replicate r False"
      using to_of_bits [of ?g] unfolding g by (simp add: eq r(2))
    have small: "\<forall>x \<in> set (groups w bs). x < 2 ^ w"
      using r(4) of_bits_less [of ?g] unfolding g by (simp add: eq)
    show ?thesis
    proof (cases "w \<le> length bs")
      case True
      then show ?thesis
        using r bits small by (intro exI [of _ r]) (simp add: eq)
    next
      case short: False
      then show ?thesis
        using r bits small False 1(2) by (intro exI [of _ "w - length bs"]) (simp add: eq)
    qed
  qed (use 1(2) in simp)
qed

section \<open>Decoding undoes encoding\<close>

lemma concat_replicate_bits: "concat (map (to_bits w) (replicate n 0)) = replicate (n * w) False"
  by (induction n) (simp_all add: to_bits_0 replicate_add)

lemma groups_zeros: "0 < w \<Longrightarrow> groups w (replicate (n * w) False) = replicate n 0"
  using groups_values [of w "replicate n 0" "[]"] by (simp flip: concat_replicate_bits)

locale alphabet =
  fixes k :: nat and chars :: string and vals :: "nat option list" and zero_code :: char
  assumes k_pos: "0 < k" and k_le: "k \<le> 8"
    and chars_len: "length chars = 2 ^ k"
    and chars_zero: "chars ! 0 = zero_code"
    and chars_plain: "c \<in> set chars \<Longrightarrow> c \<noteq> BASE_PADDING_CHAR \<and> \<not> isspace c"
    and chars_vals: "t < 2 ^ k \<Longrightarrow> of_char (chars ! t) < length vals \<and> vals ! of_char (chars ! t) = Some t"
begin

lemma from_table_map: "\<forall>t \<in> set ts. t < 2 ^ k \<Longrightarrow> from_table chars ts = Inr (map ((!) chars) ts)"
  by (induction ts) (simp_all add: chars_len)

lemma to_table_map: "\<forall>t \<in> set ts. t < 2 ^ k \<Longrightarrow> to_table vals (map ((!) chars) ts) = Inr ts"
  by (induction ts) (auto simp: chars_vals)

lemma text_plain:
  assumes "\<forall>t \<in> set ts. t < 2 ^ k"
  shows "\<forall>c \<in> set (map ((!) chars) ts). c \<noteq> BASE_PADDING_CHAR \<and> \<not> isspace c"
  using assms chars_plain by (auto simp: chars_len)

lemma not_space_pad: "\<not> isspace BASE_PADDING_CHAR"
  by (simp add: isspace_def BASE_PADDING_CHAR_def)

lemma pad_loop_pads:
  assumes "\<forall>c \<in> set cs. c \<noteq> BASE_PADDING_CHAR \<and> \<not> isspace c"
  shows "q + p \<le> maxpad \<Longrightarrow> pad_loop maxpad (replicate p BASE_PADDING_CHAR @ cs) q = Inr (q + p, cs)"
  using assms by (induction p arbitrary: q) (cases cs, simp_all)

text \<open>The number of padding characters is within the limit.\<close>

lemma pad_limit:
  assumes "0 < n" "m * k = 8 * n + r" "r < k" "G = lcm k 8" "L = (if 8 * n mod G > 0 then 8 * n + (G - 8 * n mod G) else 8 * n)"
  shows "L mod k = 0" "L mod 8 = 0" "8 * n \<le> L" "m \<le> L div k" "L div k - m \<le> MAX_PADDING_CHARS k"
proof -
  have G: "k dvd G" "8 dvd G" "0 < G"
    using assms(4) k_pos by (auto intro: lcm_pos_nat)
  have "8 * n mod G \<le> 8 * n" "8 * n mod G \<le> G"
    using G(3) by (simp_all add: mod_le_divisor)
  then have "8 * n + (G - 8 * n mod G) = (8 * n - 8 * n mod G) + G"
    by linarith
  moreover have "G dvd (8 * n - 8 * n mod G) + G"
    by (rule dvd_add [OF dvd_minus_mod dvd_refl])
  ultimately have "G dvd L"
    using assms(5) by (auto simp: mod_eq_0_iff_dvd)
  then show "L mod k = 0" "L mod 8 = 0"
    using G by (auto intro: dvd_trans)
  show n_le: "8 * n \<le> L"
    using assms(5) by simp
  obtain g where g: "L = G * g"
    using \<open>G dvd L\<close> by auto
  obtain a where a: "G = k * a"
    using G(1) by auto
  have Lk: "L div k = a * g"
    using k_pos by (simp add: g a)
  show le: "m \<le> L div k"
  proof -
    have "8 * n \<le> k * (a * g)"
      using n_le by (simp add: g a)
    then have "m * k < k * (a * g) + k"
      using assms(2,3) by linarith
    then have "m < a * g + 1"
      by (metis add.commute mult.commute mult_Suc_right mult_less_cancel2 Suc_eq_plus1)
    then show ?thesis by (simp add: Lk)
  qed
  have "8 * n + G \<ge> L + 8"
  proof -
    have "L < 8 * n + G"
      using assms(5) G(3) by (auto split: if_splits)
    moreover have "8 dvd L" "8 dvd 8 * n + G"
      using \<open>G dvd L\<close> G(2) dvd_trans by auto
    ultimately show ?thesis by presburger
  qed
  then have "m * k + G \<ge> L + 8 + r"
    using assms(2) by simp
  then have "k * (a * g) + 8 \<le> k * (m + a)"
    by (simp add: g a algebra_simps)
  then have c8: "8 \<le> k * (m + a - a * g)"
    by (simp add: diff_mult_distrib2)
  define c where "c = 8 div k + (if 8 mod k = 0 then 0 else 1 :: nat)"
  have "c \<le> m + a - a * g"
  proof -
    have "8 div k \<le> m + a - a * g"
      using div_le_mono [OF c8, of k] k_pos by simp
    moreover have "8 div k \<noteq> m + a - a * g" if "8 mod k \<noteq> 0"
      using c8 that mult_div_mod_eq [of k 8] by (metis add.commute add_diff_cancel_right' diff_is_0_eq not_gr_zero)
    ultimately show ?thesis by (auto simp: c_def)
  qed
  moreover have "1 \<le> c"
    using div_le_mono [OF k_le, of k] k_pos by (simp add: c_def)
  ultimately have "a * g - m \<le> a - c"
    by linarith
  moreover have "BITS_PER_GROUP k div k = a"
    using k_pos nonzero_mult_div_cancel_left [of k a] unfolding a [symmetric] assms(4) BITS_PER_GROUP_def by simp
  ultimately show "L div k - m \<le> MAX_PADDING_CHARS k"
    unfolding MAX_PADDING_CHARS_def Lk c_def by simp
qed

lemma decode_encode:
  assumes "regroups tw"
  shows "\<exists>t'. baseN_encode tw k chars bs = Inr t' \<and> baseN_decode tw k zero_code vals t' = Inr bs"
proof -
  let ?B = "concat (map (to_bits 8) (map unat bs))"
  let ?G = "BITS_PER_GROUP k"
  define N where "N = (if 8 * length bs mod ?G > 0 then 8 * length bs + (?G - 8 * length bs mod ?G) else 8 * length bs)"
  define vs where "vs = groups k ?B"
  have B: "length ?B = 8 * length bs"
    by (simp add: length_concat comp_def sum_list_triv)
  obtain r where r: "r < k" "concat (map (to_bits k) vs) = ?B @ replicate r False" "length vs * k = 8 * length bs + r"
    "\<forall>x \<in> set vs. x < 2 ^ k"
    using groups_bits [OF k_pos, of ?B] unfolding vs_def B by blast
  define p where "p = N div k - length vs"
  have L: "N mod k = 0" "N mod 8 = 0" "8 * length bs \<le> N" "length vs \<le> N div k" "p \<le> MAX_PADDING_CHARS k"
    if "bs \<noteq> []"
  proof -
    have "0 < length bs"
      using that by simp
    note pads = pad_limit [OF this r(3,1) BITS_PER_GROUP_def N_def]
    show "N mod k = 0" "N mod 8 = 0" "8 * length bs \<le> N" "length vs \<le> N div k" "p \<le> MAX_PADDING_CHARS k"
      unfolding p_def by (fact pads)+
  qed
  have empty: "vs = []" "N = 0" "p = 0" if "bs = []"
    using that by (simp_all add: vs_def p_def N_def)
  have pk: "length vs * k + p * k = N"
    using L(1,4) empty by (cases "bs = []") (auto simp: p_def simp flip: add_mult_distrib)
  let ?t = "map ((!) chars) vs"
  have enc: "baseN_encode tw k chars bs = Inr (?t @ replicate p BASE_PADDING_CHAR)"
    using L(4) empty assms r(4) by (cases "bs = []")
      (simp_all add: baseN_encode_def regroups_def from_table_map mult.commute [of _ 8] p_def vs_def N_def Let_def)
  have plain: "\<forall>c \<in> set ?t. c \<noteq> BASE_PADDING_CHAR \<and> \<not> isspace c"
    using r(4) by (rule text_plain)
  have "baseN_decode tw k zero_code vals (?t @ replicate p BASE_PADDING_CHAR) = Inr bs"
  proof -
    obtain a where a: "p * k + r = 8 * a"
    proof -
      have "8 dvd N"
        using L(2) empty(2) by (cases "bs = []") (simp_all only: mod_eq_0_iff_dvd simp_thms dvd_0_right not_False_eq_True)
      also have "N = 8 * length bs + (p * k + r)"
        using pk r(3) by linarith
      finally have "8 dvd p * k + r"
        using dvd_add_right_iff [of 8 "8 * length bs" "p * k + r"] by simp
      then show ?thesis
        using that by blast
    qed
    have r8: "r \<le> 7"
      using r(1) k_le by simp
    have "p * k \<le> 8 * a" "8 * a \<le> p * k + 7"
      using a r8 by linarith+
    then have padbytes: "(p * k + 7) div 8 = a"
      by (intro div_nat_eqI) simp_all
    have loop: "pad_loop (MAX_PADDING_CHARS k) (rev (?t @ replicate p BASE_PADDING_CHAR)) 0 = Inr (p, rev ?t)"
      using pad_loop_pads [of "rev ?t" 0 p "MAX_PADDING_CHARS k"] plain L(5) empty(3) by (cases "bs = []") auto
    have small: "a * 8 \<le> k * (p + 1)"
      using a r(1) by (simp add: algebra_simps)
    have norm: "normalize zero_code ?t (replicate p BASE_PADDING_CHAR) = Inr (?t @ replicate p zero_code)"
      using plain empty r(3) k_pos by (cases p) (auto simp: normalize_def not_space_pad)
    have vals: "to_table vals (?t @ replicate p zero_code) = Inr (vs @ replicate p 0)"
    proof -
      have "\<forall>t \<in> set (vs @ replicate p 0). t < 2 ^ k"
        using r(4) by auto
      then show ?thesis
        using to_table_map by (fastforce simp: chars_zero)
    qed
    have tw8: "tw 8 k (vs @ replicate p 0) = map unat bs @ replicate a 0"
    proof -
      have "concat (map (to_bits k) (vs @ replicate p 0)) = ?B @ replicate (a * 8) False"
      proof -
        have "concat (map (to_bits k) (vs @ replicate p 0)) = ?B @ replicate r False @ replicate (p * k) False"
          unfolding map_append concat_append r(2) concat_replicate_bits append_assoc ..
        also have "replicate r False @ replicate (p * k) False = replicate (a * 8) False"
          using a by (simp add: add.commute mult.commute flip: replicate_add)
        finally show ?thesis .
      qed
      then have "tw 8 k (vs @ replicate p 0) = groups 8 (?B @ replicate (a * 8) False)"
        using assms by (simp only: regroups_def)
      also have "\<dots> = map unat bs @ replicate a 0"
        using groups_values [of 8 "map unat bs" "replicate (a * 8) False"] by (simp add: groups_zeros)
      finally show ?thesis .
    qed
    have count: "((length vs + p) * k) mod 8 = 0"
      using L(2) empty(2) pk by (cases "bs = []") (auto simp: algebra_simps)
    show ?thesis
      unfolding baseN_decode_def loop using small count
      by (cases "a = 0") (simp_all add: padbytes norm vals tw8 comp_def nth_append Let_def)
  qed
  then show ?thesis
    using enc by blast
qed

end

interpretation base16: alphabet 4 base16_chars base16_values "CHR ''0''"
proof unfold_locales
  show "of_char (base16_chars ! t) < length base16_values \<and> base16_values ! of_char (base16_chars ! t) = Some t"
    if "t < 2 ^ 4" for t
  proof -
    have "list_all (\<lambda>t. of_char (base16_chars ! t) < length base16_values \<and> base16_values ! of_char (base16_chars ! t) = Some t) [0..<16]"
      by code_simp
    then show ?thesis
      using that by (simp add: list_all_iff)
  qed
qed (auto simp: base16_chars_def BASE_PADDING_CHAR_def isspace_def)

interpretation base32hex: alphabet 5 base32hex_chars base32hex_values "CHR ''0''"
proof unfold_locales
  show "of_char (base32hex_chars ! t) < length base32hex_values \<and> base32hex_values ! of_char (base32hex_chars ! t) = Some t"
    if "t < 2 ^ 5" for t
  proof -
    have "list_all (\<lambda>t. of_char (base32hex_chars ! t) < length base32hex_values \<and>
        base32hex_values ! of_char (base32hex_chars ! t) = Some t) [0..<32]"
      by code_simp
    then show ?thesis
      using that by (simp add: list_all_iff)
  qed
qed (auto simp: base32hex_chars_def BASE_PADDING_CHAR_def isspace_def)

section \<open>The text of base 16\<close>

definition hex_digit :: "nat \<Rightarrow> char" where
  "hex_digit n = base16_chars ! n"

definition hex_text :: "byte list \<Rightarrow> string" where
  "hex_text bs = concat (map (\<lambda>b. [hex_digit (unat b div 16), hex_digit (unat b mod 16)]) bs)"

lemma to_bits_add: "to_bits (a + b) n = to_bits a (n div 2 ^ b) @ to_bits b n"
proof (induction b arbitrary: n)
  case 0
  show ?case by (simp add: to_bits_def)
next
  case (Suc b)
  then show ?case
    by (simp add: to_bits_Suc div_mult2_eq)
qed

lemma to_bits_mod: "to_bits w (n mod 2 ^ w) = to_bits w n"
proof (induction w arbitrary: n)
  case (Suc w)
  have "n mod 2 ^ Suc w div 2 = n div 2 mod 2 ^ w"
    by (simp add: mod_mult2_eq)
  moreover have "odd (n mod 2 ^ Suc w) \<longleftrightarrow> odd n"
    by (simp add: mod_mult2_eq)
  ultimately show ?case
    using Suc.IH [of "n div 2"] by (simp only: to_bits_Suc)
qed (simp add: to_bits_def)

lemma encodeHex_text:
  assumes "regroups tw"
  shows "encodeHex tw bs = Inr (hex_text bs)"
proof -
  let ?ns = "concat (map (\<lambda>b. [unat b div 16, unat b mod 16]) bs)"
  have "to_bits 8 n = to_bits 4 (n div 16) @ to_bits 4 (n mod 16)" for n
    using to_bits_add [of 4 4 n] to_bits_mod [of 4 n] by simp
  then have bits: "concat (map (to_bits 8) (map unat bs)) = concat (map (to_bits 4) ?ns)"
    by (induction bs) simp_all
  have small: "\<forall>n \<in> set ?ns. n < 2 ^ 4"
    using unat_byte_less by (auto simp: less_mult_imp_div_less)
  have "tw 4 8 (map unat bs) = ?ns"
  proof -
    have "tw 4 8 (map unat bs) = groups 4 (concat (map (to_bits 4) ?ns))"
      using assms unfolding regroups_def bits [symmetric] by blast
    also have "\<dots> = ?ns"
      using groups_values [OF _ small, of "[]"] by (simp only: append_Nil2 groups_Nil zero_less_numeral)
    finally show ?thesis .
  qed
  moreover have "length ?ns = length bs * 2"
    by (induction bs) simp_all
  moreover have "map ((!) base16_chars) ?ns = hex_text bs"
    by (induction bs) (simp_all add: hex_text_def hex_digit_def)
  moreover have "length (hex_text bs) = length bs * 2"
    by (induction bs) (simp_all add: hex_text_def)
  ultimately show ?thesis
    using base16.from_table_map [OF small] by (simp add: encodeHex_def baseN_encode_def BITS_PER_GROUP_def lcm_nat_def Let_def)
qed

end
