(* ===== verification/Std_Map.thy ===== *)
theory Std_Map
  imports Bundy_Prelude "HOL-Library.List_Lexorder" "HOL-Library.Char_ord"
begin

text \<open>
  \<^verbatim>\<open>std::map\<close> as the list of its entries in the order of iteration, which is the order of the keys.
  A \<^verbatim>\<open>std::string\<close> is ordered by its octets, which is the lexicographic order of its characters.
  Clients use the laws of the locale \<open>keyed_store\<close>.
\<close>

type_synonym ('k, 'v) std_map = "('k \<times> 'v) list"

definition map_find :: "'k \<Rightarrow> ('k, 'v) std_map \<Rightarrow> 'v option" where
  "map_find k m = map_of m k"

fun map_put :: "'k::linorder \<Rightarrow> 'v \<Rightarrow> ('k, 'v) std_map \<Rightarrow> ('k, 'v) std_map" where
  "map_put k v [] = [(k, v)]"
| "map_put k v ((k', v') # m) =
     (if k < k' then (k, v) # (k', v') # m
      else if k = k' then (k, v) # m
      else (k', v') # map_put k v m)"

definition map_erase :: "'k \<Rightarrow> ('k, 'v) std_map \<Rightarrow> ('k, 'v) std_map" where
  "map_erase k m = filter (\<lambda>e. fst e \<noteq> k) m"

definition wf_map :: "('k::linorder, 'v) std_map \<Rightarrow> bool" where
  "wf_map m \<longleftrightarrow> sorted_wrt (<) (map fst m)"

lemma wf_map_simps [simp]:
  "wf_map []"
  "wf_map ((k, v) # m) \<longleftrightarrow> (\<forall>k' \<in> fst ` set m. k < k') \<and> wf_map m"
  by (auto simp: wf_map_def)

lemma keys_put [simp]: "fst ` set (map_put k v m) = insert k (fst ` set m)"
  by (induction k v m rule: map_put.induct) auto

lemma wf_put [simp]: "wf_map m \<Longrightarrow> wf_map (map_put k v m)"
  by (induction k v m rule: map_put.induct) auto

lemma find_put: "wf_map m \<Longrightarrow> map_find j (map_put k v m) = (if j = k then Some v else map_find j m)"
  by (induction k v m rule: map_put.induct) (auto simp: map_find_def)

lemma keys_erase [simp]: "fst ` set (map_erase k m) = fst ` set m - {k}"
  by (auto simp: map_erase_def)

lemma wf_erase [simp]: "wf_map m \<Longrightarrow> wf_map (map_erase k m)"
  by (induction m) (auto simp: map_erase_def)

lemma find_erase: "map_find j (map_erase k m) = (if j = k then None else map_find j m)"
  by (induction m) (auto simp: map_erase_def map_find_def)

lemma find_Nil [simp]: "map_find k [] = None"
  by (simp add: map_find_def)

lemma find_None_iff: "map_find k m = None \<longleftrightarrow> k \<notin> fst ` set m"
  by (simp add: map_find_def map_of_eq_None_iff)

lemma wf_map_distinct: "wf_map m \<Longrightarrow> distinct (map fst m)"
  by (simp add: wf_map_def strict_sorted_iff)

lemma find_Some_iff: "wf_map m \<Longrightarrow> map_find k m = Some v \<longleftrightarrow> (k, v) \<in> set m"
  by (simp add: map_find_def wf_map_distinct)

text \<open>A map is determined by its lookups.\<close>

lemma wf_map_eqI:
  assumes "wf_map m" "wf_map m'" "\<And>k. map_find k m = map_find k m'"
  shows "m = m'"
proof -
  have "set m = set m'"
    using assms find_Some_iff by (metis prod.collapse subsetI subset_antisym)
  moreover have "sorted (map fst m)" "sorted (map fst m')"
    using assms(1,2) by (simp_all add: wf_map_def strict_sorted_iff)
  ultimately show ?thesis
    using wf_map_distinct assms(1,2) map_sorted_distinct_set_unique [of fst m m']
    by (metis (no_types, lifting) Un_absorb distinct_map)
qed

lemma length_put: "wf_map m \<Longrightarrow> length (map_put k v m) = (if map_find k m = None then Suc (length m) else length m)"
  by (induction k v m rule: map_put.induct) (auto simp: map_find_def split: if_splits dest!: map_of_SomeD)

text \<open>Appending an entry with a greater key is what insertion in order does.\<close>

lemma put_greatest: "\<forall>k' \<in> fst ` set m. k' < k \<Longrightarrow> map_put k v m = m @ [(k, v)]"
  by (induction m) auto

section \<open>The interface\<close>

locale keyed_store =
  fixes good :: "'m \<Rightarrow> bool"
    and look :: "'k \<Rightarrow> 'm \<Rightarrow> 'v option"
    and put :: "'k \<Rightarrow> 'v \<Rightarrow> 'm \<Rightarrow> 'm"
    and del :: "'k \<Rightarrow> 'm \<Rightarrow> 'm"
  assumes good_put: "good m \<Longrightarrow> good (put k v m)"
    and good_del: "good m \<Longrightarrow> good (del k m)"
    and look_put: "good m \<Longrightarrow> look j (put k v m) = (if j = k then Some v else look j m)"
    and look_del: "good m \<Longrightarrow> look j (del k m) = (if j = k then None else look j m)"
begin

text \<open>A loop that inserts or erases one entry for every element of a list with distinct keys.\<close>

definition edit :: "'k \<times> 'v option \<Rightarrow> 'm \<Rightarrow> 'm" where
  "edit e m = (case snd e of None \<Rightarrow> del (fst e) m | Some v \<Rightarrow> put (fst e) v m)"

lemma good_edits: "good m \<Longrightarrow> good (fold edit es m)"
  by (induction es arbitrary: m) (auto simp: edit_def good_put good_del split: option.splits)

lemma look_edits:
  "good m \<Longrightarrow> distinct (map fst es) \<Longrightarrow>
   look j (fold edit es m) = (case map_of es j of None \<Rightarrow> look j m | Some r \<Rightarrow> r)"
proof (induction es arbitrary: m)
  case (Cons e es)
  have "good (edit e m)"
    using good_edits [OF Cons.prems(1), of "[e]"] by simp
  moreover have "look j (edit e m) = (if j = fst e then snd e else look j m)"
    using Cons.prems(1) by (auto simp: edit_def look_put look_del split: option.splits)
  moreover have "map_of es (fst e) = None"
    using Cons.prems(2) by (simp add: map_of_eq_None_iff)
  ultimately show ?case
    using Cons.IH [of "edit e m"] Cons.prems(2) by (cases e) (auto split: option.splits)
qed simp

end

interpretation std_map: keyed_store wf_map map_find map_put map_erase
  by unfold_locales (simp_all add: find_put find_erase)

end
