(* ===== verification/Cc_Data.thy ===== *)
theory Cc_Data
  imports Std_Map
begin

text \<open>
  The data elements of \<^verbatim>\<open>src/lib/cc/data.cc\<close>: the class \<^verbatim>\<open>Element\<close> and its derivations, their JSON
  parser and printer, equality, lookup by path, and the operations on maps.

  An element stands for a pointer to it, and \<open>NullPtr\<close> for a null pointer; elements a pointer
  is shared with are values, which is what the constness of \<^verbatim>\<open>ConstElementPtr\<close> gives.  Calling a
  method through a null pointer is a failed assertion of \<^verbatim>\<open>boost::shared_ptr\<close>.  Line and position,
  which the parser counts for its messages only, are left out, as all texts of exceptions.
  The number conversions of Boost and the printing of a \<^verbatim>\<open>double\<close> are the parameters in
  \<open>number_env\<close>; a \<^verbatim>\<open>double\<close> is its bit pattern.
\<close>

unbundle bit_operations_syntax

section \<open>Elements\<close>

datatype element =
    NullPtr
  | IntElement "64 word"
  | DoubleElement "64 word"
  | BoolElement bool
  | NullElement
  | StringElement string
  | ListElement "element list"
  | MapElement "(string \<times> element) list"

record number_env =
  lexical_int64 :: "string \<Rightarrow> 64 word option"
  lexical_double :: "string \<Rightarrow> 64 word option"
  show_double :: "64 word \<Rightarrow> string"

datatype element_type = Tinteger | Treal | Tboolean | Tnull | Tstring | Tlist | Tmap | Tany

text \<open>\<^verbatim>\<open>getType\<close>; \<open>None\<close> is a call through a null pointer.\<close>

fun getType :: "element \<Rightarrow> element_type option" where
  "getType NullPtr = None"
| "getType (IntElement _) = Some Tinteger"
| "getType (DoubleElement _) = Some Treal"
| "getType (BoolElement _) = Some Tboolean"
| "getType NullElement = Some Tnull"
| "getType (StringElement _) = Some Tstring"
| "getType (ListElement _) = Some Tlist"
| "getType (MapElement _) = Some Tmap"

text \<open>What a method that is only defined for another class of elements does.\<close>

fun no_method :: "element \<Rightarrow> bundy_exn + 'a" where
  "no_method NullPtr = Inl AssertionFailure"
| "no_method _ = Inl TypeError"

fun intValue :: "element \<Rightarrow> bundy_exn + int" where
  "intValue (IntElement i) = Inr (sint i)"
| "intValue e = no_method e"

fun doubleValue :: "element \<Rightarrow> bundy_exn + 64 word" where
  "doubleValue (DoubleElement d) = Inr d"
| "doubleValue e = no_method e"

fun boolValue :: "element \<Rightarrow> bundy_exn + bool" where
  "boolValue (BoolElement b) = Inr b"
| "boolValue e = no_method e"

fun stringValue :: "element \<Rightarrow> bundy_exn + string" where
  "stringValue (StringElement s) = Inr s"
| "stringValue e = no_method e"

fun listValue :: "element \<Rightarrow> bundy_exn + element list" where
  "listValue (ListElement l) = Inr l"
| "listValue e = no_method e"

fun mapValue :: "element \<Rightarrow> bundy_exn + (string, element) std_map" where
  "mapValue (MapElement m) = Inr m"
| "mapValue e = no_method e"

subsection \<open>Methods of lists\<close>

text \<open>\<^verbatim>\<open>vector::at\<close> throws for an index that is out of range, \<^verbatim>\<open>erase\<close> is undefined there.\<close>

fun list_get :: "int \<Rightarrow> element \<Rightarrow> bundy_exn + element" where
  "list_get i (ListElement l) = (if 0 \<le> i \<and> nat i < length l then Inr (l ! nat i) else Inl StdOutOfRange)"
| "list_get i e = no_method e"

fun list_set :: "nat \<Rightarrow> element \<Rightarrow> element \<Rightarrow> bundy_exn + element" where
  "list_set i v (ListElement l) = (if i < length l then Inr (ListElement (l[i := v])) else Inl StdOutOfRange)"
| "list_set i v e = no_method e"

fun list_add :: "element \<Rightarrow> element \<Rightarrow> bundy_exn + element" where
  "list_add v (ListElement l) = Inr (ListElement (l @ [v]))"
| "list_add v e = no_method e"

fun list_remove :: "int \<Rightarrow> element \<Rightarrow> bundy_exn + element" where
  "list_remove i (ListElement l) =
     (if 0 \<le> i \<and> nat i < length l then Inr (ListElement (take (nat i) l @ drop (Suc (nat i)) l)) else Inl UndefinedRead)"
| "list_remove i e = no_method e"

fun list_size :: "element \<Rightarrow> bundy_exn + nat" where
  "list_size (ListElement l) = Inr (length l)"
| "list_size e = no_method e"

fun list_empty :: "element \<Rightarrow> bundy_exn + bool" where
  "list_empty (ListElement l) = Inr (l = [])"
| "list_empty e = no_method e"

subsection \<open>Methods of maps\<close>

fun map_contains :: "string \<Rightarrow> element \<Rightarrow> bundy_exn + bool" where
  "map_contains k (MapElement m) = Inr (map_find k m \<noteq> None)"
| "map_contains k e = no_method e"

fun map_get :: "string \<Rightarrow> element \<Rightarrow> bundy_exn + element" where
  "map_get k (MapElement m) = Inr (case map_find k m of None \<Rightarrow> NullPtr | Some v \<Rightarrow> v)"
| "map_get k e = no_method e"

fun map_set :: "string \<Rightarrow> element \<Rightarrow> element \<Rightarrow> bundy_exn + element" where
  "map_set k v (MapElement m) = Inr (MapElement (map_put k v m))"
| "map_set k v e = no_method e"

fun map_remove :: "string \<Rightarrow> element \<Rightarrow> bundy_exn + element" where
  "map_remove k (MapElement m) = Inr (MapElement (map_erase k m))"
| "map_remove k e = no_method e"

text \<open>\<^verbatim>\<open>find(id)\<close>: the path is split at the first slash; a trailing slash is ignored.\<close>

definition before_slash :: "string \<Rightarrow> string" where
  "before_slash path = takeWhile (\<lambda>c. c \<noteq> CHR ''/'') path"

definition after_slash :: "string \<Rightarrow> string" where
  "after_slash path = tl (dropWhile (\<lambda>c. c \<noteq> CHR ''/'') path)"

lemma after_slash_shorter: "CHR ''/'' \<in> set path \<Longrightarrow> length (after_slash path) < length path"
  by (induction path) (auto simp: after_slash_def)

function elem_find :: "string \<Rightarrow> element \<Rightarrow> bundy_exn + element" where
  "elem_find path e =
     (case e of
        MapElement m \<Rightarrow>
          (if CHR ''/'' \<notin> set path then map_get path e
           else bindS (map_get (before_slash path) e) (\<lambda>ce.
             if ce = NullPtr then Inr NullPtr
             else if after_slash path = [] then Inr ce
             else elem_find (after_slash path) ce))
      | _ \<Rightarrow> no_method e)"
  by auto
termination
  by (relation "measure (length \<circ> fst)") (auto simp: after_slash_shorter)

declare elem_find.simps [simp del]

text \<open>The overload that stores the element and says whether there is one; only \<^verbatim>\<open>TypeError\<close> is caught.\<close>

fun elem_find_in :: "string \<Rightarrow> element \<Rightarrow> bundy_exn + element option" where
  "elem_find_in path (MapElement m) =
     (case elem_find path (MapElement m) of
        Inr p \<Rightarrow> Inr (if p = NullPtr then None else Some p)
      | Inl e \<Rightarrow> if e = TypeError then Inr None else Inl e)"
| "elem_find_in path NullPtr = Inl AssertionFailure"
| "elem_find_in path e = Inr None"

section \<open>Equality\<close>

text \<open>The comparison of two \<^verbatim>\<open>double\<close> values: no NaN is equal to anything, and both zeros are equal.\<close>

definition double_is_nan :: "64 word \<Rightarrow> bool" where
  "double_is_nan d \<longleftrightarrow> d AND 0x7ff0000000000000 = 0x7ff0000000000000 \<and> d AND 0x000fffffffffffff \<noteq> 0"

definition double_eq :: "64 word \<Rightarrow> 64 word \<Rightarrow> bool" where
  "double_eq a b \<longleftrightarrow>
     \<not> double_is_nan a \<and> \<not> double_is_nan b \<and> (a = b \<or> (a OR b) AND 0x7fffffffffffffff = 0)"

text \<open>The loops of \<^verbatim>\<open>ListElement::equals\<close> and \<^verbatim>\<open>MapElement::equals\<close> are the two other functions.\<close>

fun equals :: "element \<Rightarrow> element \<Rightarrow> bundy_exn + bool"
  and equals_list :: "element list \<Rightarrow> element list \<Rightarrow> bundy_exn + bool"
  and equals_map :: "(string \<times> element) list \<Rightarrow> (string, element) std_map \<Rightarrow> bundy_exn + bool"
where
  "equals NullPtr other = Inl AssertionFailure"
| "equals (IntElement i) other = (if getType other = None then Inl AssertionFailure else Inr (other = IntElement i))"
| "equals (DoubleElement d) other =
     (if getType other = None then Inl AssertionFailure
      else Inr (case other of DoubleElement d' \<Rightarrow> double_eq d d' | _ \<Rightarrow> False))"
| "equals (BoolElement b) other = (if getType other = None then Inl AssertionFailure else Inr (other = BoolElement b))"
| "equals NullElement other = (if getType other = None then Inl AssertionFailure else Inr (other = NullElement))"
| "equals (StringElement s) other = (if getType other = None then Inl AssertionFailure else Inr (other = StringElement s))"
| "equals (ListElement l) other =
     (case other of
        NullPtr \<Rightarrow> Inl AssertionFailure
      | ListElement l' \<Rightarrow> if length l \<noteq> length l' then Inr False else equals_list l l'
      | _ \<Rightarrow> Inr False)"
| "equals (MapElement m) other =
     (case other of
        NullPtr \<Rightarrow> Inl AssertionFailure
      | MapElement m' \<Rightarrow>
          bindS (equals_map m m') (\<lambda>r.
            if \<not> r then Inr False else Inr (\<forall>e \<in> set m'. map_find (fst e) m \<noteq> None))
      | _ \<Rightarrow> Inr False)"
| "equals_list (x # xs) (y # ys) = bindS (equals x y) (\<lambda>r. if \<not> r then Inr False else equals_list xs ys)"
| "equals_list _ _ = Inr True"
| "equals_map [] m' = Inr True"
| "equals_map ((k, v) # kvs) m' =
     (case map_find k m' of
        None \<Rightarrow> Inr False
      | Some v' \<Rightarrow> bindS (equals v v') (\<lambda>r. if \<not> r then Inr False else equals_map kvs m'))"

section \<open>Operations on maps\<close>

text \<open>\<^verbatim>\<open>removeIdentical(ElementPtr, ConstElementPtr)\<close>, which edits its first argument; the loop is over the second map.\<close>

fun removeIdentical_loop :: "(string \<times> element) list \<Rightarrow> (string, element) std_map \<Rightarrow> bundy_exn + (string, element) std_map" where
  "removeIdentical_loop [] a = Inr a"
| "removeIdentical_loop ((k, v) # kvs) a =
     (case map_find k a of
        None \<Rightarrow> removeIdentical_loop kvs a
      | Some x \<Rightarrow> bindS (equals x v) (\<lambda>r. removeIdentical_loop kvs (if r then map_erase k a else a)))"

definition removeIdentical :: "element \<Rightarrow> element \<Rightarrow> bundy_exn + element" where
  "removeIdentical a b =
     (if b = NullPtr then Inr a
      else if a = NullPtr then Inl AssertionFailure
      else case (a, b) of
             (MapElement ma, MapElement mb) \<Rightarrow> bindS (removeIdentical_loop mb ma) (\<lambda>m. Inr (MapElement m))
           | _ \<Rightarrow> Inl TypeError)"

text \<open>The overload for two constant maps builds a new map; the loop is over the first.\<close>

fun differing_loop :: "(string \<times> element) list \<Rightarrow> (string, element) std_map \<Rightarrow> (string, element) std_map \<Rightarrow>
    bundy_exn + (string, element) std_map" where
  "differing_loop [] b result = Inr result"
| "differing_loop ((k, v) # kvs) b result =
     (case map_find k b of
        None \<Rightarrow> differing_loop kvs b (map_put k v result)
      | Some x \<Rightarrow> bindS (equals v x) (\<lambda>r. differing_loop kvs b (if r then result else map_put k v result)))"

definition removeIdentical_const :: "element \<Rightarrow> element \<Rightarrow> bundy_exn + element" where
  "removeIdentical_const a b =
     (if b = NullPtr then Inr (MapElement [])
      else if a = NullPtr then Inl AssertionFailure
      else case (a, b) of
             (MapElement ma, MapElement mb) \<Rightarrow> bindS (differing_loop ma mb []) (\<lambda>m. Inr (MapElement m))
           | _ \<Rightarrow> Inl TypeError)"

fun merge_loop :: "(string \<times> element) list \<Rightarrow> (string, element) std_map \<Rightarrow> (string, element) std_map" where
  "merge_loop [] a = a"
| "merge_loop ((k, v) # kvs) a =
     (if v \<noteq> NullPtr \<and> v \<noteq> NullElement then merge_loop kvs (map_put k v a)
      else if map_find k a \<noteq> None then merge_loop kvs (map_erase k a)
      else merge_loop kvs a)"

definition merge :: "element \<Rightarrow> element \<Rightarrow> bundy_exn + element" where
  "merge a other =
     (if a = NullPtr \<or> other = NullPtr then Inl AssertionFailure
      else case (a, other) of
             (MapElement ma, MapElement mo) \<Rightarrow> Inr (MapElement (merge_loop mo ma))
           | _ \<Rightarrow> Inl TypeError)"

section \<open>Names of types\<close>

fun typeToName :: "element_type \<Rightarrow> string" where
  "typeToName Tinteger = ''integer''"
| "typeToName Treal = ''real''"
| "typeToName Tboolean = ''boolean''"
| "typeToName Tstring = ''string''"
| "typeToName Tlist = ''list''"
| "typeToName Tmap = ''map''"
| "typeToName Tnull = ''null''"
| "typeToName Tany = ''any''"

definition nameToType :: "string \<Rightarrow> bundy_exn + element_type" where
  "nameToType s =
     (if s = ''integer'' then Inr Tinteger
      else if s = ''real'' then Inr Treal
      else if s = ''boolean'' then Inr Tboolean
      else if s = ''string'' then Inr Tstring
      else if s = ''list'' then Inr Tlist
      else if s = ''map'' then Inr Tmap
      else if s = ''named_set'' then Inr Tmap
      else if s = ''null'' then Inr Tnull
      else if s = ''any'' then Inr Tany
      else Inl TypeError)"

section \<open>Printing\<close>

definition escape_json :: "char \<Rightarrow> string" where
  "escape_json c =
     (if c = CHR 0x22 then [CHR 0x5C, c]
      else if c = CHR 0x5C then [CHR 0x5C, c]
      else if c = CHR 0x08 then [CHR 0x5C, CHR ''b'']
      else if c = CHR 0x0C then [CHR 0x5C, CHR ''f'']
      else if c = CHR 0x0A then [CHR 0x5C, CHR ''n'']
      else if c = CHR 0x0D then [CHR 0x5C, CHR ''r'']
      else if c = CHR 0x09 then [CHR 0x5C, CHR ''t'']
      else [c])"

definition string_json :: "string \<Rightarrow> string" where
  "string_json s = [CHR 0x22] @ concat (map escape_json s) @ [CHR 0x22]"

text \<open>The elements of a list or a map with a comma and a space before every one but the first.\<close>

fun comma_separated :: "string list \<Rightarrow> string" where
  "comma_separated [] = []"
| "comma_separated [s] = s"
| "comma_separated (s # ss) = s @ '', '' @ comma_separated ss"

fun elem_toJSON :: "'m number_env_scheme \<Rightarrow> element \<Rightarrow> bundy_exn + string" where
  "elem_toJSON L NullPtr = Inl AssertionFailure"
| "elem_toJSON L (IntElement i) = Inr (show_int (sint i))"
| "elem_toJSON L (DoubleElement d) = Inr (show_double L d)"
| "elem_toJSON L (BoolElement b) = Inr (if b then ''true'' else ''false'')"
| "elem_toJSON L NullElement = Inr ''null''"
| "elem_toJSON L (StringElement s) = Inr (string_json s)"
| "elem_toJSON L (ListElement l) =
     bindS (mapS (elem_toJSON L) l) (\<lambda>ss. Inr (''[ '' @ comma_separated ss @ '' ]''))"
| "elem_toJSON L (MapElement m) =
     bindS (mapS (\<lambda>e.
         bindS (if snd e = NullPtr then Inr ''None'' else elem_toJSON L (snd e)) (\<lambda>v.
           Inr ([CHR 0x22] @ fst e @ [CHR 0x22] @ '': '' @ v))) m)
       (\<lambda>ss. Inr (''{ '' @ comma_separated ss @ '' }''))"

section \<open>Parsing\<close>

text \<open>The parser is a function of the rest of the input; at the end of it \<^verbatim>\<open>peek\<close> and \<^verbatim>\<open>get\<close> give \<^verbatim>\<open>EOF\<close>.\<close>

definition WHITESPACE :: string where
  "WHITESPACE = [CHR '' '', CHR 0x08, CHR 0x0C, CHR 0x0A, CHR 0x0D, CHR 0x09]"

definition charIn :: "char \<Rightarrow> string \<Rightarrow> bool" where
  "charIn c chars \<longleftrightarrow> c \<in> set chars"

fun skipChars :: "string \<Rightarrow> string \<Rightarrow> string" where
  "skipChars chars [] = []"
| "skipChars chars (c # cs) = (if charIn c chars then skipChars chars cs else c # cs)"

fun skipTo :: "string \<Rightarrow> string \<Rightarrow> string \<Rightarrow> bundy_exn + char \<times> string" where
  "skipTo chars may_skip [] = Inl JSONError"
| "skipTo chars may_skip (c # cs) =
     (if charIn c may_skip then skipTo chars may_skip cs
      else if charIn c chars then Inr (c, skipChars may_skip cs)
      else Inl JSONError)"

definition unescape_json :: "char \<Rightarrow> char option" where
  "unescape_json c =
     (if c = CHR 0x22 then Some c
      else if c = CHR ''/'' then Some c
      else if c = CHR 0x5C then Some c
      else if c = CHR ''b'' then Some (CHR 0x08)
      else if c = CHR ''f'' then Some (CHR 0x0C)
      else if c = CHR ''n'' then Some (CHR 0x0A)
      else if c = CHR ''r'' then Some (CHR 0x0D)
      else if c = CHR ''t'' then Some (CHR 0x09)
      else None)"

text \<open>The loop of \<^verbatim>\<open>strFromStringstream\<close> behind the opening quote.\<close>

fun str_loop :: "string \<Rightarrow> string \<Rightarrow> bundy_exn + string \<times> string" where
  "str_loop acc [] = Inl JSONError"
| "str_loop acc [c] = (if c = CHR 0x22 then Inr (acc, []) else Inl JSONError)"
| "str_loop acc (c # c' # cs) =
     (if c = CHR 0x22 then Inr (acc, c' # cs)
      else if c = CHR 0x5C then
        (case unescape_json c' of None \<Rightarrow> Inl JSONError | Some u \<Rightarrow> str_loop (acc @ [u]) cs)
      else str_loop (acc @ [c]) (c' # cs))"

definition strFromStringstream :: "string \<Rightarrow> bundy_exn + string \<times> string" where
  "strFromStringstream inp =
     (case inp of
        [] \<Rightarrow> Inl JSONError
      | c # cs \<Rightarrow> if c = CHR 0x22 then str_loop [] cs else Inl JSONError)"

definition isalpha :: "char \<Rightarrow> bool" where
  "isalpha c \<longleftrightarrow> (65 \<le> (of_char c :: nat) \<and> (of_char c :: nat) \<le> 90) \<or> (97 \<le> (of_char c :: nat) \<and> (of_char c :: nat) \<le> 122)"

definition wordFromStringstream :: "string \<Rightarrow> string \<times> string" where
  "wordFromStringstream inp = (takeWhile isalpha inp, dropWhile isalpha inp)"

definition number_char :: "char \<Rightarrow> bool" where
  "number_char c \<longleftrightarrow> charIn c ''0123456789+-.eE''"

definition numberFromStringstream :: "string \<Rightarrow> string \<times> string" where
  "numberFromStringstream inp = (takeWhile number_char inp, dropWhile number_char inp)"

definition fromStringstreamNumber :: "'m number_env_scheme \<Rightarrow> string \<Rightarrow> bundy_exn + element \<times> string" where
  "fromStringstreamNumber L inp =
     (let (number, rest) = numberFromStringstream inp in
      if list_ex (\<lambda>c. charIn c ''.eE'') number
      then (case lexical_double L number of None \<Rightarrow> Inl JSONError | Some d \<Rightarrow> Inr (DoubleElement d, rest))
      else (case lexical_int64 L number of None \<Rightarrow> Inl JSONError | Some i \<Rightarrow> Inr (IntElement i, rest)))"

definition fromStringstreamBool :: "string \<Rightarrow> bundy_exn + element \<times> string" where
  "fromStringstreamBool inp =
     (let (word, rest) = wordFromStringstream inp in
      if iequals word ''True'' then Inr (BoolElement True, rest)
      else if iequals word ''False'' then Inr (BoolElement False, rest)
      else Inl JSONError)"

definition fromStringstreamNull :: "string \<Rightarrow> bundy_exn + element \<times> string" where
  "fromStringstreamNull inp =
     (let (word, rest) = wordFromStringstream inp in
      if iequals word ''null'' then Inr (NullElement, rest) else Inl JSONError)"

definition fromStringstreamString :: "string \<Rightarrow> bundy_exn + element \<times> string" where
  "fromStringstreamString inp = bindS (strFromStringstream inp) (\<lambda>(s, rest). Inr (StringElement s, rest))"

text \<open>
  \<^verbatim>\<open>Element::fromJSON\<close> on a stream with the loops of \<^verbatim>\<open>fromStringstreamList\<close> and
  \<^verbatim>\<open>fromStringstreamMap\<close>.  The loops hand over the elements read so far.
\<close>

function (sequential) fromJSON_in :: "'m number_env_scheme \<Rightarrow> string \<Rightarrow> bundy_exn + element \<times> string"
  and fromStringstreamList :: "'m number_env_scheme \<Rightarrow> element list \<Rightarrow> string \<Rightarrow> bundy_exn + element \<times> string"
  and fromStringstreamMap :: "'m number_env_scheme \<Rightarrow> (string, element) std_map \<Rightarrow> string \<Rightarrow> bundy_exn + element \<times> string"
where
  "fromJSON_in L inp =
     (case skipChars WHITESPACE inp of
        [] \<Rightarrow> Inl JSONError
      | c # cs \<Rightarrow>
          (if charIn c ''1234567890-+.'' then fromStringstreamNumber L (c # cs)
           else if charIn c ''tTfF'' then fromStringstreamBool (c # cs)
           else if charIn c ''nN'' then fromStringstreamNull (c # cs)
           else if c = CHR 0x22 then fromStringstreamString (c # cs)
           else if c = CHR ''['' then fromStringstreamList L [] (skipChars WHITESPACE cs)
           else if c = CHR ''{'' then
             (case skipChars WHITESPACE cs of
                [] \<Rightarrow> Inl JSONError
              | d # ds \<Rightarrow> if d = CHR ''}'' then Inr (MapElement [], ds) else fromStringstreamMap L [] (d # ds))
           else Inl JSONError))"
| "fromStringstreamList L acc inp =
     (if inp \<noteq> [] \<and> hd inp = CHR '']'' then Inr (ListElement acc, tl inp)
      else
        (case fromJSON_in L inp of
           Inl e \<Rightarrow> Inl e
         | Inr (v, r1) \<Rightarrow>
             (case skipTo '',]'' WHITESPACE r1 of
                Inl e \<Rightarrow> Inl e
              | Inr (c, r2) \<Rightarrow>
                  if c = CHR '']'' then Inr (ListElement (acc @ [v]), r2) else fromStringstreamList L (acc @ [v]) r2)))"
| "fromStringstreamMap L acc inp =
     (case strFromStringstream inp of
        Inl e \<Rightarrow> Inl e
      | Inr (key, r1) \<Rightarrow>
          (case skipTo '':'' WHITESPACE r1 of
             Inl e \<Rightarrow> Inl e
           | Inr (c1, r2) \<Rightarrow>
               (case fromJSON_in L r2 of
                  Inl e \<Rightarrow> Inl e
                | Inr (v, r3) \<Rightarrow>
                    (case skipTo '',}'' WHITESPACE r3 of
                       Inl e \<Rightarrow> Inl e
                     | Inr (c, r4) \<Rightarrow>
                         if c = CHR ''}'' then Inr (MapElement (map_put key v acc), r4)
                         else fromStringstreamMap L (map_put key v acc) r4))))"
  by pat_completeness auto

text \<open>Every part of the parser consumes input, which is why the nested recursion ends.\<close>

lemma skipChars_le: "length (skipChars chars inp) \<le> length inp"
  by (induction chars inp rule: skipChars.induct) auto

lemma skipChars_Cons: "skipChars chars inp = c # cs \<Longrightarrow> length cs < length inp"
  using skipChars_le [of chars inp] by simp

lemma skipChars_bound: "length cs < n \<Longrightarrow> Suc (2 * length (skipChars chars cs)) < 2 * n"
  using skipChars_le [of chars cs] by simp

lemma skipTo_less: "skipTo chars may inp = Inr (c, r) \<Longrightarrow> length r < length inp"
proof (induction chars may inp rule: skipTo.induct)
  case (2 chars may d ds)
  then show ?case
    using skipChars_le [of may ds] by (auto split: if_splits)
qed simp

lemma str_loop_less: "str_loop acc inp = Inr (s, r) \<Longrightarrow> length r < length inp"
  by (induction acc inp rule: str_loop.induct) (auto split: if_splits option.splits)

lemma str_less: "strFromStringstream inp = Inr (s, r) \<Longrightarrow> length r < length inp"
  using str_loop_less by (fastforce simp: strFromStringstream_def split: list.splits if_splits)

lemma dropWhile_less: "P c \<Longrightarrow> length (dropWhile P (c # cs)) < length (c # cs)"
  by (simp add: le_imp_less_Suc length_dropWhile_le)

lemma number_less:
  "charIn c ''1234567890-+.'' \<Longrightarrow> fromStringstreamNumber L (c # cs) = Inr (v, r) \<Longrightarrow> length r < length (c # cs)"
  using dropWhile_less [of number_char c cs]
  by (auto simp: fromStringstreamNumber_def numberFromStringstream_def number_char_def charIn_def split: if_splits option.splits)

lemma bool_less:
  "charIn c ''tTfF'' \<Longrightarrow> fromStringstreamBool (c # cs) = Inr (v, r) \<Longrightarrow> length r < length (c # cs)"
  using dropWhile_less [of isalpha c cs]
  by (auto simp: fromStringstreamBool_def wordFromStringstream_def isalpha_def charIn_def split: if_splits)

lemma null_less:
  "charIn c ''nN'' \<Longrightarrow> fromStringstreamNull (c # cs) = Inr (v, r) \<Longrightarrow> length r < length (c # cs)"
  using dropWhile_less [of isalpha c cs]
  by (auto simp: fromStringstreamNull_def wordFromStringstream_def isalpha_def charIn_def split: if_splits)

lemma string_less: "fromStringstreamString inp = Inr (v, r) \<Longrightarrow> length r < length inp"
  using str_less by (auto simp: fromStringstreamString_def bindS_eq_Inr)

lemmas parts_less = number_less bool_less null_less string_less

abbreviation "json_dom \<equiv> fromJSON_in_fromStringstreamList_fromStringstreamMap_dom"

lemma json_consumes:
  "json_dom (Inl (L, inp)) \<Longrightarrow> fromJSON_in L inp = Inr (v, r) \<Longrightarrow> length r < length inp"
  "json_dom (Inr (Inl (L, acc, inp))) \<Longrightarrow> fromStringstreamList L acc inp = Inr (v, r) \<Longrightarrow> length r < length inp"
  "json_dom (Inr (Inr (L, macc, inp))) \<Longrightarrow> fromStringstreamMap L macc inp = Inr (v, r) \<Longrightarrow> length r < length inp"
proof (induction L inp and L acc inp and L macc inp arbitrary: v r and v r and v r
    rule: fromJSON_in_fromStringstreamList_fromStringstreamMap.pinduct)
  case (1 L inp)
  show ?case
  proof (cases "skipChars WHITESPACE inp")
    case Nil
    then show ?thesis
      using 1 by (simp add: fromJSON_in.psimps)
  next
    case (Cons c cs)
    note len = skipChars_Cons [OF Cons] skipChars_le [of WHITESPACE cs]
    show ?thesis
      using 1 Cons len by (fastforce simp: fromJSON_in.psimps dest: parts_less split: if_splits list.splits)
  qed
next
  case (2 L acc inp)
  then show ?case
    by (fastforce simp: fromStringstreamList.psimps dest: skipTo_less split: if_splits sum.splits)
next
  case (3 L acc inp)
  then show ?case
    by (fastforce simp: fromStringstreamMap.psimps dest: skipTo_less str_less split: if_splits sum.splits)
qed

termination fromJSON_in
  by (relation "measure (\<lambda>x. case x of Inl (L, inp) \<Rightarrow> 2 * length inp | Inr (Inl (L, acc, inp)) \<Rightarrow> 2 * length inp + 1
      | Inr (Inr (L, acc, inp)) \<Rightarrow> 2 * length inp + 1)")
    (auto dest!: json_consumes skipTo_less str_less skipChars_Cons intro: skipChars_bound)

declare fromJSON_in.simps [simp del] fromStringstreamList.simps [simp del] fromStringstreamMap.simps [simp del]

text \<open>\<^verbatim>\<open>fromJSON(const string&)\<close> and \<^verbatim>\<open>fromWire(const string&)\<close>, which ignores what follows the element.\<close>

definition fromJSON :: "'m number_env_scheme \<Rightarrow> string \<Rightarrow> bundy_exn + element" where
  "fromJSON L s =
     bindS (fromJSON_in L s) (\<lambda>(e, r). if skipChars WHITESPACE r \<noteq> [] then Inl JSONError else Inr e)"

definition elem_fromWire :: "'m number_env_scheme \<Rightarrow> string \<Rightarrow> bundy_exn + element" where
  "elem_fromWire L s = bindS (fromJSON_in L s) (\<lambda>(e, r). Inr e)"

end
