(* ===== verification/Cc_Json.thy ===== *)
theory Cc_Json
  imports Cc_Data
begin

text \<open>
  Correctness of the data elements: what the parser accepts and refuses, that it reads back what
  is printed, and what equality and the operations on maps compute.
\<close>

section \<open>Well-formed elements\<close>

text \<open>No null pointer in a container, and the entries of a map in the order of distinct keys.\<close>

fun wf_element :: "element \<Rightarrow> bool" where
  "wf_element NullPtr = False"
| "wf_element (ListElement l) = list_all wf_element l"
| "wf_element (MapElement m) = (wf_map m \<and> list_all (\<lambda>e. wf_element (snd e)) m)"
| "wf_element _ = True"

lemma wf_values_put:
  "list_all (\<lambda>e. wf_element (snd e)) m \<Longrightarrow> wf_element v \<Longrightarrow> list_all (\<lambda>e. wf_element (snd e)) (map_put k v m)"
  by (induction k v m rule: map_put.induct) auto

lemma parts_errors:
  "fromStringstreamNumber L inp = Inl e \<Longrightarrow> e = JSONError"
  "fromStringstreamBool inp = Inl e \<Longrightarrow> e = JSONError"
  "fromStringstreamNull inp = Inl e \<Longrightarrow> e = JSONError"
  "skipTo chars may inp = Inl e \<Longrightarrow> e = JSONError"
proof -
  show "fromStringstreamNumber L inp = Inl e \<Longrightarrow> e = JSONError"
    by (auto simp: fromStringstreamNumber_def split: prod.splits if_splits option.splits)
  show "fromStringstreamBool inp = Inl e \<Longrightarrow> e = JSONError"
    by (auto simp: fromStringstreamBool_def split: prod.splits if_splits)
  show "fromStringstreamNull inp = Inl e \<Longrightarrow> e = JSONError"
    by (auto simp: fromStringstreamNull_def split: prod.splits if_splits)
  show "skipTo chars may inp = Inl e \<Longrightarrow> e = JSONError"
    by (induction chars may inp rule: skipTo.induct) (auto split: if_splits)
qed

lemma str_errors: "strFromStringstream inp = Inl e \<Longrightarrow> e = JSONError"
proof -
  have "str_loop acc s = Inl e \<Longrightarrow> e = JSONError" for acc s
    by (induction acc s rule: str_loop.induct) (auto split: if_splits option.splits)
  then show "strFromStringstream inp = Inl e \<Longrightarrow> e = JSONError"
    by (auto simp: strFromStringstream_def split: list.splits if_splits)
qed

lemma string_errors: "fromStringstreamString inp = Inl e \<Longrightarrow> e = JSONError"
  using str_errors by (auto simp: fromStringstreamString_def bindS_eq_Inl)

lemma json_errors:
  "fromJSON_in L inp = Inl e \<Longrightarrow> e = JSONError"
  "fromStringstreamList L acc inp = Inl e \<Longrightarrow> e = JSONError"
  "fromStringstreamMap L macc inp = Inl e \<Longrightarrow> e = JSONError"
proof (induction L inp and L acc inp and L macc inp arbitrary: e and e and e
    rule: fromJSON_in_fromStringstreamList_fromStringstreamMap.induct)
  case (1 L inp)
  then show ?case
    by (auto simp: fromJSON_in.simps [of L inp] split: list.splits if_splits dest: parts_errors string_errors)
next
  case (2 L acc inp)
  then show ?case
    by (auto simp: fromStringstreamList.simps [of L acc inp] split: sum.splits if_splits dest: parts_errors)
next
  case (3 L acc inp)
  then show ?case
    by (auto simp: fromStringstreamMap.simps [of L acc inp] split: sum.splits if_splits dest!: parts_errors(4) str_errors)
qed

lemma fromJSON_errors: "fromJSON L s = Inl e \<Longrightarrow> e = JSONError"
  using json_errors(1) by (auto simp: fromJSON_def bindS_eq_Inl split: if_splits)

lemma parts_wf:
  "fromStringstreamNumber L inp = Inr (v, r) \<Longrightarrow> wf_element v"
  "fromStringstreamBool inp = Inr (v, r) \<Longrightarrow> wf_element v"
  "fromStringstreamNull inp = Inr (v, r) \<Longrightarrow> wf_element v"
  "fromStringstreamString inp = Inr (v, r) \<Longrightarrow> wf_element v"
  by (auto simp: fromStringstreamNumber_def fromStringstreamBool_def fromStringstreamNull_def fromStringstreamString_def
      bindS_eq_Inr split: prod.splits if_splits option.splits)

lemma json_wf:
  "fromJSON_in L inp = Inr (v, r) \<Longrightarrow> wf_element v"
  "fromStringstreamList L acc inp = Inr (v, r) \<Longrightarrow> list_all wf_element acc \<Longrightarrow> wf_element v"
  "fromStringstreamMap L macc inp = Inr (v, r) \<Longrightarrow> wf_element (MapElement macc) \<Longrightarrow> wf_element v"
proof (induction L inp and L acc inp and L macc inp arbitrary: v r and v r and v r
    rule: fromJSON_in_fromStringstreamList_fromStringstreamMap.induct)
  case (1 L inp)
  then show ?case
    by (auto simp: fromJSON_in.simps [of L inp] split: list.splits if_splits dest: parts_wf)
next
  case (2 L acc inp)
  then show ?case
    by (auto simp: fromStringstreamList.simps [of L acc inp] split: sum.splits if_splits)
next
  case (3 L acc inp)
  then show ?case
    by (auto simp: fromStringstreamMap.simps [of L acc inp] wf_values_put split: sum.splits if_splits)
qed

lemma fromJSON_wf: "fromJSON L s = Inr v \<Longrightarrow> wf_element v"
  using json_wf(1) by (auto simp: fromJSON_def bindS_eq_Inr split: if_splits)

section \<open>Reading back what is printed\<close>

text \<open>What \<^verbatim>\<open>boost::lexical_cast<int64_t>\<close> documents for the texts \<^verbatim>\<open>std::ostream\<close> prints.\<close>

definition reads_integers :: "'m number_env_scheme \<Rightarrow> bool" where
  "reads_integers L \<longleftrightarrow> (\<forall>i. lexical_int64 L (show_int (sint i)) = Some i)"

text \<open>
  The elements that survive: no \<^verbatim>\<open>double\<close>, whose text loses digits, and no key with a character
  that would have to be escaped, since keys are printed as they are.
\<close>

fun json_ok :: "element \<Rightarrow> bool" where
  "json_ok NullPtr = False"
| "json_ok (DoubleElement _) = False"
| "json_ok (ListElement l) = list_all json_ok l"
| "json_ok (MapElement m) =
     (wf_map m \<and> list_all (\<lambda>e. CHR 0x22 \<notin> set (fst e) \<and> CHR 0x5C \<notin> set (fst e) \<and> json_ok (snd e)) m)"
| "json_ok _ = True"

lemma skipChars_idem [simp]: "skipChars w (skipChars w inp) = skipChars w inp"
  by (induction w inp rule: skipChars.induct) auto

lemma skipTo_skipChars: "skipTo chars w (skipChars w inp) = skipTo chars w inp"
  by (induction w inp rule: skipChars.induct) auto

text \<open>Text that cannot continue a number or a word.\<close>

definition stops :: "string \<Rightarrow> bool" where
  "stops r \<longleftrightarrow> r = [] \<or> (\<not> number_char (hd r) \<and> \<not> isalpha (hd r))"

definition reads :: "'m number_env_scheme \<Rightarrow> string \<Rightarrow> element \<Rightarrow> bool" where
  "reads L t e \<longleftrightarrow> t \<noteq> [] \<and> hd t \<noteq> CHR '']'' \<and> \<not> charIn (hd t) WHITESPACE \<and>
     (\<forall>r. stops r \<longrightarrow> (\<exists>r'. fromJSON_in L (t @ r) = Inr (e, r') \<and> skipChars WHITESPACE r' = skipChars WHITESPACE r))"

lemma skipChars_start: "t \<noteq> [] \<Longrightarrow> \<not> charIn (hd t) w \<Longrightarrow> skipChars w (t @ r) = t @ r"
  by (cases t) auto

lemma takeWhile_stops:
  assumes "\<forall>c \<in> set t. P c" "stops r" "P = number_char \<or> P = isalpha"
  shows "takeWhile P (t @ r) = t" "dropWhile P (t @ r) = r"
proof -
  have "r = [] \<or> \<not> P (hd r)"
    using assms(2,3) by (auto simp: stops_def)
  then have "takeWhile P r = []" "dropWhile P r = r"
    by (cases r; auto)+
  then show "takeWhile P (t @ r) = t" "dropWhile P (t @ r) = r"
    using assms(1) by simp_all
qed

subsection \<open>Scalars\<close>

lemma show_nat_digits: "\<forall>c \<in> set (show_nat n). charIn c ''0123456789''"
proof (induction n rule: show_nat.induct)
  case (1 n)
  have "charIn (char_of (48 + m)) ''0123456789''" if "m < 10" for m :: nat
  proof -
    have "list_all (\<lambda>m. charIn (char_of (48 + m)) ''0123456789'') [0..<10]"
      by code_simp
    then show ?thesis
      using that by (simp add: list_all_iff)
  qed
  then show ?case
    using 1 by (subst show_nat.simps) auto
qed

lemma charIn_all: "charIn c A \<Longrightarrow> list_all P A \<Longrightarrow> P c"
  by (auto simp: charIn_def list_all_iff)

lemma int_char:
  assumes "charIn c ''0123456789-''"
  shows "number_char c" "\<not> charIn c ''.eE''" "charIn c ''1234567890-+.''" "\<not> charIn c WHITESPACE" "c \<noteq> CHR '']''"
  by (rule charIn_all [OF assms]; simp add: number_char_def charIn_def WHITESPACE_def)+

lemma show_int_chars: "\<forall>c \<in> set (show_int i). charIn c ''0123456789-''"
proof -
  have "charIn c ''0123456789-''" if "charIn c ''0123456789''" for c
    by (rule charIn_all [OF that]) (simp add: charIn_def)
  moreover have "charIn (CHR ''-'') ''0123456789-''"
    by (simp add: charIn_def)
  ultimately show ?thesis
    using show_nat_digits by (simp add: show_int_def)
qed

lemma reads_start:
  assumes "t \<noteq> []" "hd t = c" "\<not> charIn c WHITESPACE"
  shows "skipChars WHITESPACE (t @ r) = c # tl t @ r"
  using assms by (cases t) auto

lemma reads_int:
  assumes "reads_integers L"
  shows "reads L (show_int (sint i)) (IntElement i)"
proof -
  let ?t = "show_int (sint i)"
  have ne: "?t \<noteq> []"
    by (simp add: show_int_def)
  then have c: "charIn (hd ?t) ''0123456789-''"
    using show_int_chars [of "sint i"] by simp
  have num: "\<forall>c \<in> set ?t. number_char c" "\<not> list_ex (\<lambda>c. charIn c ''.eE'') ?t"
    using show_int_chars [of "sint i"] by (auto simp: list_ex_iff dest: int_char)
  have "fromJSON_in L (?t @ r) = Inr (IntElement i, r)" if "stops r" for r
  proof -
    have "skipChars WHITESPACE (?t @ r) = ?t @ r"
      using ne int_char(4) [OF c] by (rule skipChars_start)
    moreover have "fromStringstreamNumber L (?t @ r) = Inr (IntElement i, r)"
      using takeWhile_stops [OF num(1) that] num(2) assms
      by (simp add: fromStringstreamNumber_def numberFromStringstream_def reads_integers_def)
    moreover obtain d ds where "?t @ r = d # ds" "charIn d ''1234567890-+.''"
      using ne int_char(3) [OF c] by (cases ?t) auto
    ultimately show ?thesis
      by (subst fromJSON_in.simps) (simp del: skipChars.simps)
  qed
  then show ?thesis
    using ne int_char(4,5) [OF c] by (auto simp: reads_def)
qed

lemma reads_word:
  assumes "t = ''true'' \<and> e = BoolElement True \<or> t = ''false'' \<and> e = BoolElement False \<or> t = ''null'' \<and> e = NullElement"
  shows "reads L t e"
proof -
  have words: "iequals ''true'' ''True''" "iequals ''false'' ''False''" "\<not> iequals ''false'' ''True''" "iequals ''null'' ''null''"
    by code_simp+
  have al: "\<forall>c \<in> set t. isalpha c"
    using assms by (auto simp: isalpha_def)
  have "fromJSON_in L (t @ r) = Inr (e, r)" if "stops r" for r
  proof -
    have "wordFromStringstream (t @ r) = (t, r)"
      using takeWhile_stops [OF al that] by (simp add: wordFromStringstream_def)
    then show ?thesis
      using assms words by (subst fromJSON_in.simps) (auto simp: charIn_def WHITESPACE_def fromStringstreamBool_def fromStringstreamNull_def)
  qed
  then show ?thesis
    using assms by (auto simp: reads_def charIn_def WHITESPACE_def)
qed

lemma str_loop_escaped: "str_loop acc (concat (map escape_json s) @ CHR 0x22 # r) = Inr (acc @ s, r)"
proof (induction s arbitrary: acc)
  case Nil
  show ?case by (cases r) simp_all
next
  case (Cons c s)
  obtain d ds where d: "concat (map escape_json s) @ CHR 0x22 # r = d # ds"
    by (cases "concat (map escape_json s) @ CHR 0x22 # r") auto
  show ?case
    using Cons.IH [of "acc @ [c]"] unfolding list.map concat.simps append_assoc d
    by (auto simp: escape_json_def unescape_json_def)
qed

lemma str_loop_plain:
  "CHR 0x22 \<notin> set s \<Longrightarrow> CHR 0x5C \<notin> set s \<Longrightarrow> str_loop acc (s @ CHR 0x22 # r) = Inr (acc @ s, r)"
proof (induction s arbitrary: acc)
  case Nil
  show ?case by (cases r) simp_all
next
  case (Cons c s)
  obtain d ds where d: "s @ CHR 0x22 # r = d # ds"
    by (cases "s @ CHR 0x22 # r") auto
  show ?case
    using Cons.IH [of "acc @ [c]"] Cons.prems unfolding append_Cons d by auto
qed

lemma reads_plain_string:
  assumes "CHR 0x22 \<notin> set s" "CHR 0x5C \<notin> set s"
  shows "reads L ([CHR 0x22] @ s @ [CHR 0x22]) (StringElement s)"
proof -
  have "fromJSON_in L (([CHR 0x22] @ s @ [CHR 0x22]) @ r) = Inr (StringElement s, r)" for r
    using str_loop_plain [OF assms, of "[]" r] by (subst fromJSON_in.simps) (simp add: charIn_def WHITESPACE_def fromStringstreamString_def
      strFromStringstream_def)
  then show ?thesis
    by (auto simp: reads_def charIn_def WHITESPACE_def)
qed

lemma reads_string: "reads L (string_json s) (StringElement s)"
proof -
  have "fromJSON_in L (string_json s @ r) = Inr (StringElement s, r)" for r
    by (subst fromJSON_in.simps) (simp add: string_json_def charIn_def WHITESPACE_def fromStringstreamString_def
      strFromStringstream_def str_loop_escaped)
  then show ?thesis
    by (auto simp: reads_def string_json_def charIn_def WHITESPACE_def)
qed

subsection \<open>Lists and maps\<close>

lemma readsE:
  assumes "reads L t e" "stops r"
  obtains r' where "fromJSON_in L (t @ r) = Inr (e, r')" "skipTo chars WHITESPACE r' = skipTo chars WHITESPACE r"
  using assms skipTo_skipChars unfolding reads_def by metis

lemma stops_literals [simp]:
  "stops (CHR '' '' # r)" "stops (CHR '','' # r)" "stops (CHR ''}'' # r)"
  by (auto simp: stops_def number_char_def charIn_def isalpha_def)

lemma charIn_literals [simp]:
  "charIn (CHR '' '') WHITESPACE" "\<not> charIn (CHR '','') WHITESPACE" "\<not> charIn (CHR '']'') WHITESPACE"
  "\<not> charIn (CHR ''}'') WHITESPACE" "\<not> charIn (CHR '':'') WHITESPACE" "\<not> charIn (CHR 0x22) WHITESPACE"
  "\<not> charIn (CHR ''['') WHITESPACE" "\<not> charIn (CHR ''{'') WHITESPACE"
  "charIn (CHR '','') '',]''" "charIn (CHR '']'') '',]''" "charIn (CHR '','') '',}''" "charIn (CHR ''}'') '',}''"
  "charIn (CHR '':'') '':''"
  by (simp_all add: charIn_def WHITESPACE_def)

lemma list_step:
  assumes "reads L t e" "stops r"
  shows "fromStringstreamList L acc (t @ r) =
    (case skipTo '',]'' WHITESPACE r of
       Inl e \<Rightarrow> Inl e
     | Inr (c, r2) \<Rightarrow> if c = CHR '']'' then Inr (ListElement (acc @ [e]), r2) else fromStringstreamList L (acc @ [e]) r2)"
proof -
  obtain r' where r': "fromJSON_in L (t @ r) = Inr (e, r')" "skipTo '',]'' WHITESPACE r' = skipTo '',]'' WHITESPACE r"
    using assms by (rule readsE)
  obtain c cs where "t = c # cs" "c \<noteq> CHR '']''"
    using assms(1) by (cases t) (auto simp: reads_def)
  then show ?thesis
    using r' by (subst fromStringstreamList.simps) (simp del: skipTo.simps)
qed

lemma comma_separated_start:
  assumes "list_all (\<lambda>t. t \<noteq> [] \<and> \<not> charIn (hd t) w) ss" "ss \<noteq> []"
  shows "comma_separated ss \<noteq> []" "\<not> charIn (hd (comma_separated ss)) w"
  using assms by (cases ss rule: comma_separated.cases; auto)+

lemma reads_starts: "list_all2 (reads L) ss l \<Longrightarrow> list_all (\<lambda>t. t \<noteq> [] \<and> \<not> charIn (hd t) WHITESPACE) ss"
  by (induction rule: list_all2_induct) (auto simp: reads_def)

lemma list_loop:
  "list_all2 (reads L) ss l \<Longrightarrow> ss \<noteq> [] \<Longrightarrow>
   fromStringstreamList L acc (comma_separated ss @ '' ]'' @ r) = Inr (ListElement (acc @ l), skipChars WHITESPACE r)"
proof (induction ss arbitrary: l acc rule: comma_separated.induct)
  case (2 t)
  then obtain e where "l = [e]" "reads L t e"
    by (auto simp: list_all2_Cons1)
  then show ?case
    using list_step [of L t e "'' ]'' @ r" acc] by simp
next
  case (3 t t' ss)
  obtain e l' where l: "l = e # l'" "reads L t e" "list_all2 (reads L) (t' # ss) l'"
    using "3.prems"(1) unfolding list_all2_Cons1 by blast
  have "skipChars WHITESPACE (comma_separated (t' # ss) @ '' ]'' @ r) = comma_separated (t' # ss) @ '' ]'' @ r"
    using comma_separated_start [OF reads_starts [OF l(3)]] by (intro skipChars_start) simp_all
  then show ?case
    using list_step [of L t e "'', '' @ comma_separated (t' # ss) @ '' ]'' @ r" acc] "3.IH" [OF l(3), of "acc @ [e]"] l(1,2)
    by simp
qed simp

lemma reads_list:
  assumes "list_all2 (reads L) ss l"
  shows "reads L (''[ '' @ comma_separated ss @ '' ]'') (ListElement l)"
proof -
  have "\<exists>r'. fromStringstreamList L [] (skipChars WHITESPACE (comma_separated ss @ '' ]'' @ r)) = Inr (ListElement l, r') \<and>
      skipChars WHITESPACE r' = skipChars WHITESPACE r" for r
  proof (cases "ss = []")
    case True
    then show ?thesis
      using assms by (subst fromStringstreamList.simps) (simp add: charIn_def WHITESPACE_def)
  next
    case False
    have "skipChars WHITESPACE (comma_separated ss @ '' ]'' @ r) = comma_separated ss @ '' ]'' @ r"
      using comma_separated_start [OF reads_starts [OF assms] False] by (intro skipChars_start)
    then show ?thesis
      using list_loop [OF assms False, of "[]" r] by simp
  qed
  moreover have "fromJSON_in L ((''[ '' @ comma_separated ss @ '' ]'') @ r) =
      fromStringstreamList L [] (skipChars WHITESPACE (comma_separated ss @ '' ]'' @ r))" for r
    by (subst fromJSON_in.simps) (simp add: charIn_def WHITESPACE_def)
  ultimately show ?thesis
    by (auto simp: reads_def charIn_def WHITESPACE_def)
qed

text \<open>An entry of a map as \<^verbatim>\<open>MapElement::toJSON\<close> prints it.\<close>

definition entry_text :: "string \<Rightarrow> string \<Rightarrow> string" where
  "entry_text k t = [CHR 0x22] @ k @ [CHR 0x22] @ '': '' @ t"

definition plain_key :: "string \<Rightarrow> bool" where
  "plain_key k \<longleftrightarrow> CHR 0x22 \<notin> set k \<and> CHR 0x5C \<notin> set k"

definition reads_entry :: "'m number_env_scheme \<Rightarrow> string \<Rightarrow> string \<times> element \<Rightarrow> bool" where
  "reads_entry L s kv \<longleftrightarrow> (\<exists>t. s = entry_text (fst kv) t \<and> plain_key (fst kv) \<and> reads L t (snd kv))"

text \<open>One round of the loop; white space may or may not follow the colon.\<close>

lemma map_step_colon:
  assumes "plain_key k" "reads L t e" "stops r" "skipChars WHITESPACE w = []"
  shows "fromStringstreamMap L acc ([CHR 0x22] @ k @ [CHR 0x22] @ '':'' @ w @ t @ r) =
    (case skipTo '',}'' WHITESPACE r of
       Inl e \<Rightarrow> Inl e
     | Inr (c, r2) \<Rightarrow>
         if c = CHR ''}'' then Inr (MapElement (map_put k e acc), r2) else fromStringstreamMap L (map_put k e acc) r2)"
proof -
  obtain r' where r': "fromJSON_in L (t @ r) = Inr (e, r')" "skipTo '',}'' WHITESPACE r' = skipTo '',}'' WHITESPACE r"
    using assms(2,3) by (rule readsE)
  have str: "strFromStringstream ([CHR 0x22] @ k @ [CHR 0x22] @ '':'' @ w @ t @ r) = Inr (k, '':'' @ w @ t @ r)"
    using assms(1) str_loop_plain [of k "[]" "'':'' @ w @ t @ r"] by (simp add: strFromStringstream_def plain_key_def)
  have "skipChars WHITESPACE (t @ r) = t @ r"
    using assms(2) by (intro skipChars_start) (simp_all add: reads_def)
  moreover have "skipChars WHITESPACE (w @ x) = skipChars WHITESPACE x" for x
    using assms(4) by (induction w) (auto split: if_splits)
  ultimately have "skipTo '':'' WHITESPACE ('':'' @ w @ t @ r) = Inr (CHR '':'', t @ r)"
    by simp
  then show ?thesis
    using r' by (subst fromStringstreamMap.simps) (simp only: str sum.case prod.case)
qed

lemma map_step:
  assumes "plain_key k" "reads L t e" "stops r"
  shows "fromStringstreamMap L acc (entry_text k t @ r) =
    (case skipTo '',}'' WHITESPACE r of
       Inl e \<Rightarrow> Inl e
     | Inr (c, r2) \<Rightarrow>
         if c = CHR ''}'' then Inr (MapElement (map_put k e acc), r2) else fromStringstreamMap L (map_put k e acc) r2)"
  using map_step_colon [OF assms, of "'' ''"] by (simp add: entry_text_def)

lemma map_loop:
  "list_all2 (reads_entry L) ss m \<Longrightarrow> ss \<noteq> [] \<Longrightarrow>
   wf_map (acc @ m) \<Longrightarrow>
   fromStringstreamMap L acc (comma_separated ss @ '' }'' @ r) = Inr (MapElement (acc @ m), skipChars WHITESPACE r)"
proof (induction ss arbitrary: m acc rule: comma_separated.induct)
  case (2 s)
  then obtain k e t where e: "m = [(k, e)]" "s = entry_text k t" "plain_key k" "reads L t e"
    by (auto simp: list_all2_Cons1 reads_entry_def)
  have "\<forall>k' \<in> fst ` set acc. k' < k"
    using "2.prems"(3) e(1) by (auto simp: wf_map_def sorted_wrt_append)
  then show ?case
    using map_step [OF e(3,4), of "'' }'' @ r" acc] e by (simp add: put_greatest)
next
  case (3 s s' ss)
  obtain kv m' where kv: "m = kv # m'" "reads_entry L s kv" "list_all2 (reads_entry L) (s' # ss) m'"
    using "3.prems"(1) unfolding list_all2_Cons1 by blast
  then obtain k e t where e: "m = (k, e) # m'" "s = entry_text k t" "plain_key k" "reads L t e" "list_all2 (reads_entry L) (s' # ss) m'"
    by (cases kv) (auto simp: reads_entry_def)
  have "\<forall>k' \<in> fst ` set acc. k' < k"
    using "3.prems"(3) e(1) by (auto simp: wf_map_def sorted_wrt_append)
  moreover have "skipChars WHITESPACE (comma_separated (s' # ss) @ '' }'' @ r) = comma_separated (s' # ss) @ '' }'' @ r"
  proof (rule skipChars_start)
    have "list_all (\<lambda>s. s \<noteq> [] \<and> \<not> charIn (hd s) WHITESPACE) (s' # ss)"
      using e(5) by (induction rule: list_all2_induct) (auto simp: entry_text_def reads_entry_def)
    then show "comma_separated (s' # ss) \<noteq> []" "\<not> charIn (hd (comma_separated (s' # ss))) WHITESPACE"
      using comma_separated_start by blast+
  qed
  ultimately show ?case
    using map_step [OF e(3,4), of "'', '' @ comma_separated (s' # ss) @ '' }'' @ r" acc] "3.IH" [OF e(5), of "acc @ [(k, e)]"]
      "3.prems"(3) e(1,2) by (simp add: put_greatest)
qed simp

lemma reads_map:
  assumes "list_all2 (reads_entry L) ss m" "wf_map m"
  shows "reads L (''{ '' @ comma_separated ss @ '' }'') (MapElement m)"
proof -
  have "\<exists>r'. fromJSON_in L ((''{ '' @ comma_separated ss @ '' }'') @ r) = Inr (MapElement m, r') \<and>
      skipChars WHITESPACE r' = skipChars WHITESPACE r" for r
  proof (cases "ss = []")
    case True
    then show ?thesis
      using assms by (subst fromJSON_in.simps) (simp add: charIn_def WHITESPACE_def)
  next
    case False
    obtain cs where cs: "comma_separated ss = CHR 0x22 # cs"
      using assms(1) False by (cases ss rule: comma_separated.cases) (auto simp: list_all2_Cons1 entry_text_def reads_entry_def)
    then have "fromJSON_in L ((''{ '' @ comma_separated ss @ '' }'') @ r) = fromStringstreamMap L [] (comma_separated ss @ '' }'' @ r)"
      by (subst fromJSON_in.simps) (simp add: charIn_def WHITESPACE_def)
    then show ?thesis
      using map_loop [OF assms(1) False, of "[]" r] assms(2) by simp
  qed
  then show ?thesis
    by (auto simp: reads_def charIn_def WHITESPACE_def)
qed

subsection \<open>Every element\<close>

lemma mapS_all:
  "(\<And>x. x \<in> set xs \<Longrightarrow> \<exists>y. f x = Inr y \<and> Q y x) \<Longrightarrow> \<exists>ys. mapS f xs = Inr ys \<and> list_all2 Q ys xs"
  by (induction xs) (fastforce simp: bindS_eq_Inr)+

lemma toJSON_reads:
  assumes "reads_integers L" "json_ok e"
  shows "\<exists>t. elem_toJSON L e = Inr t \<and> reads L t e"
  using assms(2)
proof (induction e)
  case (ListElement l)
  have rd: "\<exists>t. elem_toJSON L x = Inr t \<and> reads L t x" if "x \<in> set l" for x
    using ListElement that by (auto simp: list_all_iff)
  obtain ss where "mapS (elem_toJSON L) l = Inr ss" "list_all2 (reads L) ss l"
    using mapS_all [of l "elem_toJSON L" "reads L", OF rd] by blast
  then show ?case
    using reads_list by fastforce
next
  case (MapElement m)
  let ?f = "\<lambda>e. bindS (if snd e = NullPtr then Inr ''None'' else elem_toJSON L (snd e)) (\<lambda>v.
           Inr ([CHR 0x22] @ fst e @ [CHR 0x22] @ '': '' @ v)) :: bundy_exn + string"
  have rd: "\<exists>s. ?f x = Inr s \<and> reads_entry L s x" if "x \<in> set m" for x
  proof -
    have "json_ok (snd x)" "plain_key (fst x)"
      using MapElement.prems that by (auto simp: list_all_iff plain_key_def)
    moreover from this(1) have "snd x \<noteq> NullPtr"
      by auto
    ultimately show ?thesis
      using MapElement.IH [OF that, of "snd x"] by (auto simp: reads_entry_def entry_text_def snds.simps)
  qed
  obtain ss where "mapS ?f m = Inr ss" "list_all2 (reads_entry L) ss m"
    using mapS_all [of m ?f "reads_entry L", OF rd] by blast
  then show ?case
    using reads_map [of L ss m] MapElement.prems by simp
qed (auto simp: reads_int [OF assms(1)] reads_word reads_string)

lemma json_round_trip:
  assumes "reads_integers L" "json_ok e"
  shows "\<exists>t. elem_toJSON L e = Inr t \<and> fromJSON L t = Inr e"
proof -
  obtain t where t: "elem_toJSON L e = Inr t" "reads L t e"
    using toJSON_reads [OF assms] by blast
  moreover obtain r' where "fromJSON_in L t = Inr (e, r')" "skipChars WHITESPACE r' = []"
    using t(2) unfolding reads_def by (metis append_Nil2 skipChars.simps(1) stops_def)
  ultimately show ?thesis
    by (simp add: fromJSON_def)
qed

section \<open>Equality\<close>

fun double_free :: "element \<Rightarrow> bool" where
  "double_free (DoubleElement _) = False"
| "double_free (ListElement l) = list_all double_free l"
| "double_free (MapElement m) = list_all (\<lambda>e. double_free (snd e)) m"
| "double_free _ = True"

lemma map_value_all: "list_all (\<lambda>e. P (snd e)) m \<Longrightarrow> map_find k m = Some v \<Longrightarrow> P v"
  by (fastforce simp: list_all_iff map_find_def dest: map_of_SomeD)

lemma wf_map_value: "wf_element (MapElement m) \<Longrightarrow> map_find k m = Some v \<Longrightarrow> wf_element v"
  using map_value_all [of wf_element] by auto

lemma wf_getType: "wf_element e \<Longrightarrow> getType e \<noteq> None \<and> e \<noteq> NullPtr"
  by (cases e) auto

lemma equals_iff:
  "wf_element a \<Longrightarrow> wf_element b \<Longrightarrow> double_free a \<Longrightarrow> equals a b = Inr (a = b)"
  "list_all wf_element as \<Longrightarrow> list_all wf_element bs \<Longrightarrow> list_all double_free as \<Longrightarrow> length as = length bs \<Longrightarrow>
   equals_list as bs = Inr (as = bs)"
  "list_all (\<lambda>e. wf_element (snd e)) kvs \<Longrightarrow> wf_element (MapElement m') \<Longrightarrow> list_all (\<lambda>e. double_free (snd e)) kvs \<Longrightarrow>
   equals_map kvs m' = Inr (\<forall>(k, v) \<in> set kvs. map_find k m' = Some v)"
proof (induction a b and as bs and kvs m' rule: equals_equals_list_equals_map.induct)
  case (8 m other)
  show ?case
  proof (cases "\<exists>m'. other = MapElement m'")
    case True
    then obtain m' where m': "other = MapElement m'" by blast
    have "equals_map m m' = Inr (\<forall>(k, v) \<in> set m. map_find k m' = Some v)"
      using 8 m' by simp
    moreover have "(\<forall>(k, v) \<in> set m. map_find k m' = Some v) \<and> (\<forall>e \<in> set m'. map_find (fst e) m \<noteq> None) \<longleftrightarrow> m = m'"
    proof
      assume l: "(\<forall>(k, v) \<in> set m. map_find k m' = Some v) \<and> (\<forall>e \<in> set m'. map_find (fst e) m \<noteq> None)"
      have wf: "wf_map m" "wf_map m'"
        using 8 m' by simp_all
      have "map_find k m = map_find k m'" for k
      proof (cases "map_find k m")
        case None
        then show ?thesis
          using l wf(2) by (cases "map_find k m'") (auto simp: find_Some_iff)
      next
        case (Some v)
        then show ?thesis
          using l wf(1) by (auto simp: find_Some_iff)
      qed
      then show "m = m'"
        using wf by (intro wf_map_eqI)
    next
      assume "m = m'"
      then show "(\<forall>(k, v) \<in> set m. map_find k m' = Some v) \<and> (\<forall>e \<in> set m'. map_find (fst e) m \<noteq> None)"
        using 8 by (auto simp: find_Some_iff find_None_iff)
    qed
    ultimately show ?thesis
      using m' by auto
  next
    case False
    then show ?thesis
      using 8 by (cases other) auto
  qed
next
  case (12 k v kvs m')
  then show ?case
    using wf_map_value [of m' k] by (auto split: option.splits)
qed (auto dest: wf_getType split: element.splits)

section \<open>Operations on maps\<close>

definition null_value :: "element \<Rightarrow> bool" where
  "null_value v \<longleftrightarrow> v = NullPtr \<or> v = NullElement"

lemma erase_absent: "map_find k a = None \<Longrightarrow> map_erase k a = a"
  by (simp add: find_None_iff map_erase_def) (metis (mono_tags, lifting) filter_True image_eqI)

lemma merge_loop_edits:
  "merge_loop kvs a = fold std_map.edit (map (\<lambda>(k, v). (k, if null_value v then None else Some v)) kvs) a"
  by (induction kvs a rule: merge_loop.induct) (auto simp: std_map.edit_def null_value_def erase_absent)

lemma merge_spec:
  assumes "wf_map a" "wf_map b"
  shows "\<exists>m. merge (MapElement a) (MapElement b) = Inr (MapElement m) \<and> wf_map m \<and>
    (\<forall>k. map_find k m =
      (case map_find k b of None \<Rightarrow> map_find k a | Some v \<Rightarrow> if null_value v then None else Some v))"
proof -
  let ?es = "map (\<lambda>(k, v). (k, if null_value v then None else Some v)) b"
  have d: "distinct (map fst ?es)"
    using wf_map_distinct [OF assms(2)] by (simp add: comp_def case_prod_beta)
  have "map_of ?es k = map_option (\<lambda>v. if null_value v then None else Some v) (map_find k b)" for k
    by (induction b) (auto simp: map_find_def)
  then show ?thesis
    using std_map.look_edits [OF assms(1) d] std_map.good_edits [OF assms(1), of ?es]
    by (auto simp: merge_def merge_loop_edits split: option.splits)
qed

text \<open>Both overloads of \<^verbatim>\<open>removeIdentical\<close> leave the entries of the first map that the second does not have.\<close>

lemma removeIdentical_loop_spec:
  assumes "wf_element (MapElement a)" "double_free (MapElement a)" "list_all (\<lambda>e. wf_element (snd e)) kvs" "distinct (map fst kvs)"
  shows "\<exists>m. removeIdentical_loop kvs a = Inr m \<and> wf_map m \<and>
    (\<forall>k. map_find k m = (if map_find k a = map_of kvs k then None else map_find k a))"
  using assms
proof (induction kvs arbitrary: a)
  case (Cons kv kvs)
  obtain k v where kv: "kv = (k, v)" by (cases kv)
  have absent: "map_of kvs k = None"
    using Cons.prems(4) kv by (simp add: map_of_eq_None_iff)
  show ?case
  proof (cases "map_find k a")
    case None
    then show ?thesis
      using Cons.IH [OF Cons.prems(1,2)] Cons.prems(3,4) kv absent by (auto split: if_splits)
  next
    case (Some x)
    have "wf_element x" "double_free x"
      using Some Cons.prems(1,2) map_value_all [of wf_element] map_value_all [of double_free] by auto
    then have eq: "equals x v = Inr (x = v)"
      using equals_iff(1) Cons.prems(3) kv by simp
    let ?a = "if x = v then map_erase k a else a"
    have "wf_element (MapElement ?a)" "double_free (MapElement ?a)"
      using Cons.prems(1,2) by (auto simp: list_all_iff map_erase_def) (use wf_erase [of a k] in \<open>simp add: map_erase_def\<close>)
    from Cons.IH [OF this] obtain m where m: "removeIdentical_loop kvs ?a = Inr m" "wf_map m"
      "\<And>j. map_find j m = (if map_find j ?a = map_of kvs j then None else map_find j ?a)"
      using Cons.prems(3,4) kv by auto
    show ?thesis
      using m Some eq kv absent by (intro exI [of _ m]) (auto simp: find_erase)
  qed
qed auto

lemma differing_loop_spec:
  assumes "list_all (\<lambda>e. wf_element (snd e)) kvs" "list_all (\<lambda>e. double_free (snd e)) kvs" "distinct (map fst kvs)"
    and "wf_element (MapElement b)" "wf_map result" "\<forall>k \<in> fst ` set kvs. map_find k result = None"
  shows "\<exists>m. differing_loop kvs b result = Inr m \<and> wf_map m \<and>
    (\<forall>k. map_find k m = (case map_of kvs k of None \<Rightarrow> map_find k result
       | Some v \<Rightarrow> if map_find k b = Some v then None else Some v))"
  using assms
proof (induction kvs arbitrary: result)
  case (Cons kv kvs)
  obtain k v where kv: "kv = (k, v)" by (cases kv)
  have absent: "map_of kvs k = None" "map_find k result = None"
    using Cons.prems(3,6) kv by (simp_all add: map_of_eq_None_iff)
  let ?r = "if map_find k b = Some v then result else map_put k v result"
  have "wf_map ?r" "\<forall>j \<in> fst ` set kvs. map_find j ?r = None"
    using Cons.prems(3,5,6) kv by (auto simp: find_put)
  from Cons.IH [OF _ _ _ Cons.prems(4) this] obtain m where m: "differing_loop kvs b ?r = Inr m" "wf_map m"
    "\<And>j. map_find j m = (case map_of kvs j of None \<Rightarrow> map_find j ?r | Some v \<Rightarrow> if map_find j b = Some v then None else Some v)"
    using Cons.prems(1,2,3) kv by auto
  have "differing_loop (kv # kvs) b result = differing_loop kvs b ?r"
  proof (cases "map_find k b")
    case (Some x)
    have "equals v x = Inr (v = x)"
      using equals_iff(1) [of v x] wf_map_value [OF Cons.prems(4) Some] Cons.prems(1,2) kv by simp
    then show ?thesis
      using Some kv by auto
  qed (simp add: kv)
  then show ?case
    using m kv absent Cons.prems(5) by (intro exI [of _ m]) (auto simp: find_put split: option.splits)
qed auto

lemma removeIdentical_spec:
  assumes "wf_element (MapElement a)" "wf_element (MapElement b)" "double_free (MapElement a)"
  shows "\<exists>m. removeIdentical (MapElement a) (MapElement b) = Inr (MapElement m) \<and>
    removeIdentical_const (MapElement a) (MapElement b) = Inr (MapElement m) \<and> wf_map m \<and>
    (\<forall>k. map_find k m = (if map_find k a = map_find k b then None else map_find k a))"
proof -
  have d: "distinct (map fst a)" "distinct (map fst b)"
    using assms(1,2) by (simp_all add: wf_map_distinct)
  obtain m where m: "removeIdentical_loop b a = Inr m" "wf_map m"
    "\<And>k. map_find k m = (if map_find k a = map_find k b then None else map_find k a)"
    using removeIdentical_loop_spec [OF assms(1,3) _ d(2)] assms(2) by (auto simp: map_find_def)
  obtain m' where m': "differing_loop a b [] = Inr m'" "wf_map m'"
    "\<And>k. map_find k m' = (case map_of a k of None \<Rightarrow> map_find k [] | Some v \<Rightarrow> if map_find k b = Some v then None else Some v)"
    using differing_loop_spec [OF _ _ d(1) assms(2), of "[]"] assms(1,3) by auto
  have "map_find k m = map_find k m'" for k
    using m(3) [of k] m'(3) [of k] by (auto simp: map_find_def split: option.splits)
  then have "m' = m"
    using m(2) m'(2) by (intro wf_map_eqI) auto
  then show ?thesis
    using m m'(1) by (auto simp: removeIdentical_def removeIdentical_const_def)
qed

section \<open>Paths\<close>

text \<open>What a path denotes: one step for every key.\<close>

fun walk :: "string list \<Rightarrow> element \<Rightarrow> bundy_exn + element" where
  "walk [] e = Inr e"
| "walk (k # ks) e = (if e = NullPtr then Inr NullPtr else bindS (map_get k e) (walk ks))"

fun path_text :: "string list \<Rightarrow> string" where
  "path_text [] = []"
| "path_text [k] = k"
| "path_text (k # ks) = k @ [CHR ''/''] @ path_text ks"

lemma slash_split:
  assumes "CHR ''/'' \<notin> set k"
  shows "before_slash (k @ CHR ''/'' # r) = k" "after_slash (k @ CHR ''/'' # r) = r"
  using assms by (induction k) (auto simp: before_slash_def after_slash_def)

lemma find_walk:
  "\<forall>k \<in> set ks. k \<noteq> [] \<and> CHR ''/'' \<notin> set k \<Longrightarrow> ks \<noteq> [] \<Longrightarrow> e \<noteq> NullPtr \<Longrightarrow> elem_find (path_text ks) e = walk ks e"
proof (induction ks arbitrary: e rule: path_text.induct)
  case (2 k)
  then show ?case
    by (subst elem_find.simps) (auto split: element.splits)
next
  case (3 k k' ks)
  have ne: "path_text (k' # ks) \<noteq> []"
    using "3.prems"(1) by (cases ks) auto
  show ?case
    using 3 slash_split [of k "path_text (k' # ks)"] ne by (subst elem_find.simps) (auto split: element.splits)
qed simp

end
