(* ===== verification/D2_Ncr.thy ===== *)
theory D2_Ncr
  imports D2_StateModel Dns_NameText Util_Buffer Util_Time Util_Encode Cc_Json
begin

text \<open>
  The name change request, the message that a DHCP server sends to the DHCP-DDNS daemon
  (\<^verbatim>\<open>src/lib/dhcp_ddns/ncr_msg.cc\<close>): \<^verbatim>\<open>D2Dhcid\<close> and \<^verbatim>\<open>NameChangeRequest\<close> with its setters,
  its validation and its JSON wire form.

  The code outside of the repository that the class relies on is in an environment record, an
  extension of that of the JSON library: the address conversions of asio, the bit iterator of
  Boost under the hexadecimal codec, and SHA-256 of Botan.
\<close>

section \<open>Addresses and the environment\<close>

text \<open>An \<^verbatim>\<open>asio::ip::address\<close>, by the octets \<^verbatim>\<open>to_bytes()\<close> gives.\<close>

datatype ip_address = IPv4 "byte list" | IPv6 "byte list"

fun isV4 :: "ip_address \<Rightarrow> bool" where
  "isV4 (IPv4 _) = True"
| "isV4 (IPv6 _) = False"

fun toBytes :: "ip_address \<Rightarrow> byte list" where
  "toBytes (IPv4 bs) = bs"
| "toBytes (IPv6 bs) = bs"

record ncr_env = number_env +
  addr_from_string :: "string \<Rightarrow> ip_address option"
  addr_to_string :: "ip_address \<Rightarrow> string"
  transform_width :: width_transformer
  sha_256 :: "byte list \<Rightarrow> byte list option"

text \<open>A call of the utility libraries.\<close>

definition lib :: "bundy_exn + 'a \<Rightarrow> d2_exn + 'a" where
  "lib r = (case r of Inl e \<Rightarrow> Inl (LibError e) | Inr a \<Rightarrow> Inr a)"

lemma lib_simps [simp]: "lib (Inl e) = Inl (LibError e)" "lib (Inr a) = Inr a"
  by (simp_all add: lib_def)

lemma lib_eq_Inr [simp]: "lib r = Inr a \<longleftrightarrow> r = Inr a"
  by (cases r) auto

section \<open>D2Dhcid\<close>

text \<open>Every exception of the decoder is a \<^verbatim>\<open>bundy::Exception\<close>; a failed assertion is none.\<close>

definition dhcid_fromStr :: "'m ncr_env_scheme \<Rightarrow> string \<Rightarrow> d2_exn + byte list" where
  "dhcid_fromStr E data =
     (case decodeHex (transform_width E) data of
        Inl e \<Rightarrow> if std_exception (LibError e) then Inl NcrMessageError else Inl (LibError e)
      | Inr bs \<Rightarrow> Inr bs)"

definition dhcid_toStr :: "'m ncr_env_scheme \<Rightarrow> byte list \<Rightarrow> d2_exn + string" where
  "dhcid_toStr E bytes = lib (encodeHex (transform_width E) bytes)"

definition DHCID_ID_HWADDR :: byte where "DHCID_ID_HWADDR = 0"
definition DHCID_ID_CLIENTID :: byte where "DHCID_ID_CLIENTID = 1"
definition DHCID_ID_DUID :: byte where "DHCID_ID_DUID = 2"

text \<open>
  \<^verbatim>\<open>createDigest\<close>.  The vector keeps its first octet when it is resized, so an object that
  holds an old value keeps that octet; \<open>bytes\<close> is the old value.
\<close>

definition createDigest :: "'m ncr_env_scheme \<Rightarrow> byte \<Rightarrow> byte list \<Rightarrow> byte list \<Rightarrow> byte list \<Rightarrow> d2_exn + byte list" where
  "createDigest E identifier_type identifier_data wire_fqdn bytes =
     (if wire_fqdn = [] then Inl DhcidRdataComputeError
      else if identifier_data = [] then Inl DhcidRdataComputeError
      else case sha_256 E (identifier_data @ wire_fqdn) of
             None \<Rightarrow> Inl DhcidRdataComputeError
           | Some secure \<Rightarrow>
               (let b3 = take 3 (bytes @ replicate 3 0)
                in Inr (b3[1 := identifier_type, 2 := 1] @ secure)))"

definition fromClientId :: "'m ncr_env_scheme \<Rightarrow> byte list \<Rightarrow> byte list \<Rightarrow> byte list \<Rightarrow> d2_exn + byte list" where
  "fromClientId E clientid_data wire_fqdn bytes = createDigest E DHCID_ID_CLIENTID clientid_data wire_fqdn bytes"

text \<open>A hardware address is its type octet and its octets; \<open>None\<close> is a null pointer.\<close>

definition fromHWAddr :: "'m ncr_env_scheme \<Rightarrow> (byte \<times> byte list) option \<Rightarrow> byte list \<Rightarrow> byte list \<Rightarrow> d2_exn + byte list" where
  "fromHWAddr E hwaddr wire_fqdn bytes =
     (case hwaddr of
        None \<Rightarrow> Inl DhcidRdataComputeError
      | Some (htype, hw) \<Rightarrow>
          if hw = [] then Inl DhcidRdataComputeError
          else createDigest E DHCID_ID_HWADDR (htype # hw) wire_fqdn bytes)"

definition fromDUID :: "'m ncr_env_scheme \<Rightarrow> byte list \<Rightarrow> byte list \<Rightarrow> byte list \<Rightarrow> d2_exn + byte list" where
  "fromDUID E duid wire_fqdn bytes = createDigest E DHCID_ID_DUID duid wire_fqdn bytes"

section \<open>NameChangeRequest\<close>

datatype change_type = CHG_ADD | CHG_REMOVE
datatype ncr_status = ST_NEW | ST_PENDING | ST_COMPLETED | ST_FAILED

record name_change_request =
  change_type :: change_type
  forward_change :: bool
  reverse_change :: bool
  fqdn :: string
  ip_io_address :: ip_address
  dhcid :: "byte list"
  lease_expires_on :: "64 word"
  lease_length :: "32 word"
  status :: ncr_status

definition NameChangeRequest_default :: name_change_request where
  "NameChangeRequest_default =
     \<lparr>change_type = CHG_ADD, forward_change = False, reverse_change = False, fqdn = [],
      ip_io_address = IPv4 [0, 0, 0, 0], dhcid = [], lease_expires_on = 0, lease_length = 0, status = ST_NEW\<rparr>"

definition getIpAddress :: "'m ncr_env_scheme \<Rightarrow> name_change_request \<Rightarrow> string" where
  "getIpAddress E r = addr_to_string E (ip_io_address r)"

definition setIpAddress :: "'m ncr_env_scheme \<Rightarrow> string \<Rightarrow> name_change_request \<Rightarrow> d2_exn + name_change_request" where
  "setIpAddress E v r =
     (case addr_from_string E v of None \<Rightarrow> Inl NcrMessageError | Some a \<Rightarrow> Inr (r\<lparr>ip_io_address := a\<rparr>))"

definition setIpAddress_element :: "'m ncr_env_scheme \<Rightarrow> element \<Rightarrow> name_change_request \<Rightarrow> d2_exn + name_change_request" where
  "setIpAddress_element E el r = bindS (lib (stringValue el)) (\<lambda>v. setIpAddress E v r)"

definition validateContent :: "name_change_request \<Rightarrow> d2_exn + unit" where
  "validateContent r =
     (if fqdn r = [] then Inl NcrMessageError
      else if length (dhcid r) = 0 then Inl NcrMessageError
      else if \<not> forward_change r \<and> \<not> reverse_change r then Inl NcrMessageError
      else Inr ())"

definition NameChangeRequest :: "'m ncr_env_scheme \<Rightarrow> change_type \<Rightarrow> bool \<Rightarrow> bool \<Rightarrow> string \<Rightarrow> string \<Rightarrow> byte list \<Rightarrow>
    64 word \<Rightarrow> 32 word \<Rightarrow> d2_exn + name_change_request" where
  "NameChangeRequest E ct fwd bwd name ip dh expires len =
     bindS (setIpAddress E ip
       \<lparr>change_type = ct, forward_change = fwd, reverse_change = bwd, fqdn = name,
        ip_io_address = IPv4 [0, 0, 0, 0], dhcid = dh, lease_expires_on = expires, lease_length = len, status = ST_NEW\<rparr>)
     (\<lambda>r. bindS (validateContent r) (\<lambda>_. Inr r))"

definition setChangeType_element :: "element \<Rightarrow> name_change_request \<Rightarrow> d2_exn + name_change_request" where
  "setChangeType_element el r =
     (case intValue el of
        Inl e \<Rightarrow> if e = TypeError then Inl NcrMessageError else Inl (LibError e)
      | Inr raw \<Rightarrow>
          if raw \<noteq> 0 \<and> raw \<noteq> 1 then Inl NcrMessageError
          else Inr (r\<lparr>change_type := (if raw = 0 then CHG_ADD else CHG_REMOVE)\<rparr>))"

definition setForwardChange_element :: "element \<Rightarrow> name_change_request \<Rightarrow> d2_exn + name_change_request" where
  "setForwardChange_element el r =
     (case boolValue el of
        Inl e \<Rightarrow> if e = TypeError then Inl NcrMessageError else Inl (LibError e)
      | Inr b \<Rightarrow> Inr (r\<lparr>forward_change := b\<rparr>))"

definition setReverseChange_element :: "element \<Rightarrow> name_change_request \<Rightarrow> d2_exn + name_change_request" where
  "setReverseChange_element el r =
     (case boolValue el of
        Inl e \<Rightarrow> if e = TypeError then Inl NcrMessageError else Inl (LibError e)
      | Inr b \<Rightarrow> Inr (r\<lparr>reverse_change := b\<rparr>))"

text \<open>\<^verbatim>\<open>setFqdn\<close>: the name is parsed and printed again; a failed assertion is no exception.\<close>

definition setFqdn :: "string \<Rightarrow> name_change_request \<Rightarrow> d2_exn + name_change_request" where
  "setFqdn v r =
     (case bindS (Name_text v False) (\<lambda>tmp. Name_toText False tmp) of
        Inl e \<Rightarrow> if std_exception (LibError e) then Inl NcrMessageError else Inl (LibError e)
      | Inr t \<Rightarrow> Inr (r\<lparr>fqdn := t\<rparr>))"

definition setFqdn_element :: "element \<Rightarrow> name_change_request \<Rightarrow> d2_exn + name_change_request" where
  "setFqdn_element el r = bindS (lib (stringValue el)) (\<lambda>v. setFqdn v r)"

definition setDhcid_element :: "'m ncr_env_scheme \<Rightarrow> element \<Rightarrow> name_change_request \<Rightarrow> d2_exn + name_change_request" where
  "setDhcid_element E el r =
     bindS (lib (stringValue el)) (\<lambda>v. bindS (dhcid_fromStr E v) (\<lambda>bs. Inr (r\<lparr>dhcid := bs\<rparr>)))"

definition getLeaseExpiresOnStr :: "name_change_request \<Rightarrow> d2_exn + string" where
  "getLeaseExpiresOnStr r = lib (timeToText64 (lease_expires_on r))"

definition setLeaseExpiresOn :: "string \<Rightarrow> name_change_request \<Rightarrow> d2_exn + name_change_request" where
  "setLeaseExpiresOn v r =
     (case timeFromText64 v of Inl _ \<Rightarrow> Inl NcrMessageError | Inr t \<Rightarrow> Inr (r\<lparr>lease_expires_on := t\<rparr>))"

definition setLeaseExpiresOn_element :: "element \<Rightarrow> name_change_request \<Rightarrow> d2_exn + name_change_request" where
  "setLeaseExpiresOn_element el r = bindS (lib (stringValue el)) (\<lambda>v. setLeaseExpiresOn v r)"

definition setLeaseLength_element :: "element \<Rightarrow> name_change_request \<Rightarrow> d2_exn + name_change_request" where
  "setLeaseLength_element el r =
     (case intValue el of
        Inl e \<Rightarrow> if e = TypeError then Inl NcrMessageError else Inl (LibError e)
      | Inr v \<Rightarrow>
          if v > 2 ^ 32 - 1 then Inl NcrMessageError
          else if v < 0 then Inl NcrMessageError
          else Inr (r\<lparr>lease_length := word_of_int v\<rparr>))"

definition getElement :: "string \<Rightarrow> (string, element) std_map \<Rightarrow> d2_exn + element" where
  "getElement name element_map = (case map_find name element_map of None \<Rightarrow> Inl NcrMessageError | Some el \<Rightarrow> Inr el)"

definition ncr_fromJSON :: "'m ncr_env_scheme \<Rightarrow> string \<Rightarrow> d2_exn + name_change_request" where
  "ncr_fromJSON E json =
     (case fromJSON E json of
        Inl e \<Rightarrow> if e = JSONError then Inl NcrMessageError else Inl (LibError e)
      | Inr elements \<Rightarrow>
          bindS (lib (mapValue elements)) (\<lambda>m.
          bindS (getElement ''change_type'' m) (\<lambda>el. bindS (setChangeType_element el NameChangeRequest_default) (\<lambda>r1.
          bindS (getElement ''forward_change'' m) (\<lambda>el. bindS (setForwardChange_element el r1) (\<lambda>r2.
          bindS (getElement ''reverse_change'' m) (\<lambda>el. bindS (setReverseChange_element el r2) (\<lambda>r3.
          bindS (getElement ''fqdn'' m) (\<lambda>el. bindS (setFqdn_element el r3) (\<lambda>r4.
          bindS (getElement ''ip_address'' m) (\<lambda>el. bindS (setIpAddress_element E el r4) (\<lambda>r5.
          bindS (getElement ''dhcid'' m) (\<lambda>el. bindS (setDhcid_element E el r5) (\<lambda>r6.
          bindS (getElement ''lease_expires_on'' m) (\<lambda>el. bindS (setLeaseExpiresOn_element el r6) (\<lambda>r7.
          bindS (getElement ''lease_length'' m) (\<lambda>el. bindS (setLeaseLength_element el r7) (\<lambda>r8.
          bindS (validateContent r8) (\<lambda>_. Inr r8)))))))))))))))))))"

definition show_bool :: "bool \<Rightarrow> string" where
  "show_bool b = (if b then ''true'' else ''false'')"

text \<open>The three conversions that may throw are evaluated before the text is put together.\<close>

definition ncr_toJSON :: "'m ncr_env_scheme \<Rightarrow> name_change_request \<Rightarrow> d2_exn + string" where
  "ncr_toJSON E r =
     bindS (dhcid_toStr E (dhcid r)) (\<lambda>dh.
     bindS (getLeaseExpiresOnStr r) (\<lambda>expires.
     Inr (''{\"change_type\":'' @ (case change_type r of CHG_ADD \<Rightarrow> ''0'' | CHG_REMOVE \<Rightarrow> ''1'') @ '','' @
       ''\"forward_change\":'' @ show_bool (forward_change r) @ '','' @
       ''\"reverse_change\":'' @ show_bool (reverse_change r) @ '','' @
       ''\"fqdn\":\"'' @ fqdn r @ ''\",'' @
       ''\"ip_address\":\"'' @ getIpAddress E r @ ''\",'' @
       ''\"dhcid\":\"'' @ dh @ ''\",'' @
       ''\"lease_expires_on\":\"'' @ expires @ ''\",'' @
       ''\"lease_length\":'' @ show_nat (unat (lease_length r)) @ ''}'')))"

text \<open>The only format is \<^verbatim>\<open>FMT_JSON\<close>; \<open>None\<close> is any other value of the enumeration.\<close>

datatype ncr_format = FMT_JSON

definition fromFormat :: "'m ncr_env_scheme \<Rightarrow> ncr_format option \<Rightarrow> (input_buffer, d2_exn, name_change_request) exec" where
  "fromFormat E fmt b =
     (case fmt of
        None \<Rightarrow> raise NcrMessageError b
      | Some FMT_JSON \<Rightarrow>
          (case readUint16 b of
             (Inl e, b1) \<Rightarrow> (Inl (if e = InvalidBufferPosition then NcrMessageError else LibError e), b1)
           | (Inr len, b1) \<Rightarrow>
               (case readVector (unat len) b1 of
                  (Inl e, b2) \<Rightarrow> (Inl (if e = InvalidBufferPosition then NcrMessageError else LibError e), b2)
                | (Inr vec, b2) \<Rightarrow> (ncr_fromJSON E (map char_of_byte vec), b2))))"

definition toFormat :: "'m ncr_env_scheme \<Rightarrow> ncr_format option \<Rightarrow> name_change_request \<Rightarrow> (output_buffer, d2_exn, unit) exec" where
  "toFormat E fmt r b =
     (case fmt of
        None \<Rightarrow> raise NcrMessageError b
      | Some FMT_JSON \<Rightarrow>
          (case ncr_toJSON E r of
             Inl e \<Rightarrow> raise e b
           | Inr json \<Rightarrow>
               (let len = word_of_nat (length json) :: 16 word
                in (Inr (), writeData (map byte_of_char (take (unat len) json)) (writeUint16 len b)))))"

definition yes_no :: "bool \<Rightarrow> string" where
  "yes_no b = (if b then ''yes'' else ''no'')"

definition ncr_toText :: "'m ncr_env_scheme \<Rightarrow> name_change_request \<Rightarrow> d2_exn + string" where
  "ncr_toText E r =
     bindS (dhcid_toStr E (dhcid r)) (\<lambda>dh.
     bindS (getLeaseExpiresOnStr r) (\<lambda>expires.
     Inr (''Type: '' @ (case change_type r of CHG_ADD \<Rightarrow> ''0 (CHG_ADD)'' | CHG_REMOVE \<Rightarrow> ''1 (CHG_REMOVE)'') @ [CHR 0x0A] @
       ''Forward Change: '' @ yes_no (forward_change r) @ [CHR 0x0A] @
       ''Reverse Change: '' @ yes_no (reverse_change r) @ [CHR 0x0A] @
       ''FQDN: ['' @ fqdn r @ '']'' @ [CHR 0x0A] @
       ''IP Address: ['' @ getIpAddress E r @ '']'' @ [CHR 0x0A] @
       ''DHCID: ['' @ dh @ '']'' @ [CHR 0x0A] @
       ''Lease Expires On: '' @ expires @ [CHR 0x0A] @
       ''Lease Length: '' @ show_nat (unat (lease_length r)) @ [CHR 0x0A])))"

text \<open>\<^verbatim>\<open>operator==\<close> compares everything but the status.\<close>

definition ncr_equals :: "name_change_request \<Rightarrow> name_change_request \<Rightarrow> bool" where
  "ncr_equals a b \<longleftrightarrow>
     change_type a = change_type b \<and> forward_change a = forward_change b \<and> reverse_change a = reverse_change b \<and>
     fqdn a = fqdn b \<and> ip_io_address a = ip_io_address b \<and> dhcid a = dhcid b \<and>
     lease_expires_on a = lease_expires_on b \<and> lease_length a = lease_length b"

text \<open>
  \<^verbatim>\<open>NameChangeUDPListener::receiveCompletionHandler\<close> (\<^verbatim>\<open>ncr_udp.cc\<close>).  An
  \<open>NcrMessageError\<close> is logged and the next receive is queued; every other exception leaves the
  handler, and with it the run of the I/O service.
\<close>

datatype listener_result = LR_SUCCESS | LR_TIME_OUT | LR_STOPPED | LR_ERROR | LR_OTHER
datatype recv_completion = Received "byte list" | OperationAborted | RecvFailed
datatype recv_action =
    InvokeRecvHandler listener_result "name_change_request option"
  | ReceiveNext
  | HandlerThrows d2_exn

definition receiveCompletionHandler :: "'m ncr_env_scheme \<Rightarrow> recv_completion \<Rightarrow> recv_action" where
  "receiveCompletionHandler E c =
     (case c of
        Received data \<Rightarrow>
          (case fst (fromFormat E (Some FMT_JSON) (InputBuffer data)) of
             Inr r \<Rightarrow> InvokeRecvHandler LR_SUCCESS (Some r)
           | Inl e \<Rightarrow> if e = NcrMessageError then ReceiveNext else HandlerThrows e)
      | OperationAborted \<Rightarrow> InvokeRecvHandler LR_STOPPED None
      | RecvFailed \<Rightarrow> InvokeRecvHandler LR_ERROR None)"

end
