(* ===== verification/D2_NcrWire.thy ===== *)
theory D2_NcrWire
  imports D2_Ncr
begin

text \<open>
  Name change requests on the wire: what a sender writes is read back by the receiver as the same
  request, and which exceptions a message from the network can cause in the receiver.
\<close>

section \<open>Canonical names\<close>

definition canonical_text :: "string \<Rightarrow> bool" where
  "canonical_text t \<longleftrightarrow> (\<exists>n. wf_name n \<and> Name_toText False n = Inr t)"

lemma setFqdn_canonical:
  assumes "canonical_text t"
  shows "setFqdn t r = Inr (r\<lparr>fqdn := t\<rparr>)"
proof -
  obtain n where n: "wf_name n" "Name_toText False n = Inr t"
    using assms by (auto simp: canonical_text_def)
  have "map (map (downcase_char False)) (labels_of n) = labels_of n"
    by (simp add: downcase_char_def cong: map_cong)
  then have "Name_text t False = Inr n"
    using Name_text_toText [OF n, of False] n(1) by (auto elim: wf_nameE)
  then show ?thesis
    using n(2) by (simp add: setFqdn_def)
qed

lemma setFqdn_gives_canonical: "setFqdn v r = Inr r' \<Longrightarrow> canonical_text (fqdn r')"
  using Name_bytes_wf
  by (fastforce simp: setFqdn_def canonical_text_def Name_text_def bindS_eq_Inr split: sum.splits if_splits)

section \<open>The round trip\<close>

text \<open>
  The requests that survive: complete, with a name in the form \<open>setFqdn\<close> stores and without a character that
  JSON would have to escape, an address whose text is read back, and a time before the year 10000.
\<close>

definition sendable :: "'m ncr_env_scheme \<Rightarrow> name_change_request \<Rightarrow> bool" where
  "sendable E r \<longleftrightarrow>
     validateContent r = Inr () \<and> canonical_text (fqdn r) \<and> plain_key (fqdn r) \<and>
     addr_from_string E (getIpAddress E r) = Some (ip_io_address r) \<and> plain_key (getIpAddress E r) \<and>
     unat (lease_expires_on r) < time_limit \<and> status r = ST_NEW"

text \<open>An entry as \<^verbatim>\<open>NameChangeRequest::toJSON\<close> prints it, without white space.\<close>

definition ncr_entry :: "string \<Rightarrow> string \<Rightarrow> string" where
  "ncr_entry k t = [CHR 0x22] @ k @ [CHR 0x22] @ '':'' @ t"

lemma entry_more:
  assumes "plain_key k" "reads L t e"
  shows "fromStringstreamMap L acc (ncr_entry k t @ '','' @ ncr_entry k' t' @ r) = fromStringstreamMap L (map_put k e acc) (ncr_entry k' t' @ r)"
  using map_step_colon [OF assms, of "'','' @ ncr_entry k' t' @ r" "[]" acc] by (simp add: ncr_entry_def)

lemma entry_last:
  assumes "plain_key k" "reads L t e"
  shows "fromStringstreamMap L acc (ncr_entry k t @ ''}'') = Inr (MapElement (map_put k e acc), [])"
  using map_step_colon [OF assms, of "''}''" "[]" acc] by (simp add: ncr_entry_def)

definition ncr_members :: "'m ncr_env_scheme \<Rightarrow> name_change_request \<Rightarrow> string \<Rightarrow> string \<Rightarrow> (string, element) std_map" where
  "ncr_members E r dh expires =
     map_put ''lease_length'' (IntElement (ucast (lease_length r)))
     (map_put ''lease_expires_on'' (StringElement expires)
     (map_put ''dhcid'' (StringElement dh)
     (map_put ''ip_address'' (StringElement (getIpAddress E r))
     (map_put ''fqdn'' (StringElement (fqdn r))
     (map_put ''reverse_change'' (BoolElement (reverse_change r))
     (map_put ''forward_change'' (BoolElement (forward_change r))
     (map_put ''change_type'' (IntElement (case change_type r of CHG_ADD \<Rightarrow> 0 | CHG_REMOVE \<Rightarrow> 1)) [])))))))"

lemma plain_member_names [simp]:
  "plain_key ''change_type''" "plain_key ''forward_change''" "plain_key ''reverse_change''" "plain_key ''fqdn''"
  "plain_key ''ip_address''" "plain_key ''dhcid''" "plain_key ''lease_expires_on''" "plain_key ''lease_length''"
  by (simp_all add: plain_key_def)

lemma sint_ucast_32: "sint (ucast (w :: 32 word) :: 64 word) = int (unat w)"
proof -
  have w: "uint w < 2 ^ 32" "0 \<le> uint w"
    using uint_bounded [of w] by simp_all
  then have "uint (ucast w :: 64 word) = uint w"
    by (simp add: unsigned_ucast_eq take_bit_int_eq_self)
  then have "sint (ucast w :: 64 word) = uint w"
    using w order_trans [of "- (2 ^ 63)" 0 "uint w"] signed_take_bit_int_eq_self [of 63 "uint w"] by (simp add: sint_uint)
  then show ?thesis
    by simp
qed

lemma reads_nat32:
  assumes "reads_integers L"
  shows "reads L (show_nat (unat (w :: 32 word))) (IntElement (ucast w))"
  using reads_int [OF assms, of "ucast w"] by (simp add: sint_ucast_32 show_int_def)

lemma reads_bit:
  assumes "reads_integers L"
  shows "reads L ''0'' (IntElement 0)" "reads L ''1'' (IntElement 1)"
proof -
  have "show_int (sint (0 :: 64 word)) = ''0''" "show_int (sint (1 :: 64 word)) = ''1''"
    by code_simp+
  then show "reads L ''0'' (IntElement 0)" "reads L ''1'' (IntElement 1)"
    using reads_int [OF assms, of 0] reads_int [OF assms, of 1] by simp_all
qed

lemma reads_flag: "reads L (show_bool b) (BoolElement b)"
  by (cases b) (auto simp: show_bool_def intro: reads_word)

lemma ncr_json_parses:
  assumes "reads_integers E" "plain_key (fqdn r)" "plain_key (getIpAddress E r)" "plain_key dh" "plain_key expires"
    and "dhcid_toStr E (dhcid r) = Inr dh" "getLeaseExpiresOnStr r = Inr expires"
  shows "\<exists>json. ncr_toJSON E r = Inr json \<and> fromJSON E json = Inr (MapElement (ncr_members E r dh expires))"
proof -
  let ?q = "\<lambda>s. [CHR 0x22] @ s @ [CHR 0x22]"
  let ?ct = "case change_type r of CHG_ADD \<Rightarrow> ''0'' | CHG_REMOVE \<Rightarrow> ''1''"
  let ?body = "ncr_entry ''change_type'' ?ct @ '','' @ ncr_entry ''forward_change'' (show_bool (forward_change r)) @ '','' @
    ncr_entry ''reverse_change'' (show_bool (reverse_change r)) @ '','' @ ncr_entry ''fqdn'' (?q (fqdn r)) @ '','' @
    ncr_entry ''ip_address'' (?q (getIpAddress E r)) @ '','' @ ncr_entry ''dhcid'' (?q dh) @ '','' @
    ncr_entry ''lease_expires_on'' (?q expires) @ '','' @ ncr_entry ''lease_length'' (show_nat (unat (lease_length r))) @ ''}''"
  have json: "ncr_toJSON E r = Inr (''{'' @ ?body)"
    using assms(6,7) by (simp add: ncr_toJSON_def ncr_entry_def)
  have ct: "reads E ?ct (IntElement (case change_type r of CHG_ADD \<Rightarrow> 0 | CHG_REMOVE \<Rightarrow> 1))"
    using reads_bit [OF assms(1)] by (cases "change_type r") auto
  have str: "reads E (?q s) (StringElement s)" if "plain_key s" for s
    using that unfolding plain_key_def by (blast intro: reads_plain_string)
  have "fromStringstreamMap E [] ?body = Inr (MapElement (ncr_members E r dh expires), [])"
    unfolding ncr_members_def entry_more [OF plain_member_names(1) ct] entry_more [OF plain_member_names(2) reads_flag]
      entry_more [OF plain_member_names(3) reads_flag] entry_more [OF plain_member_names(4) str [OF assms(2)]]
      entry_more [OF plain_member_names(5) str [OF assms(3)]] entry_more [OF plain_member_names(6) str [OF assms(4)]]
      entry_more [OF plain_member_names(7) str [OF assms(5)]] entry_last [OF plain_member_names(8) reads_nat32 [OF assms(1)]] ..
  moreover obtain c cs where "?body = c # cs" "c = CHR 0x22"
    by (simp add: ncr_entry_def)
  ultimately have "fromJSON_in E (''{'' @ ?body) = Inr (MapElement (ncr_members E r dh expires), [])"
    by (subst fromJSON_in.simps) (simp add: charIn_def WHITESPACE_def)
  then show ?thesis
    using json by (simp add: fromJSON_def)
qed

text \<open>The texts of the DHCID and of the time have no character that needs an escape.\<close>

lemma plain_hex_text: "plain_key (hex_text bs)"
proof -
  have c: "c \<noteq> CHR 0x22 \<and> c \<noteq> CHR 0x5C" if "c \<in> set base16_chars" for c
    using that by (auto simp: base16_chars_def)
  have "hex_digit n \<in> set base16_chars" if "n < 16" for n
    unfolding hex_digit_def using that by (intro nth_mem) (simp add: base16_chars_def)
  moreover have "unat b div 16 < 16" for b :: byte
    using unat_byte_less [of b] by linarith
  ultimately have "\<forall>d \<in> set (hex_text bs). d \<in> set base16_chars"
    by (auto simp: hex_text_def)
  then show ?thesis
    using c by (auto simp: plain_key_def)
qed

lemma plain_time_text: "timeFromText64 t = Inr v \<Longrightarrow> plain_key t"
  by (auto simp: timeFromText64_def if_Inl_eq_Inr plain_key_def list_all_iff isdigit_def)

lemma ncr_json_round_trip:
  assumes "reads_integers E" "regroups (transform_width E)" "sendable E r"
  shows "\<exists>json. ncr_toJSON E r = Inr json \<and> ncr_fromJSON E json = Inr r"
proof -
  let ?dh = "hex_text (dhcid r)"
  have dh: "dhcid_toStr E (dhcid r) = Inr ?dh"
    using assms(2) by (simp add: dhcid_toStr_def encodeHex_text)
  have dh': "decodeHex (transform_width E) ?dh = Inr (dhcid r)"
    using base16.decode_encode [OF assms(2), of "dhcid r"] encodeHex_text [OF assms(2), of "dhcid r"]
    by (auto simp: encodeHex_def decodeHex_def)
  obtain ex where ex: "timeToText64 (lease_expires_on r) = Inr ex" "timeFromText64 ex = Inr (lease_expires_on r)"
    using time_round_trip [of "lease_expires_on r"] assms(3) by (auto simp: sendable_def)
  have plain: "plain_key (fqdn r)" "plain_key (getIpAddress E r)" "plain_key ?dh" "plain_key ex"
    using assms(3) plain_hex_text plain_time_text [OF ex(2)] by (auto simp: sendable_def)
  obtain json where json: "ncr_toJSON E r = Inr json" "fromJSON E json = Inr (MapElement (ncr_members E r ?dh ex))"
    using ncr_json_parses [OF assms(1) plain dh] ex(1) by (auto simp: getLeaseExpiresOnStr_def)
  have m: "map_find ''change_type'' (ncr_members E r ?dh ex) = Some (IntElement (case change_type r of CHG_ADD \<Rightarrow> 0 | CHG_REMOVE \<Rightarrow> 1))"
    "map_find ''forward_change'' (ncr_members E r ?dh ex) = Some (BoolElement (forward_change r))"
    "map_find ''reverse_change'' (ncr_members E r ?dh ex) = Some (BoolElement (reverse_change r))"
    "map_find ''fqdn'' (ncr_members E r ?dh ex) = Some (StringElement (fqdn r))"
    "map_find ''ip_address'' (ncr_members E r ?dh ex) = Some (StringElement (getIpAddress E r))"
    "map_find ''dhcid'' (ncr_members E r ?dh ex) = Some (StringElement ?dh)"
    "map_find ''lease_expires_on'' (ncr_members E r ?dh ex) = Some (StringElement ex)"
    "map_find ''lease_length'' (ncr_members E r ?dh ex) = Some (IntElement (ucast (lease_length r)))"
    by (simp_all add: ncr_members_def find_put del: map_put.simps)
  have ct: "setChangeType_element (IntElement (case change_type r of CHG_ADD \<Rightarrow> 0 | CHG_REMOVE \<Rightarrow> 1)) x = Inr (x\<lparr>change_type := change_type r\<rparr>)" for x
    by (cases "change_type r") (simp_all add: setChangeType_element_def)
  have len: "setLeaseLength_element (IntElement (ucast (lease_length r))) x = Inr (x\<lparr>lease_length := lease_length r\<rparr>)" for x
  proof -
    have "uint (lease_length r) < 2 ^ 32" "0 \<le> uint (lease_length r)"
      using uint_bounded [of "lease_length r"] by simp_all
    then show ?thesis
      by (simp add: setLeaseLength_element_def sint_ucast_32)
  qed
  have fq: "setFqdn_element (StringElement (fqdn r)) x = Inr (x\<lparr>fqdn := fqdn r\<rparr>)" for x
    using setFqdn_canonical assms(3) by (simp add: setFqdn_element_def sendable_def)
  have ok: "validateContent r = Inr ()" "addr_from_string E (getIpAddress E r) = Some (ip_io_address r)" "status r = ST_NEW"
    using assms(3) by (simp_all add: sendable_def)
  have same: "\<lparr>change_type = change_type r, forward_change = forward_change r, reverse_change = reverse_change r,
      fqdn = fqdn r, ip_io_address = ip_io_address r, dhcid = dhcid r, lease_expires_on = lease_expires_on r,
      lease_length = lease_length r, status = ST_NEW\<rparr> = r"
    using ok(3) by (cases r) simp
  have "ncr_fromJSON E json = Inr r"
    by (simp add: ncr_fromJSON_def json(2) getElement_def m ct len fq setForwardChange_element_def setReverseChange_element_def
        setIpAddress_element_def setIpAddress_def setDhcid_element_def dhcid_fromStr_def dh' setLeaseExpiresOn_element_def
        setLeaseExpiresOn_def ex(2) NameChangeRequest_default_def same ok)
  then show ?thesis
    using json(1) by blast
qed

text \<open>The octets: a 16-bit length and the text.\<close>

lemma ncr_format_round_trip:
  assumes "ncr_toJSON E r = Inr json" "ncr_fromJSON E json = Inr r'" "length json < 65536" "wf_ob ob" "ob_contents ob = []"
  shows "\<exists>bs ob'. toFormat E (Some FMT_JSON) r ob = (Inr (), ob') \<and> ob_contents ob' = map Some bs \<and>
    fst (fromFormat E (Some FMT_JSON) (InputBuffer (bs @ rest))) = Inr r'"
proof -
  define n :: "16 word" where "n = word_of_nat (length json)"
  have n: "unat n = length json"
    using assms(3) by (simp add: n_def unat_of_nat take_bit_eq_mod)
  define hd2 where "hd2 = [ucast (drop_bit 8 (n AND 0xff00)), ucast (n AND 0x00ff)] @ ([] :: byte list)"
  let ?bs = "hd2 @ map byte_of_char json"
  have "toFormat E (Some FMT_JSON) r ob = (Inr (), writeData (map byte_of_char json) (writeUint16 n ob))"
    using assms(1) n by (simp add: toFormat_def n_def [symmetric] Let_def)
  moreover have "ob_contents (writeData (map byte_of_char json) (writeUint16 n ob)) = map Some ?bs"
    using writeData_contents(1) [OF writeUint16_contents(2) [OF assms(4)]] writeUint16_contents(1) [OF assms(4)] assms(5)
    by (simp add: hd2_def)
  moreover have "fst (fromFormat E (Some FMT_JSON) (InputBuffer (?bs @ rest))) = Inr r'"
  proof -
    have "readUint16 (InputBuffer (?bs @ rest)) = (Inr n, \<lparr>ib_data = ?bs @ rest, ib_position = 2\<rparr>)"
      using readUint16_written [of "InputBuffer (?bs @ rest)" "[]" n "map byte_of_char json @ rest"] by (simp add: InputBuffer_def hd2_def)
    moreover have "fst (readVector (unat n) \<lparr>ib_data = ?bs @ rest, ib_position = 2\<rparr>) = Inr (map byte_of_char json)"
      using n by (simp add: readVector_def readData_def hd2_def)
    ultimately show ?thesis
      using assms(2) by (auto simp: fromFormat_def comp_def split: prod.splits sum.splits)
  qed
  ultimately show ?thesis
    by blast
qed

section \<open>Exceptions in the receiver\<close>

definition ncr_errors :: "d2_exn set" where
  "ncr_errors = {NcrMessageError, LibError TypeError, LibError AssertionFailure}"

definition only :: "'e set \<Rightarrow> 'e + 'a \<Rightarrow> bool" where
  "only S r \<longleftrightarrow> (\<forall>e. r = Inl e \<longrightarrow> e \<in> S)"

lemma only_simps [simp]: "only S (Inr a)" "only S (Inl e) \<longleftrightarrow> e \<in> S"
  by (simp_all add: only_def)

lemma only_bindS: "only S m \<Longrightarrow> (\<And>a. m = Inr a \<Longrightarrow> only S (f a)) \<Longrightarrow> only S (bindS m f)"
  by (auto simp: only_def bindS_eq_Inl)

lemma only_no_method: "only {TypeError, AssertionFailure} (no_method e)"
  by (cases e) auto

lemma only_values:
  "only {TypeError, AssertionFailure} (intValue e)" "only {TypeError, AssertionFailure} (boolValue e)"
  "only {TypeError, AssertionFailure} (stringValue e)" "only {TypeError, AssertionFailure} (mapValue e)"
  by (cases e; simp)+

lemma only_lib: "only {TypeError, AssertionFailure} r \<Longrightarrow> only ncr_errors (lib r)"
  by (cases r) (auto simp: ncr_errors_def)

lemma only_fromStr: "only ncr_errors (dhcid_fromStr E t)"
proof -
  have pad: "only {BadValue} (pad_loop mp cs p)" for mp cs p
    by (induction mp cs p rule: pad_loop.induct) auto
  have tab: "only {BadValue} (to_table table cs)" for table cs
    by (induction table cs rule: to_table.induct) (auto intro!: only_bindS split: option.splits)
  have "e \<in> {BadValue, AssertionFailure}" if "decodeHex (transform_width E) t = Inl e" for e
    using that pad tab unfolding decodeHex_def baseN_decode_def normalize_def only_def
    by (fastforce simp: bindS_eq_Inl Let_def split: if_splits)
  then show ?thesis
    by (fastforce simp: dhcid_fromStr_def ncr_errors_def split: sum.splits)
qed

lemma only_setFqdn: "only ncr_errors (setFqdn v r)"
proof (cases "Name_text v False")
  case (Inl e)
  then have "e \<in> parse_errors \<or> e = AssertionFailure"
    using Name_bytes_errors by (auto simp: Name_text_def)
  then show ?thesis
    using Inl by (auto simp: setFqdn_def ncr_errors_def parse_errors_def)
next
  case (Inr n)
  then have "wf_name n"
    using Name_bytes_wf by (simp add: Name_text_def)
  then obtain t where "Name_toText False n = Inr t"
    by (auto simp: Name_toText_def Name_toText_spec elim: wf_nameE)
  then show ?thesis
    using Inr by (simp add: setFqdn_def)
qed

lemma only_setters:
  "only ncr_errors (setChangeType_element el r)" "only ncr_errors (setForwardChange_element el r)"
  "only ncr_errors (setReverseChange_element el r)" "only ncr_errors (setFqdn_element el r)"
  "only ncr_errors (setIpAddress_element E el r)" "only ncr_errors (setDhcid_element E el r)"
  "only ncr_errors (setLeaseExpiresOn_element el r)" "only ncr_errors (setLeaseLength_element el r)"
  using only_values [of el] only_setFqdn only_fromStr [of E]
  by (auto simp: setChangeType_element_def setForwardChange_element_def setReverseChange_element_def setFqdn_element_def
      setIpAddress_element_def setIpAddress_def setDhcid_element_def setLeaseExpiresOn_element_def setLeaseExpiresOn_def
      setLeaseLength_element_def ncr_errors_def only_def lib_def bindS_def split: sum.splits option.splits)

lemma only_content: "only ncr_errors (getElement k m)" "only ncr_errors (validateContent r)"
  by (auto simp: getElement_def validateContent_def ncr_errors_def split: option.splits)

lemma only_ncr_fromJSON: "only ncr_errors (ncr_fromJSON E json)"
proof (cases "fromJSON E json")
  case (Inl e)
  then show ?thesis
    using fromJSON_errors [OF Inl] by (simp add: ncr_fromJSON_def ncr_errors_def)
next
  case (Inr el)
  have "only ncr_errors (lib (mapValue el))"
    by (intro only_lib only_values)
  then show ?thesis
    unfolding ncr_fromJSON_def Inr sum.case by (intro only_bindS only_content only_setters only_simps)
qed

lemma receive_errors:
  assumes "receiveCompletionHandler E c = HandlerThrows e"
  shows "e = LibError TypeError \<or> e = LibError AssertionFailure"
proof -
  obtain bs where bs: "fst (fromFormat E (Some FMT_JSON) (InputBuffer bs)) = Inl e" "e \<noteq> NcrMessageError"
    using assms by (auto simp: receiveCompletionHandler_def split: recv_completion.splits sum.splits if_splits)
  have rd: "readUint16 b = (Inl e', b') \<Longrightarrow> e' = InvalidBufferPosition" "readVector n b = (Inl e', b') \<Longrightarrow> e' = InvalidBufferPosition" for n b b' e'
    by (auto simp: readUint16_def readVector_def readData_def raise_def Let_def split: if_splits)
  then have "\<exists>json. ncr_fromJSON E json = Inl e"
    using bs by (fastforce simp: fromFormat_def split: prod.splits sum.splits)
  then show ?thesis
    using only_ncr_fromJSON bs(2) by (fastforce simp: only_def ncr_errors_def)
qed

section \<open>What the receiver accepts\<close>

text \<open>Every setter writes its own member, with a value in the range the code checks.\<close>

lemma setters_write:
  "setChangeType_element el r = Inr r' \<Longrightarrow> \<exists>v. r' = r\<lparr>change_type := v\<rparr>"
  "setForwardChange_element el r = Inr r' \<Longrightarrow> \<exists>v. r' = r\<lparr>forward_change := v\<rparr>"
  "setReverseChange_element el r = Inr r' \<Longrightarrow> \<exists>v. r' = r\<lparr>reverse_change := v\<rparr>"
  "setFqdn_element el r = Inr r' \<Longrightarrow> \<exists>v. r' = r\<lparr>fqdn := v\<rparr> \<and> canonical_text v"
  "setIpAddress_element E el r = Inr r' \<Longrightarrow> \<exists>v. r' = r\<lparr>ip_io_address := v\<rparr> \<and> (\<exists>t. addr_from_string E t = Some v)"
  "setDhcid_element E el r = Inr r' \<Longrightarrow> \<exists>v. r' = r\<lparr>dhcid := v\<rparr>"
  "setLeaseExpiresOn_element el r = Inr r' \<Longrightarrow> \<exists>v. r' = r\<lparr>lease_expires_on := v\<rparr> \<and> unat v \<le> time_limit"
  "setLeaseLength_element el r = Inr r' \<Longrightarrow> \<exists>v. r' = r\<lparr>lease_length := v\<rparr>"
proof -
  assume "setFqdn_element el r = Inr r'"
  then obtain v where v: "setFqdn v r = Inr r'"
    by (auto simp: setFqdn_element_def bindS_eq_Inr)
  then show "\<exists>v. r' = r\<lparr>fqdn := v\<rparr> \<and> canonical_text v"
    using setFqdn_gives_canonical [OF v] by (auto simp: setFqdn_def split: sum.splits if_splits)
next
  assume "setLeaseExpiresOn_element el r = Inr r'"
  then obtain v where "setLeaseExpiresOn v r = Inr r'"
    by (auto simp: setLeaseExpiresOn_element_def bindS_eq_Inr)
  then show "\<exists>v. r' = r\<lparr>lease_expires_on := v\<rparr> \<and> unat v \<le> time_limit"
    by (cases "timeFromText64 v") (auto simp: setLeaseExpiresOn_def dest: timeFromText64_bound)
qed (auto simp: setChangeType_element_def setForwardChange_element_def setReverseChange_element_def setIpAddress_element_def
    setIpAddress_def setDhcid_element_def setLeaseLength_element_def bindS_eq_Inr
    split: sum.splits if_splits option.splits)

lemma ncr_fromJSON_accepts:
  assumes "ncr_fromJSON E json = Inr r"
  shows "validateContent r = Inr ()" "canonical_text (fqdn r)" "unat (lease_expires_on r) \<le> time_limit" "status r = ST_NEW"
    "\<exists>t. addr_from_string E t = Some (ip_io_address r)"
proof -
  obtain el1 el2 el3 el4 el5 el6 el7 el8 r1 r2 r3 r4 r5 r6 r7 where
    s: "setChangeType_element el1 NameChangeRequest_default = Inr r1" "setForwardChange_element el2 r1 = Inr r2"
      "setReverseChange_element el3 r2 = Inr r3" "setFqdn_element el4 r3 = Inr r4" "setIpAddress_element E el5 r4 = Inr r5"
      "setDhcid_element E el6 r5 = Inr r6" "setLeaseExpiresOn_element el7 r6 = Inr r7" "setLeaseLength_element el8 r7 = Inr r"
    and v: "validateContent r = Inr ()"
    using assms by (auto simp: ncr_fromJSON_def bindS_eq_Inr split: sum.splits if_splits)
  show "validateContent r = Inr ()"
    by (rule v)
  show "canonical_text (fqdn r)" "unat (lease_expires_on r) \<le> time_limit" "status r = ST_NEW"
    "\<exists>t. addr_from_string E t = Some (ip_io_address r)"
    using setters_write(1) [OF s(1)] setters_write(2) [OF s(2)] setters_write(3) [OF s(3)] setters_write(4) [OF s(4)]
      setters_write(5) [OF s(5)] setters_write(6) [OF s(6)] setters_write(7) [OF s(7)] setters_write(8) [OF s(8)]
    by (auto simp: NameChangeRequest_default_def)
qed

definition received :: "'m ncr_env_scheme \<Rightarrow> name_change_request \<Rightarrow> bool" where
  "received E r \<longleftrightarrow> (\<exists>json. ncr_fromJSON E json = Inr r)"

lemma received_from:
  assumes "receiveCompletionHandler E c = InvokeRecvHandler result (Some r)"
  shows "received E r \<and> result = LR_SUCCESS"
  using assms
  by (auto simp: receiveCompletionHandler_def received_def fromFormat_def split: recv_completion.splits sum.splits if_splits prod.splits)

lemma datagram_delivers:
  assumes "reads_integers E" "regroups (transform_width E)" "sendable E r" "ncr_toJSON E r = Inr json" "length json < 65536"
    and "wf_ob ob" "ob_contents ob = []"
  shows "\<exists>bs ob'. toFormat E (Some FMT_JSON) r ob = (Inr (), ob') \<and> ob_contents ob' = map Some bs \<and>
    receiveCompletionHandler E (Received bs) = InvokeRecvHandler LR_SUCCESS (Some r)"
proof -
  have "ncr_fromJSON E json = Inr r"
    using ncr_json_round_trip [OF assms(1-3)] assms(4) by auto
  from ncr_format_round_trip [OF assms(4) this assms(5-7), of "[]"] show ?thesis
    by (auto simp: receiveCompletionHandler_def)
qed

end
