(* ===== verification/D2_Queue.thy ===== *)
theory D2_Queue
  imports D2_NcrWire
begin

text \<open>
  Receiving requests: the listener (\<^verbatim>\<open>NameChangeListener\<close> of \<^verbatim>\<open>src/lib/dhcp_ddns/ncr_io.cc\<close> with its UDP
  derivation in \<^verbatim>\<open>ncr_udp.cc\<close>) and the queue manager \<^verbatim>\<open>D2QueueMgr\<close>
  (\<^verbatim>\<open>src/bin/d2/d2_queue_mgr.cc\<close>), which owns the listener and is called back by it.

  The socket is asio's: whether opening, receiving and closing throw is given by the argument
  \<open>io\<close> of every operation that uses it.  A queue entry is a shared pointer, null when \<open>None\<close>.
\<close>

section \<open>State\<close>

datatype mgr_state = NOT_INITTED | INITTED | RUNNING | STOPPING | STOPPED_QUEUE_FULL | STOPPED_RECV_ERROR | STOPPED

text \<open>
  The two pointers of the UDP listener: \<open>asio_socket\<close> to the asio socket it manages and \<open>socket\<close> to the wrapper it
  receives through.
\<close>

record listener =
  listening :: bool
  io_pending :: bool
  asio_socket :: bool
  socket :: bool

record queue_mgr =
  max_queue_size :: nat
  ncr_queue :: "name_change_request option list"
  qm_listener :: "listener option"
  mgr_state :: mgr_state
  target_stop_state :: mgr_state

record socket_io =
  open_fails :: bool
  receive_fails :: bool
  close_fails :: bool

type_synonym 'a qm_op = "(queue_mgr, d2_exn, 'a) exec"

definition MAX_QUEUE_DEFAULT :: nat where
  "MAX_QUEUE_DEFAULT = 1024"

definition getQueueSize :: "queue_mgr \<Rightarrow> nat" where
  "getQueueSize q = length (ncr_queue q)"

section \<open>The queue\<close>

definition setMaxQueueSize :: "nat \<Rightarrow> unit qm_op" where
  "setMaxQueueSize new_queue_max q =
     (if new_queue_max < 1 then raise D2QueueMgrError q
      else if new_queue_max < getQueueSize q then raise D2QueueMgrError q
      else (Inr (), q\<lparr>max_queue_size := new_queue_max\<rparr>))"

text \<open>The constructor; \<open>io\<close> says whether the I/O service pointer is set.\<close>

definition D2QueueMgr :: "bool \<Rightarrow> nat \<Rightarrow> d2_exn + queue_mgr" where
  "D2QueueMgr io max_size =
     (let q = \<lparr>max_queue_size = max_size, ncr_queue = [], qm_listener = None, mgr_state = NOT_INITTED, target_stop_state = NOT_INITTED\<rparr>
      in if \<not> io then Inl D2QueueMgrError
         else case setMaxQueueSize max_size q of (Inl e, _) \<Rightarrow> Inl e | (Inr _, q') \<Rightarrow> Inr q')"

definition peek :: "queue_mgr \<Rightarrow> d2_exn + name_change_request option" where
  "peek q = (if getQueueSize q = 0 then Inl D2QueueMgrQueueEmpty else Inr (hd (ncr_queue q)))"

definition peekAt :: "nat \<Rightarrow> queue_mgr \<Rightarrow> d2_exn + name_change_request option" where
  "peekAt index q = (if index \<ge> getQueueSize q then Inl D2QueueMgrInvalidIndex else Inr (ncr_queue q ! index))"

definition dequeueAt :: "nat \<Rightarrow> unit qm_op" where
  "dequeueAt index q =
     (if index \<ge> getQueueSize q then raise D2QueueMgrInvalidIndex q
      else (Inr (), q\<lparr>ncr_queue := take index (ncr_queue q) @ drop (Suc index) (ncr_queue q)\<rparr>))"

definition dequeue :: "unit qm_op" where
  "dequeue q = (if getQueueSize q = 0 then raise D2QueueMgrQueueEmpty q else (Inr (), q\<lparr>ncr_queue := tl (ncr_queue q)\<rparr>))"

definition enqueue :: "name_change_request option \<Rightarrow> queue_mgr \<Rightarrow> queue_mgr" where
  "enqueue r q = q\<lparr>ncr_queue := ncr_queue q @ [r]\<rparr>"

definition clearQueue :: "queue_mgr \<Rightarrow> queue_mgr" where
  "clearQueue q = q\<lparr>ncr_queue := []\<rparr>"

section \<open>The listener\<close>

definition listener_open :: "socket_io \<Rightarrow> (listener, d2_exn, unit) exec" where
  "listener_open io l =
     (if open_fails io then raise IOError (l\<lparr>asio_socket := False\<rparr>)
      else (Inr (), l\<lparr>asio_socket := True, socket := True\<rparr>))"

definition doReceive :: "socket_io \<Rightarrow> (listener, d2_exn, unit) exec" where
  "doReceive io l = (if \<not> socket l then raise NullPointer l else if receive_fails io then raise IOError l else (Inr (), l))"

definition listener_close :: "socket_io \<Rightarrow> (listener, d2_exn, unit) exec" where
  "listener_close io l =
     (if asio_socket l \<and> close_fails io then raise IOError l
      else (Inr (), l\<lparr>asio_socket := False, socket := False\<rparr>))"

text \<open>\<^verbatim>\<open>NameChangeListener::stopListening\<close>: a failure to close the socket is swallowed.\<close>

definition listener_stopListening :: "socket_io \<Rightarrow> listener \<Rightarrow> listener" where
  "listener_stopListening io l = (case listener_close io l of (_, l1) \<Rightarrow> l1\<lparr>listening := False\<rparr>)"

definition receiveNext :: "socket_io \<Rightarrow> (listener, d2_exn, unit) exec" where
  "receiveNext io l = doReceive io (l\<lparr>io_pending := True\<rparr>)"

definition listener_startListening :: "socket_io \<Rightarrow> (listener, d2_exn, unit) exec" where
  "listener_startListening io l =
     (if listening l then raise NcrListenerError l
      else
        (case listener_open io l of
           (Inl _, l1) \<Rightarrow> raise NcrListenerOpenError (listener_stopListening io l1)
         | (Inr _, l1) \<Rightarrow>
             (case receiveNext io (l1\<lparr>listening := True\<rparr>) of
                (Inl e, l2) \<Rightarrow>
                  if std_exception e then raise NcrListenerReceiveError (listener_stopListening io l2) else raise e l2
              | (Inr _, l2) \<Rightarrow> (Inr (), l2))))"

section \<open>The queue manager\<close>

definition updateStopState :: "queue_mgr \<Rightarrow> queue_mgr" where
  "updateStopState q = q\<lparr>mgr_state := target_stop_state q\<rparr>"

definition qm_stopListening :: "socket_io \<Rightarrow> mgr_state \<Rightarrow> unit qm_op" where
  "qm_stopListening io target q =
     (case qm_listener q of
        None \<Rightarrow> (Inr (), q)
      | Some l \<Rightarrow>
          if target \<noteq> STOPPED \<and> target \<noteq> STOPPED_QUEUE_FULL \<and> target \<noteq> STOPPED_RECV_ERROR then raise D2QueueMgrError q
          else
            (let l1 = listener_stopListening io l;
                 q1 = q\<lparr>target_stop_state := target, qm_listener := Some l1\<rparr>
             in if io_pending l1 then (Inr (), q1\<lparr>mgr_state := STOPPING\<rparr>) else (Inr (), updateStopState q1)))"

text \<open>The callback \<^verbatim>\<open>operator()\<close>; a \<^verbatim>\<open>std::exception\<close> is logged and swallowed.\<close>

definition qm_switch :: "socket_io \<Rightarrow> listener_result \<Rightarrow> name_change_request option \<Rightarrow> unit qm_op" where
  "qm_switch io result r q =
     (case result of
        LR_SUCCESS \<Rightarrow>
          (if getQueueSize q < max_queue_size q then (Inr (), enqueue r q)
           else qm_stopListening io STOPPED_QUEUE_FULL q)
      | LR_STOPPED \<Rightarrow>
          (if mgr_state q = STOPPING then (Inr (), updateStopState q) else qm_stopListening io STOPPED_RECV_ERROR q)
      | _ \<Rightarrow> qm_stopListening io STOPPED_RECV_ERROR q)"

definition qm_callback :: "socket_io \<Rightarrow> listener_result \<Rightarrow> name_change_request option \<Rightarrow> unit qm_op" where
  "qm_callback io result r = catchE std_exception (qm_switch io result r) (\<lambda>_. ret ())"

text \<open>
  \<^verbatim>\<open>NameChangeListener::invokeRecvHandler\<close>.  The listener is the one the manager owns, so that what the
  handler does to it is seen afterwards.
\<close>

definition set_pending :: "bool \<Rightarrow> queue_mgr \<Rightarrow> queue_mgr" where
  "set_pending b q = q\<lparr>qm_listener := map_option (\<lambda>l. l\<lparr>io_pending := b\<rparr>) (qm_listener q)\<rparr>"

definition call_handler :: "socket_io \<Rightarrow> listener_result \<Rightarrow> name_change_request option \<Rightarrow> unit qm_op" where
  "call_handler io result r = catchE std_exception (\<lambda>q. qm_callback io result r (set_pending False q)) (\<lambda>_. ret ())"

definition invokeRecvHandler :: "socket_io \<Rightarrow> listener_result \<Rightarrow> name_change_request option \<Rightarrow> unit qm_op" where
  "invokeRecvHandler io result r =
     thenE (call_handler io result r) (\<lambda>q.
       case qm_listener q of
         Some l \<Rightarrow>
           if listening l then
             (case receiveNext io l of
                (Inr _, l1) \<Rightarrow> (Inr (), q\<lparr>qm_listener := Some l1\<rparr>)
              | (Inl e, l1) \<Rightarrow>
                  let q1 = q\<lparr>qm_listener := Some l1\<rparr> in if std_exception e then call_handler io LR_ERROR None q1 else raise e q1)
           else (Inr (), q)
       | None \<Rightarrow> (Inr (), q))"

text \<open>\<^verbatim>\<open>NameChangeUDPListener::receiveCompletionHandler\<close>, with what it calls.\<close>

definition complete_receive :: "'m ncr_env_scheme \<Rightarrow> socket_io \<Rightarrow> recv_completion \<Rightarrow> unit qm_op" where
  "complete_receive E io c q =
     (case receiveCompletionHandler E c of
        InvokeRecvHandler result r \<Rightarrow> invokeRecvHandler io result r q
      | ReceiveNext \<Rightarrow>
          (case qm_listener q of
             None \<Rightarrow> raise NullPointer q
           | Some l \<Rightarrow> (case receiveNext io l of (res, l1) \<Rightarrow> (res, q\<lparr>qm_listener := Some l1\<rparr>)))
      | HandlerThrows e \<Rightarrow> raise e q)"

definition initUDPListener :: "unit qm_op" where
  "initUDPListener q =
     (if qm_listener q \<noteq> None then raise D2QueueMgrError q
      else (Inr (), q\<lparr>qm_listener := Some \<lparr>listening = False, io_pending = False, asio_socket = False, socket = False\<rparr>, mgr_state := INITTED\<rparr>))"

definition qm_startListening :: "socket_io \<Rightarrow> unit qm_op" where
  "qm_startListening io q =
     (case qm_listener q of
        None \<Rightarrow> raise D2QueueMgrError q
      | Some l \<Rightarrow>
          if mgr_state q = RUNNING then raise D2QueueMgrError q
          else
            (case listener_startListening io l of
               (Inl e, l1) \<Rightarrow> raise (if std_exception e then D2QueueMgrError else e) (q\<lparr>qm_listener := Some l1\<rparr>)
             | (Inr _, l1) \<Rightarrow> (Inr (), q\<lparr>qm_listener := Some l1, mgr_state := RUNNING\<rparr>)))"

definition removeListener :: "unit qm_op" where
  "removeListener q =
     (if mgr_state q = RUNNING then raise D2QueueMgrError q
      else (Inr (), q\<lparr>qm_listener := None, mgr_state := NOT_INITTED\<rparr>))"

section \<open>Runs of the queue manager\<close>

text \<open>
  The calls the manager can see: those of its owner and of the update manager, and the completion of a
  receive, which the I/O service delivers while one is pending.  \<^verbatim>\<open>enqueue\<close> is public but only the
  callback uses it, under its check.
\<close>

datatype qm_event =
    InitListener
  | StartListening socket_io
  | StopListening socket_io mgr_state
  | RemoveListener
  | Completed socket_io recv_completion
  | SetMax nat
  | DequeueAt nat
  | Dequeue
  | ClearQueue

fun qm_do :: "'m ncr_env_scheme \<Rightarrow> qm_event \<Rightarrow> unit qm_op" where
  "qm_do E InitListener q = initUDPListener q"
| "qm_do E (StartListening io) q = qm_startListening io q"
| "qm_do E (StopListening io target) q = qm_stopListening io target q"
| "qm_do E RemoveListener q = removeListener q"
| "qm_do E (Completed io c) q = complete_receive E io c q"
| "qm_do E (SetMax n) q = setMaxQueueSize n q"
| "qm_do E (DequeueAt i) q = dequeueAt i q"
| "qm_do E Dequeue q = dequeue q"
| "qm_do E ClearQueue q = (Inr (), clearQueue q)"

fun qm_enabled :: "qm_event \<Rightarrow> queue_mgr \<Rightarrow> bool" where
  "qm_enabled (Completed io c) q = (case qm_listener q of Some l \<Rightarrow> io_pending l | None \<Rightarrow> False)"
| "qm_enabled _ q = True"

inductive qm_reach :: "'m ncr_env_scheme \<Rightarrow> queue_mgr \<Rightarrow> bool" for E where
  qm_created: "D2QueueMgr True n = Inr q \<Longrightarrow> qm_reach E q"
| qm_event: "qm_reach E q \<Longrightarrow> qm_enabled ev q \<Longrightarrow> qm_do E ev q = (res, q') \<Longrightarrow> qm_reach E q'"

section \<open>The invariant\<close>

definition stop_states :: "mgr_state set" where
  "stop_states = {STOPPED, STOPPED_QUEUE_FULL, STOPPED_RECV_ERROR}"

definition amListening :: "queue_mgr \<Rightarrow> bool" where
  "amListening q = (case qm_listener q of Some l \<Rightarrow> listening l | None \<Rightarrow> False)"

definition qm_inv :: "queue_mgr \<Rightarrow> bool" where
  "qm_inv q \<longleftrightarrow>
     1 \<le> max_queue_size q \<and> getQueueSize q \<le> max_queue_size q \<and> None \<notin> set (ncr_queue q) \<and>
     (mgr_state q = RUNNING \<longleftrightarrow> amListening q) \<and>
     (mgr_state q = NOT_INITTED \<longleftrightarrow> qm_listener q = None) \<and>
     (mgr_state q = STOPPING \<longrightarrow> target_stop_state q \<in> stop_states) \<and>
     (case qm_listener q of Some l \<Rightarrow> listening l \<longrightarrow> socket l \<and> asio_socket l | None \<Rightarrow> True)"

lemma stop_states_mem: "(target \<noteq> STOPPED \<and> target \<noteq> STOPPED_QUEUE_FULL \<and> target \<noteq> STOPPED_RECV_ERROR) \<longleftrightarrow> target \<notin> stop_states"
  by (auto simp: stop_states_def)

lemma stop_states_facts:
  "STOPPED \<in> stop_states" "STOPPED_QUEUE_FULL \<in> stop_states" "STOPPED_RECV_ERROR \<in> stop_states"
  "target \<in> stop_states \<Longrightarrow> target \<noteq> RUNNING \<and> target \<noteq> STOPPING \<and> target \<noteq> NOT_INITTED \<and> target \<noteq> INITTED"
  by (auto simp: stop_states_def)

lemmas qm_unfold = qm_inv_def amListening_def getQueueSize_def raise_def updateStopState_def listener_stopListening_def listener_close_def

lemma stopListening_inv [keeps_intros]: "keeps qm_inv (qm_stopListening io target)"
  by (auto simp: keeps_def qm_stopListening_def Let_def stop_states_mem qm_unfold dest: stop_states_facts(4)
      split: option.splits if_splits prod.splits)

lemma set_pending_inv: "qm_inv (set_pending b q) = qm_inv q"
  by (auto simp: qm_inv_def set_pending_def amListening_def getQueueSize_def split: option.splits)

lemma enqueue_inv: "qm_inv q \<Longrightarrow> getQueueSize q < max_queue_size q \<Longrightarrow> r \<noteq> None \<Longrightarrow> qm_inv (enqueue r q)"
  by (auto simp: qm_inv_def enqueue_def amListening_def getQueueSize_def)

lemma updateStopState_inv: "qm_inv q \<Longrightarrow> mgr_state q = STOPPING \<Longrightarrow> qm_inv (updateStopState q)"
  by (auto simp: qm_unfold dest: stop_states_facts(4))

lemma switch_inv: "result = LR_SUCCESS \<longrightarrow> r \<noteq> None \<Longrightarrow> keeps qm_inv (qm_switch io result r)"
  by (cases result) (auto simp: keeps_def qm_switch_def enqueue_inv updateStopState_inv keepsD [OF stopListening_inv])

lemma callback_inv: "result = LR_SUCCESS \<longrightarrow> r \<noteq> None \<Longrightarrow> keeps qm_inv (qm_callback io result r)"
  unfolding qm_callback_def by (intro keeps_catchE switch_inv keeps_ret)

lemma call_handler_inv: "result = LR_SUCCESS \<longrightarrow> r \<noteq> None \<Longrightarrow> keeps qm_inv (call_handler io result r)"
  unfolding call_handler_def
  by (intro keeps_catchE keeps_ret keepsI keepsD [OF callback_inv]) (simp_all add: set_pending_inv)

lemma receiveNext_inv:
  "qm_inv q \<Longrightarrow> qm_listener q = Some l \<Longrightarrow> receiveNext io l = (res, l1) \<Longrightarrow> qm_inv (q\<lparr>qm_listener := Some l1\<rparr>)"
  by (auto simp: receiveNext_def doReceive_def qm_inv_def amListening_def getQueueSize_def raise_def split: if_splits)

lemma invokeRecvHandler_inv: "result = LR_SUCCESS \<longrightarrow> r \<noteq> None \<Longrightarrow> keeps qm_inv (invokeRecvHandler io result r)"
  unfolding invokeRecvHandler_def
  by (intro keeps_thenE call_handler_inv keepsI)
    (auto split: option.splits prod.splits sum.splits simp: Let_def raise_def intro: receiveNext_inv keepsD [OF call_handler_inv])

lemma complete_inv: "keeps qm_inv (complete_receive E io c)"
proof (rule keepsI)
  fix q assume q: "qm_inv q"
  have r: "receiveCompletionHandler E c = InvokeRecvHandler result r \<Longrightarrow> result = LR_SUCCESS \<longrightarrow> r \<noteq> None" for result r
    by (auto simp: receiveCompletionHandler_def split: recv_completion.splits sum.splits if_splits)
  show "qm_inv (snd (complete_receive E io c q))"
    using q by (auto simp: complete_receive_def raise_def split: recv_action.splits option.splits prod.splits
        intro: receiveNext_inv keepsD [OF invokeRecvHandler_inv] dest: r)
qed

lemma startListening_inv: "keeps qm_inv (qm_startListening io)"
  by (auto simp: keeps_def qm_startListening_def listener_startListening_def listener_open_def receiveNext_def doReceive_def qm_unfold
      split: option.splits if_splits prod.splits sum.splits)

lemma qm_do_inv: "keeps qm_inv (qm_do E ev)"
proof (cases ev)
  case (DequeueAt i)
  then show ?thesis
    by (auto simp: keeps_def dequeueAt_def qm_inv_def amListening_def getQueueSize_def raise_def dest: in_set_takeD in_set_dropD)
next
  case Dequeue
  then show ?thesis
    by (auto simp: keeps_def dequeue_def qm_inv_def amListening_def getQueueSize_def raise_def intro: list.set_sel(2))
next
  case (Completed io c)
  then show ?thesis
    using complete_inv [of E io c] by (simp add: keeps_def)
next
  case (StartListening io)
  then show ?thesis
    using startListening_inv [of io] by (simp add: keeps_def)
next
  case (StopListening io target)
  then show ?thesis
    using stopListening_inv [of io target] by (simp add: keeps_def)
qed (auto simp: keeps_def setMaxQueueSize_def clearQueue_def initUDPListener_def removeListener_def qm_inv_def amListening_def
    getQueueSize_def raise_def)

lemma reach_inv: "qm_reach E q \<Longrightarrow> qm_inv q"
proof (induction rule: qm_reach.induct)
  case (qm_created n q)
  then show ?case
    by (auto simp: D2QueueMgr_def setMaxQueueSize_def qm_unfold Let_def split: if_splits)
next
  case (qm_event q ev res q')
  then show ?case
    using keepsD [OF qm_do_inv, of q E ev] by simp
qed

lemma switch_success: "getQueueSize q < max_queue_size q \<Longrightarrow> call_handler io LR_SUCCESS r q = (Inr (), enqueue r (set_pending False q))"
  by (simp add: call_handler_def qm_callback_def qm_switch_def catchE_def set_pending_def getQueueSize_def)

lemma stopListening_ok:
  "qm_inv q \<Longrightarrow> target \<in> stop_states \<Longrightarrow> qm_listener q = Some l \<Longrightarrow>
   qm_stopListening io target q =
     (Inr (), q\<lparr>target_stop_state := target, qm_listener := Some (listener_stopListening io l),
        mgr_state := if io_pending l then STOPPING else target\<rparr>)"
  by (auto simp: qm_stopListening_def Let_def updateStopState_def listener_stopListening_def listener_close_def stop_states_def raise_def)

lemma stopped_listener [simp]: "listening (listener_stopListening io l) = False" "io_pending (listener_stopListening io l) = io_pending l"
  by (auto simp: listener_stopListening_def listener_close_def raise_def)

definition failed_to :: "mgr_state \<Rightarrow> socket_io \<Rightarrow> listener \<Rightarrow> queue_mgr \<Rightarrow> queue_mgr" where
  "failed_to target io l q =
     q\<lparr>target_stop_state := target, qm_listener := Some (listener_stopListening io (l\<lparr>io_pending := False\<rparr>)), mgr_state := target\<rparr>"

lemma handler_stops:
  assumes "qm_inv q" "qm_listener q = Some l"
  shows "result \<in> {LR_ERROR, LR_TIME_OUT, LR_OTHER} \<Longrightarrow> call_handler io result r q = (Inr (), failed_to STOPPED_RECV_ERROR io l q)"
    "mgr_state q \<noteq> STOPPING \<Longrightarrow> call_handler io LR_STOPPED r q = (Inr (), failed_to STOPPED_RECV_ERROR io l q)"
    "\<not> getQueueSize q < max_queue_size q \<Longrightarrow> call_handler io LR_SUCCESS r q = (Inr (), failed_to STOPPED_QUEUE_FULL io l q)"
    "mgr_state q = STOPPING \<Longrightarrow>
     call_handler io LR_STOPPED r q = (Inr (), q\<lparr>qm_listener := Some (l\<lparr>io_pending := False\<rparr>), mgr_state := target_stop_state q\<rparr>)"
  using assms
  by (auto simp: call_handler_def qm_callback_def qm_switch_def catchE_def set_pending_def getQueueSize_def failed_to_def updateStopState_def
      qm_stopListening_def Let_def)

text \<open>After the handler has run: the next receive, or nothing when the handler stopped the listener.\<close>

definition next_receive :: "socket_io \<Rightarrow> listener \<Rightarrow> queue_mgr \<Rightarrow> queue_mgr" where
  "next_receive io l q =
     (if \<not> listening l then q
      else if receive_fails io then failed_to STOPPED_RECV_ERROR io l q
      else q\<lparr>qm_listener := Some (l\<lparr>io_pending := True\<rparr>)\<rparr>)"

lemma invoke_after:
  assumes h: "call_handler io result r q = (Inr (), q1)" and q1: "qm_inv q1" "qm_listener q1 = Some l"
  shows "invokeRecvHandler io result r q = (Inr (), next_receive io l q1)"
proof (cases "listening l \<and> receive_fails io")
  case True
  let ?q = "q1\<lparr>qm_listener := Some (l\<lparr>io_pending := True\<rparr>)\<rparr>"
  have n: "receiveNext io l = (Inl IOError, l\<lparr>io_pending := True\<rparr>)"
    using True q1 by (auto simp: receiveNext_def doReceive_def raise_def qm_inv_def)
  have "call_handler io LR_ERROR None ?q = (Inr (), failed_to STOPPED_RECV_ERROR io (l\<lparr>io_pending := True\<rparr>) ?q)"
    by (rule handler_stops(1)) (use receiveNext_inv [OF q1 n] in simp_all)
  then show ?thesis
    using True q1 n by (simp add: invokeRecvHandler_def thenE_def h next_receive_def failed_to_def Let_def)
qed (use q1 in \<open>auto simp: invokeRecvHandler_def thenE_def h next_receive_def receiveNext_def doReceive_def qm_inv_def\<close>)

lemma receive_queued:
  assumes "qm_inv q" "getQueueSize q < max_queue_size q" "qm_listener q = Some l"
    "receiveCompletionHandler E c = InvokeRecvHandler LR_SUCCESS (Some r)"
  shows "complete_receive E io c q = (Inr (), next_receive io (l\<lparr>io_pending := False\<rparr>) (enqueue (Some r) (set_pending False q)))"
proof -
  have "qm_inv (enqueue (Some r) (set_pending False q))"
    using assms by (intro enqueue_inv) (simp_all add: set_pending_inv, simp add: set_pending_def getQueueSize_def)
  then show ?thesis
    using assms invoke_after [OF switch_success]
    by (simp add: complete_receive_def enqueue_def set_pending_def)
qed

lemma receive_stops:
  assumes q: "qm_inv q" "qm_listener q = Some l" and c: "receiveCompletionHandler E c = InvokeRecvHandler result r"
  shows "result = LR_SUCCESS \<Longrightarrow> \<not> getQueueSize q < max_queue_size q \<Longrightarrow>
      complete_receive E io c q = (Inr (), failed_to STOPPED_QUEUE_FULL io l q)"
    "result = LR_ERROR \<or> result = LR_STOPPED \<and> mgr_state q \<noteq> STOPPING \<Longrightarrow>
      complete_receive E io c q = (Inr (), failed_to STOPPED_RECV_ERROR io l q)"
    "result = LR_STOPPED \<Longrightarrow> mgr_state q = STOPPING \<Longrightarrow>
      complete_receive E io c q = (Inr (), q\<lparr>qm_listener := Some (l\<lparr>io_pending := False\<rparr>), mgr_state := target_stop_state q\<rparr>)"
proof -
  have inv: "call_handler io result r q = (Inr (), q1) \<Longrightarrow> qm_inv q1" for q1
    using keepsD [OF call_handler_inv q(1), of result r io] c
    by (auto simp: receiveCompletionHandler_def split: recv_completion.splits sum.splits if_splits)
  have fin: "complete_receive E io c q = (Inr (), q1)"
    if "call_handler io result r q = (Inr (), q1)" "qm_listener q1 = Some l1" "\<not> listening l1" for q1 l1
    using invoke_after [OF that(1) inv [OF that(1)] that(2)] that(3) by (simp add: complete_receive_def c next_receive_def)
  show "result = LR_SUCCESS \<Longrightarrow> \<not> getQueueSize q < max_queue_size q \<Longrightarrow>
      complete_receive E io c q = (Inr (), failed_to STOPPED_QUEUE_FULL io l q)"
    by (rule fin) (use handler_stops [OF q] in \<open>auto simp: failed_to_def\<close>)
  show "result = LR_ERROR \<or> result = LR_STOPPED \<and> mgr_state q \<noteq> STOPPING \<Longrightarrow>
      complete_receive E io c q = (Inr (), failed_to STOPPED_RECV_ERROR io l q)"
    by (rule fin) (use handler_stops [OF q] in \<open>auto simp: failed_to_def\<close>)
  show "result = LR_STOPPED \<Longrightarrow> mgr_state q = STOPPING \<Longrightarrow>
      complete_receive E io c q = (Inr (), q\<lparr>qm_listener := Some (l\<lparr>io_pending := False\<rparr>), mgr_state := target_stop_state q\<rparr>)"
    by (rule fin) (use handler_stops [OF q] q in \<open>auto simp: qm_inv_def amListening_def\<close>)
qed

section \<open>A running manager has a receive pending\<close>

definition receiving :: "queue_mgr \<Rightarrow> bool" where
  "receiving q \<longleftrightarrow> (mgr_state q = RUNNING \<longrightarrow> (\<exists>l. qm_listener q = Some l \<and> io_pending l))"

lemma complete_receiving:
  assumes q: "qm_inv q" "receiving q" "qm_listener q = Some l"
  shows "receiving (snd (complete_receive E io c q))"
proof (cases "receiveCompletionHandler E c")
  case (InvokeRecvHandler result r)
  note c = this
  have running: "mgr_state q = RUNNING \<longleftrightarrow> listening l"
    using q by (simp add: qm_inv_def amListening_def)
  consider "result = LR_SUCCESS" "r \<noteq> None" | "result = LR_ERROR" | "result = LR_STOPPED"
    using c by (auto simp: receiveCompletionHandler_def split: recv_completion.splits sum.splits if_splits)
  then show ?thesis
  proof cases
    case 1
    then obtain x where x: "r = Some x" by auto
    show ?thesis
    proof (cases "getQueueSize q < max_queue_size q")
      case True
      then show ?thesis
        using c 1 running q(3) by (auto simp: x receive_queued [OF q(1) True q(3), of E c x] receiving_def next_receive_def
            failed_to_def enqueue_def set_pending_def)
    next
      case False
      then show ?thesis
        using receive_stops(1) [OF q(1,3) c 1(1) False] by (simp add: receiving_def failed_to_def)
    qed
  next
    case 2
    then show ?thesis
      using receive_stops(2) [OF q(1,3) c] by (auto simp: receiving_def failed_to_def)
  next
    case 3
    then show ?thesis
      using receive_stops(2,3) [OF q(1,3) c] q(1) stop_states_facts(4)
      by (cases "mgr_state q = STOPPING") (auto simp: receiving_def failed_to_def qm_inv_def)
  qed
qed (use q in \<open>auto simp: complete_receive_def receiveNext_def doReceive_def receiving_def raise_def split: if_splits\<close>)

lemma qm_do_receiving:
  assumes "qm_inv q" "receiving q" "qm_enabled ev q"
  shows "receiving (snd (qm_do E ev q))"
proof (cases ev)
  case (Completed io c)
  then show ?thesis
    using assms complete_receiving by (auto split: option.splits)
next
  case (StopListening io target)
  then show ?thesis
    using assms stop_states_facts(4) [of target]
    by (auto simp: qm_stopListening_def stop_states_mem receiving_def Let_def updateStopState_def raise_def split: option.splits)
qed (use assms in \<open>auto simp: receiving_def setMaxQueueSize_def clearQueue_def initUDPListener_def removeListener_def dequeueAt_def
    dequeue_def raise_def qm_startListening_def listener_startListening_def listener_open_def receiveNext_def doReceive_def
    split: option.splits if_splits prod.splits sum.splits\<close>)

lemma reach_receiving: "qm_reach E q \<Longrightarrow> receiving q"
proof (induction rule: qm_reach.induct)
  case (qm_created n q)
  then show ?case
    by (auto simp: D2QueueMgr_def setMaxQueueSize_def receiving_def Let_def raise_def split: if_splits)
next
  case (qm_event q ev res q')
  then show ?case
    using qm_do_receiving [OF reach_inv, of E q ev E] by simp
qed

section \<open>Where queued requests come from\<close>

definition queue_in :: "name_change_request option set \<Rightarrow> queue_mgr \<Rightarrow> bool" where
  "queue_in S q \<longleftrightarrow> set (ncr_queue q) \<subseteq> S"

lemma stopListening_queue [simp]: "ncr_queue (snd (qm_stopListening io target q)) = ncr_queue q"
  by (simp add: qm_stopListening_def Let_def updateStopState_def raise_def split: option.splits)

lemma switch_in: "result = LR_SUCCESS \<longrightarrow> r \<in> S \<Longrightarrow> keeps (queue_in S) (qm_switch io result r)"
  by (cases result) (auto simp: keeps_def queue_in_def qm_switch_def enqueue_def updateStopState_def)

lemma call_handler_in: "result = LR_SUCCESS \<longrightarrow> r \<in> S \<Longrightarrow> keeps (queue_in S) (call_handler io result r)"
  unfolding call_handler_def qm_callback_def
  by (intro keeps_catchE keeps_ret keepsI keepsD [OF keeps_catchE [OF switch_in keeps_ret]])
    (simp_all add: queue_in_def set_pending_def)

lemma queue_in_listener [simp]: "queue_in S (q\<lparr>qm_listener := l\<rparr>) = queue_in S q"
  by (simp add: queue_in_def)

lemma invokeRecvHandler_in: "result = LR_SUCCESS \<longrightarrow> r \<in> S \<Longrightarrow> keeps (queue_in S) (invokeRecvHandler io result r)"
  unfolding invokeRecvHandler_def
  by (intro keeps_thenE call_handler_in keepsI)
    (auto split: option.splits prod.splits sum.splits simp: Let_def raise_def intro!: keepsD [OF call_handler_in])

definition decoded :: "'m ncr_env_scheme \<Rightarrow> qm_event \<Rightarrow> name_change_request option set" where
  "decoded E ev =
     (case ev of
        Completed io c \<Rightarrow>
          (case receiveCompletionHandler E c of InvokeRecvHandler LR_SUCCESS r \<Rightarrow> {r} | _ \<Rightarrow> {})
      | _ \<Rightarrow> {})"

lemma qm_do_in: "queue_in (S \<union> decoded E ev) (snd (qm_do E ev q))" if "queue_in S q"
proof (cases ev)
  case (Completed io c)
  have q: "queue_in (S \<union> decoded E ev) q"
    using that by (auto simp: queue_in_def)
  show ?thesis
  proof (cases "receiveCompletionHandler E c")
    case (InvokeRecvHandler result r)
    then have "result = LR_SUCCESS \<longrightarrow> r \<in> S \<union> decoded E ev"
      using Completed by (auto simp: decoded_def)
    then show ?thesis
      using keepsD [OF invokeRecvHandler_in q] InvokeRecvHandler Completed by (simp add: complete_receive_def)
  qed (use q Completed in \<open>auto simp: complete_receive_def queue_in_def raise_def split: option.splits prod.splits\<close>)
next
  case Dequeue
  then show ?thesis
    using that by (cases "ncr_queue q") (auto simp: queue_in_def dequeue_def raise_def)
qed (use that in \<open>auto simp: queue_in_def decoded_def setMaxQueueSize_def clearQueue_def initUDPListener_def removeListener_def dequeueAt_def
    raise_def qm_startListening_def split: option.splits prod.splits sum.splits if_splits dest!: in_set_takeD in_set_dropD\<close>)

end
