(* ===== verification/D2_Cfg.thy ===== *)
theory D2_Cfg
  imports D2_Ncr
begin

text \<open>
  The part of the daemon's configuration that transactions consult: \<^verbatim>\<open>DnsServerInfo\<close>,
  \<^verbatim>\<open>DdnsDomain\<close> and \<^verbatim>\<open>DdnsDomainListMgr\<close> of \<^verbatim>\<open>src/bin/d2/d2_config.cc\<close>, and the matching
  and address reversal of \<^verbatim>\<open>D2CfgMgr\<close> (\<^verbatim>\<open>src/bin/d2/d2_cfg_mgr.cc\<close>).
\<close>

section \<open>Servers and domains\<close>

record dns_server_info =
  srv_hostname :: string
  srv_ip_address :: ip_address
  srv_port :: nat
  srv_enabled :: bool

definition server_toText :: "'m ncr_env_scheme \<Rightarrow> dns_server_info \<Rightarrow> string" where
  "server_toText E srv = addr_to_string E (srv_ip_address srv) @ '' port:'' @ show_nat (srv_port srv)"

text \<open>The list of servers is a shared pointer; \<open>None\<close> is null.\<close>

record ddns_domain =
  dom_name :: string
  dom_key_name :: string
  dom_servers :: "dns_server_info list option"

text \<open>The domain map in the order of its iteration.\<close>

type_synonym ddns_domain_map = "(string \<times> ddns_domain) list"

record domain_list_mgr =
  dlm_name :: string
  dlm_domains :: ddns_domain_map
  dlm_wildcard :: "ddns_domain option"

definition DdnsDomainListMgr :: "string \<Rightarrow> domain_list_mgr" where
  "DdnsDomainListMgr name = \<lparr>dlm_name = name, dlm_domains = [], dlm_wildcard = None\<rparr>"

definition setDomains :: "ddns_domain_map option \<Rightarrow> (domain_list_mgr, d2_exn, unit) exec" where
  "setDomains domains mgr =
     (case domains of
        None \<Rightarrow> raise D2CfgError mgr
      | Some ds \<Rightarrow>
          (let mgr1 = mgr\<lparr>dlm_domains := ds\<rparr>
           in case map_of ds ''*'' of
                Some d \<Rightarrow> (Inr (), mgr1\<lparr>dlm_wildcard := Some d\<rparr>)
              | None \<Rightarrow> (Inr (), mgr1)))"

definition dlm_size :: "domain_list_mgr \<Rightarrow> nat" where
  "dlm_size mgr = length (dlm_domains mgr)"

section \<open>Matching a name to a domain\<close>

text \<open>The loop over the map: \<open>Inl\<close> is the early return of an exact match.\<close>

fun match_loop :: "string \<Rightarrow> ddns_domain_map \<Rightarrow> nat \<Rightarrow> ddns_domain option \<Rightarrow> ddns_domain + ddns_domain option" where
  "match_loop req [] match_len best_match = Inr best_match"
| "match_loop req ((domain_name, d) # rest) match_len best_match =
     (if length req < length domain_name then match_loop req rest match_len best_match
      else if length req = length domain_name then
        (if iequals req domain_name then Inl d else match_loop req rest match_len best_match)
      else if req ! (length req - length domain_name - 1) = CHR ''.'' \<and>
              iequals (drop (length req - length domain_name) req) domain_name then
        (if length domain_name > match_len then match_loop req rest (length domain_name) (Some d)
         else match_loop req rest match_len best_match)
      else match_loop req rest match_len best_match)"

text \<open>\<^verbatim>\<open>matchDomain\<close>; \<open>Some\<close> is the result \<^verbatim>\<open>true\<close> with the domain.\<close>

definition matchDomain :: "string \<Rightarrow> domain_list_mgr \<Rightarrow> ddns_domain option" where
  "matchDomain req mgr =
     (if dlm_size mgr = 1 \<and> dlm_wildcard mgr \<noteq> None then dlm_wildcard mgr
      else
        (case match_loop req (dlm_domains mgr) 0 None of
           Inl d \<Rightarrow> Some d
         | Inr None \<Rightarrow> dlm_wildcard mgr
         | Inr (Some d) \<Rightarrow> Some d))"

section \<open>D2CfgMgr\<close>

record d2_cfg =
  forward_mgr :: domain_list_mgr
  reverse_mgr :: domain_list_mgr

definition forwardUpdatesEnabled :: "d2_cfg \<Rightarrow> bool" where
  "forwardUpdatesEnabled cfg \<longleftrightarrow> dlm_size (forward_mgr cfg) > 0"

definition reverseUpdatesEnabled :: "d2_cfg \<Rightarrow> bool" where
  "reverseUpdatesEnabled cfg \<longleftrightarrow> dlm_size (reverse_mgr cfg) > 0"

definition matchForward :: "string \<Rightarrow> d2_cfg \<Rightarrow> d2_exn + ddns_domain option" where
  "matchForward name cfg = (if name = [] then Inl D2CfgError else Inr (matchDomain name (forward_mgr cfg)))"

definition reverseV4Address :: "ip_address \<Rightarrow> d2_exn + string" where
  "reverseV4Address a =
     (if \<not> isV4 a then Inl D2CfgError
      else Inr (concat (map (\<lambda>b. show_nat (unat b) @ ''.'') (rev (toBytes a))) @ ''in-addr.arpa.''))"

definition reverseV6Address :: "width_transformer \<Rightarrow> ip_address \<Rightarrow> d2_exn + string" where
  "reverseV6Address tw a =
     (if isV4 a then Inl D2CfgError
      else bindS (lib (encodeHex tw (toBytes a))) (\<lambda>digits.
        Inr (concat (map (\<lambda>c. [c] @ ''.'') (rev digits)) @ ''ip6.arpa.'')))"

text \<open>\<^verbatim>\<open>reverseIpAddress\<close> turns every \<^verbatim>\<open>bundy::Exception\<close> into a \<^verbatim>\<open>D2CfgError\<close>.\<close>

definition reverseIpAddress :: "'m ncr_env_scheme \<Rightarrow> string \<Rightarrow> d2_exn + string" where
  "reverseIpAddress E address =
     (case addr_from_string E address of
        None \<Rightarrow> Inl D2CfgError
      | Some a \<Rightarrow>
          (case (if isV4 a then reverseV4Address a else reverseV6Address (transform_width E) a) of
             Inl e \<Rightarrow> if std_exception e then Inl D2CfgError else Inl e
           | Inr t \<Rightarrow> Inr t))"

definition matchReverse :: "'m ncr_env_scheme \<Rightarrow> string \<Rightarrow> d2_cfg \<Rightarrow> d2_exn + ddns_domain option" where
  "matchReverse E address cfg =
     bindS (reverseIpAddress E address) (\<lambda>r. Inr (matchDomain r (reverse_mgr cfg)))"

section \<open>The longest match\<close>

text \<open>A domain name matches as a suffix, up to case, that begins at a label boundary.\<close>

definition domain_matches :: "string \<Rightarrow> string \<Rightarrow> bool" where
  "domain_matches req d \<longleftrightarrow>
     (\<exists>pre sfx. req = pre @ sfx \<and> iequals sfx d \<and> (pre = [] \<or> (d \<noteq> [] \<and> last pre = CHR ''.'')))"

lemma iequals_length: "iequals s t \<Longrightarrow> length s = length t"
  using map_eq_imp_length_eq by (auto simp: iequals_def)

lemma domain_matches_exact: "length req = length d \<Longrightarrow> domain_matches req d \<longleftrightarrow> iequals req d"
  using iequals_length by (fastforce simp: domain_matches_def)

lemma domain_matches_short: "length req < length d \<Longrightarrow> \<not> domain_matches req d"
  using iequals_length by (fastforce simp: domain_matches_def)

lemma domain_matches_inner:
  assumes "length d < length req"
  shows "domain_matches req d \<longleftrightarrow> d \<noteq> [] \<and> req ! (length req - length d - 1) = CHR ''.'' \<and>
    iequals (drop (length req - length d) req) d"
    (is "_ \<longleftrightarrow> ?r")
proof
  assume "domain_matches req d"
  then obtain pre sfx where p: "req = pre @ sfx" "iequals sfx d" "pre = [] \<or> (d \<noteq> [] \<and> last pre = CHR ''.'')"
    by (auto simp: domain_matches_def)
  then have "pre \<noteq> []" "length req - length d = length pre"
    using assms iequals_length [OF p(2)] by auto
  then show ?r
    using p by (auto simp: nth_append last_conv_nth)
next
  assume r: ?r
  let ?k = "length req - length d"
  have "last (take ?k req) = req ! (?k - 1)"
    using assms by (subst last_conv_nth) auto
  then show "domain_matches req d"
    unfolding domain_matches_def using r
    by (intro exI [of _ "take ?k req"] exI [of _ "drop ?k req"]) auto
qed

text \<open>The candidate the loop holds is the longest match so far.\<close>

definition best_so_far :: "string \<Rightarrow> ddns_domain_map \<Rightarrow> nat \<Rightarrow> ddns_domain option \<Rightarrow> bool" where
  "best_so_far req seen len best \<longleftrightarrow>
     (\<forall>(k, d) \<in> set seen. domain_matches req k \<longrightarrow> length k \<le> len \<and> best \<noteq> None) \<and>
     (case best of None \<Rightarrow> len = 0 | Some d \<Rightarrow> \<exists>k. (k, d) \<in> set seen \<and> domain_matches req k \<and> length k = len)"

definition is_best_match :: "string \<Rightarrow> ddns_domain_map \<Rightarrow> ddns_domain \<Rightarrow> bool" where
  "is_best_match req ds d \<longleftrightarrow>
     (\<exists>k. (k, d) \<in> set ds \<and> domain_matches req k \<and> (\<forall>(k', d') \<in> set ds. domain_matches req k' \<longrightarrow> length k' \<le> length k))"

definition match_outcome :: "string \<Rightarrow> ddns_domain_map \<Rightarrow> ddns_domain + ddns_domain option \<Rightarrow> bool" where
  "match_outcome req ds r \<longleftrightarrow>
     (case r of Inl d \<Rightarrow> is_best_match req ds d | Inr best \<Rightarrow> \<exists>len. best_so_far req ds len best)"

lemma match_loop_best:
  "best_so_far req seen len best \<Longrightarrow> match_outcome req (seen @ ds) (match_loop req ds len best)"
proof (induction ds arbitrary: seen len best)
  case (Cons kd ds)
  obtain k d where kd: "kd = (k, d)" by fastforce
  have skip: "\<not> domain_matches req k \<or> (length k \<le> len \<and> best \<noteq> None) \<Longrightarrow> best_so_far req (seen @ [kd]) len best"
    using Cons.prems kd by (auto simp: best_so_far_def split: option.splits)
  have take_it: "domain_matches req k \<Longrightarrow> len < length k \<Longrightarrow> best_so_far req (seen @ [kd]) (length k) (Some d)"
    using Cons.prems kd by (auto simp: best_so_far_def split: option.splits)
  have exact: "is_best_match req (seen @ kd # ds) d" if "domain_matches req k" "length req = length k"
    unfolding is_best_match_def
  proof (rule exI [of _ k], intro conjI)
    show "\<forall>(k', d') \<in> set (seen @ kd # ds). domain_matches req k' \<longrightarrow> length k' \<le> length k"
    proof clarify
      fix k'
      assume "domain_matches req k'"
      then have "\<not> length req < length k'"
        using domain_matches_short [of req k'] by blast
      then show "length k' \<le> length k"
        using that(2) by simp
    qed
  qed (use that kd in auto)
  have zero: "length k \<le> len \<Longrightarrow> domain_matches req k \<Longrightarrow> length k < length req \<Longrightarrow> best \<noteq> None"
    using Cons.prems domain_matches_inner [of k req] by (auto simp: best_so_far_def split: option.splits)
  consider "length req < length k" | "length req = length k" | "length k < length req"
    by linarith
  then show ?case
  proof cases
    case 1
    then show ?thesis
      using Cons.IH [OF skip] domain_matches_short [OF 1] kd by simp
  next
    case 2
    then show ?thesis
      using Cons.IH [OF skip] domain_matches_exact [OF 2] exact kd by (auto simp: match_outcome_def)
  next
    case 3
    show ?thesis
    proof (cases "req ! (length req - length k - 1) = CHR ''.'' \<and> iequals (drop (length req - length k) req) k")
      case True
      show ?thesis
      proof (cases "len < length k")
        case longer: True
        then have "domain_matches req k"
          using True domain_matches_inner [OF 3] by auto
        then show ?thesis
          using Cons.IH [OF take_it] longer True 3 kd by simp
      next
        case False
        then have "\<not> domain_matches req k \<or> (length k \<le> len \<and> best \<noteq> None)"
          using zero 3 by auto
        then show ?thesis
          using Cons.IH [OF skip] False True 3 kd by simp
      qed
    next
      case False
      then have "\<not> domain_matches req k"
        using domain_matches_inner [OF 3] by auto
      then show ?thesis
        using Cons.IH [OF skip] False 3 kd by auto
    qed
  qed
qed (auto simp: match_outcome_def)

lemma best_so_far_result:
  "best_so_far req ds len (Some d) \<Longrightarrow> is_best_match req ds d"
  "best_so_far req ds len None \<Longrightarrow> \<not> (\<exists>(k, d) \<in> set ds. domain_matches req k)"
  by (fastforce simp: best_so_far_def is_best_match_def)+

lemma is_best_match_matches: "is_best_match req ds d \<Longrightarrow> \<exists>(k, d) \<in> set ds. domain_matches req k"
  by (fastforce simp: is_best_match_def)

lemma matchDomain_longest:
  assumes "\<not> (dlm_size mgr = 1 \<and> dlm_wildcard mgr \<noteq> None)"
  shows "if \<exists>(k, d) \<in> set (dlm_domains mgr). domain_matches req k
    then \<exists>d. matchDomain req mgr = Some d \<and> is_best_match req (dlm_domains mgr) d
    else matchDomain req mgr = dlm_wildcard mgr"
proof -
  have "best_so_far req [] 0 None"
    by (simp add: best_so_far_def)
  note loop = match_loop_best [OF this, of "dlm_domains mgr", simplified match_outcome_def, simplified]
  show ?thesis
  proof (cases "match_loop req (dlm_domains mgr) 0 None")
    case (Inl d)
    then show ?thesis
      using loop assms is_best_match_matches by (auto simp: matchDomain_def)
  next
    case (Inr r)
    then obtain len where "best_so_far req (dlm_domains mgr) len r"
      using loop by auto
    then show ?thesis
      using Inr assms best_so_far_result(2) [of req "dlm_domains mgr" len]
        best_so_far_result(1) [of req "dlm_domains mgr" len, THEN is_best_match_matches]
        best_so_far_result(1) [of req "dlm_domains mgr" len]
      by (cases r) (simp_all add: matchDomain_def)
  qed
qed

section \<open>The reverse name of an address\<close>

text \<open>Texts of labels in which \<^verbatim>\<open>toText\<close> escapes nothing.\<close>

definition plain_char :: "char \<Rightarrow> bool" where
  "plain_char c \<longleftrightarrow> escape_char (byte_of_char c) = [byte_of_char c]"

lemma plain_label_text: "\<forall>c \<in> set s. plain_char c \<Longrightarrow> label_text (map byte_of_char s) = map byte_of_char s"
  by (induction s) (auto simp: label_text_def plain_char_def)

lemma byte_of_dot: "byte_of_char (CHR ''.'') = 0x2e"
  by (simp add: byte_of_char_def)

lemma dotted_plain:
  "\<forall>s \<in> set K. \<forall>c \<in> set s. plain_char c \<Longrightarrow> K \<noteq> [] \<Longrightarrow>
   map byte_of_char (concat (map (\<lambda>s. s @ ''.'') K)) = text_spec False (map (map byte_of_char) K)"
proof (induction K rule: induct_list012)
  case (3 s t K)
  then show ?case
    by (simp add: text_spec_def dotted_tail_def plain_label_text byte_of_dot)
qed (simp_all add: text_spec_def dotted_tail_def plain_label_text byte_of_dot)

lemma Name_text_plain:
  assumes "\<forall>s \<in> set K. \<forall>c \<in> set s. plain_char c" "K \<noteq> []" "abs_labels (map (map byte_of_char) K @ [[]])"
  shows "Name_text (concat (map (\<lambda>s. s @ ''.'') K)) False = Inr (mk_name (map (map byte_of_char) K @ [[]]))"
  using Name_bytes_text_spec [OF assms(3), of False False]
  by (simp add: Name_text_def dotted_plain [OF assms(1,2)] downcase_char_def cong: map_cong)

lemma plain_char_code:
  assumes "32 < (of_char c :: nat)" "(of_char c :: nat) < 127" "(of_char c :: nat) \<notin> {34, 36, 40, 41, 46, 59, 64, 92}"
  shows "plain_char c"
proof -
  define b where "b = byte_of_char c"
  have u: "unat b = of_char c"
    by (simp add: b_def byte_of_char_def unat_of_nat_byte)
  have "b \<notin> {0x22, 0x28, 0x29, 0x2e, 0x3b, 0x5c, 0x40, 0x24}"
    using assms(3) u by auto
  moreover have "0x20 < b" "b < 0x7f"
    using assms(1,2) u by (simp_all add: word_less_nat_alt)
  ultimately show ?thesis
    by (simp add: plain_char_def escape_char_def b_def)
qed

lemma plain_digit: "n < (10 :: nat) \<Longrightarrow> plain_char (char_of (48 + n))"
  by (rule plain_char_code) auto

lemma show_nat_plain: "\<forall>c \<in> set (show_nat n). plain_char c"
proof (induction n rule: show_nat.induct)
  case (1 n)
  then show ?case
    by (subst show_nat.simps) (auto simp: plain_digit)
qed

lemma show_nat_octet: "0 < length (show_nat (unat (b :: byte)))" "length (show_nat (unat b)) \<le> 3"
proof -
  have "n < 10 ^ Suc k \<Longrightarrow> length (show_nat n) \<le> Suc k" for n k
  proof (induction k arbitrary: n)
    case 0
    then show ?case by (subst show_nat.simps) simp
  next
    case (Suc k)
    then have "n div 10 < 10 ^ Suc k"
      by (simp add: less_mult_imp_div_less mult.commute)
    with Suc.IH show ?case
      by (subst show_nat.simps) auto
  qed
  from this [of "unat b" 2] show "length (show_nat (unat b)) \<le> 3"
    using unat_byte_less [of b] by simp
qed simp

lemma reverseV4_name:
  assumes "length bs = 4"
  shows "\<exists>t. reverseV4Address (IPv4 bs) = Inr t \<and>
    Name_text t False = Inr (mk_name (map (map byte_of_char) (map (\<lambda>b. show_nat (unat b)) (rev bs) @ [''in-addr'', ''arpa'']) @ [[]]))"
proof -
  obtain a b c d where bs: "bs = [a, b, c, d]"
    using assms by (auto simp: numeral_eq_Suc length_Suc_conv)
  let ?K = "map (\<lambda>b. show_nat (unat b)) (rev bs) @ [''in-addr'', ''arpa'']"
  have "\<forall>c \<in> set ''in-addr'' \<union> set ''arpa''. plain_char c"
    by (auto intro!: plain_char_code)
  then have "\<forall>s \<in> set ?K. \<forall>c \<in> set s. plain_char c"
    using show_nat_plain by (auto simp: bs)
  moreover have "abs_labels (map (map byte_of_char) ?K @ [[]])"
    unfolding abs_labels_snoc using show_nat_octet [of a] show_nat_octet [of b] show_nat_octet [of c] show_nat_octet [of d]
    by (auto simp: bs valid_label_def name_limits Suc_le_eq)
  ultimately show ?thesis
    using Name_text_plain [of ?K] by (simp add: reverseV4Address_def bs)
qed

lemma hex_digit_plain:
  assumes "n < 16"
  shows "plain_char (hex_digit n)"
proof -
  have "\<forall>c \<in> set ''0123456789ABCDEF''. plain_char c"
    by (auto intro!: plain_char_code)
  then show ?thesis
    unfolding hex_digit_def base16_chars_def using assms nth_mem [of n "''0123456789ABCDEF''"] by (elim bspec) simp
qed

lemma hex_text_plain: "\<forall>c \<in> set (hex_text bs). plain_char c"
proof -
  have "unat b div 16 < 16" "unat b mod 16 < 16" for b :: byte
    using unat_byte_less [of b] by linarith+
  then show ?thesis
    by (auto simp: hex_text_def hex_digit_plain)
qed

lemma length_hex_text: "length (hex_text bs) = 2 * length bs"
  by (induction bs) (auto simp: hex_text_def)

lemma length_wire_singletons: "length (wire (map (\<lambda>c. [f c]) xs)) = 2 * length xs"
  by (induction xs) auto

lemma reverseV6_name:
  assumes "length bs = 16" "regroups tw"
  shows "\<exists>t. reverseV6Address tw (IPv6 bs) = Inr t \<and>
    Name_text t False = Inr (mk_name (map (map byte_of_char) (map (\<lambda>c. [c]) (rev (hex_text bs)) @ [''ip6'', ''arpa'']) @ [[]]))"
proof -
  let ?K = "map (\<lambda>c. [c]) (rev (hex_text bs)) @ [''ip6'', ''arpa'']"
  have "\<forall>c \<in> set ''ip6'' \<union> set ''arpa''. plain_char c"
    by (auto intro!: plain_char_code)
  then have "\<forall>s \<in> set ?K. \<forall>c \<in> set s. plain_char c"
    using hex_text_plain [of bs] by auto
  moreover have "abs_labels (map (map byte_of_char) ?K @ [[]])"
    unfolding abs_labels_snoc using assms(1)
    by (auto simp: valid_label_def name_limits comp_def length_wire_singletons length_hex_text)
  ultimately show ?thesis
    using Name_text_plain [of ?K] by (simp add: reverseV6Address_def encodeHex_text [OF assms(2)] comp_def)
qed

end
