(* ===== verification/D2_UpdateMessage.thy ===== *)
theory D2_UpdateMessage
  imports D2_StateModel Dns_NameText
begin

text \<open>
  DNS update messages: the part of \<^verbatim>\<open>dns::Message\<close> (\<^verbatim>\<open>src/lib/dns/message.cc\<close>) that the
  daemon uses to build a message, and \<^verbatim>\<open>D2UpdateMessage\<close> (\<^verbatim>\<open>src/bin/d2/d2_update_message.cc\<close>).
  Rendering and parsing of a whole message are parameters.
\<close>

section \<open>Resource records\<close>

type_synonym rrclass = "16 word"
type_synonym rrtype = "16 word"

definition CLASS_IN :: rrclass where "CLASS_IN = 1"
definition CLASS_NONE :: rrclass where "CLASS_NONE = 254"
definition CLASS_ANY :: rrclass where "CLASS_ANY = 255"
definition TYPE_A :: rrtype where "TYPE_A = 1"
definition TYPE_SOA :: rrtype where "TYPE_SOA = 6"
definition TYPE_PTR :: rrtype where "TYPE_PTR = 12"
definition TYPE_AAAA :: rrtype where "TYPE_AAAA = 28"
definition TYPE_DHCID :: rrtype where "TYPE_DHCID = 49"
definition TYPE_ANY :: rrtype where "TYPE_ANY = 255"

datatype rdata =
    Rdata_A "byte list"
  | Rdata_AAAA "byte list"
  | Rdata_DHCID "byte list"
  | Rdata_PTR name

record rrset =
  rr_name :: name
  rr_class :: rrclass
  rr_type :: rrtype
  rr_ttl :: "32 word"
  rr_rdata :: "rdata list"

definition RRset :: "name \<Rightarrow> rrclass \<Rightarrow> rrtype \<Rightarrow> 32 word \<Rightarrow> rrset" where
  "RRset n c t ttl = \<lparr>rr_name = n, rr_class = c, rr_type = t, rr_ttl = ttl, rr_rdata = []\<rparr>"

definition addRdata :: "rdata \<Rightarrow> rrset \<Rightarrow> rrset" where
  "addRdata d rr = rr\<lparr>rr_rdata := rr_rdata rr @ [d]\<rparr>"

section \<open>Message\<close>

datatype msg_mode = PARSE | RENDER
datatype msg_section = SECTION_QUESTION | SECTION_ANSWER | SECTION_AUTHORITY | SECTION_ADDITIONAL

record question =
  q_name :: name
  q_class :: rrclass
  q_type :: rrtype

record message =
  m_mode :: msg_mode
  m_qid :: "16 word"
  m_flags :: "16 word"
  m_rcode :: "nat option"
  m_opcode :: "nat option"
  m_counts :: "msg_section \<Rightarrow> nat"
  m_questions :: "question list"
  m_rrsets :: "msg_section \<Rightarrow> rrset list"

definition HEADERFLAG_QR :: "16 word" where "HEADERFLAG_QR = 0x8000"
definition HEADERFLAG_MASK :: "16 word" where "HEADERFLAG_MASK = 0x87b0"

definition Message :: "msg_mode \<Rightarrow> message" where
  "Message mode = \<lparr>m_mode = mode, m_qid = 0, m_flags = 0, m_rcode = None, m_opcode = None,
     m_counts = (\<lambda>_. 0), m_questions = [], m_rrsets = (\<lambda>_. [])\<rparr>"

unbundle bit_operations_syntax

definition getHeaderFlag :: "16 word \<Rightarrow> message \<Rightarrow> d2_exn + bool" where
  "getHeaderFlag flag m =
     (if flag = 0 \<or> flag AND NOT HEADERFLAG_MASK \<noteq> 0 then Inl (LibError InvalidParameter)
      else Inr (m_flags m AND flag \<noteq> 0))"

definition setHeaderFlag :: "16 word \<Rightarrow> bool \<Rightarrow> message \<Rightarrow> d2_exn + message" where
  "setHeaderFlag flag on m =
     (if m_mode m \<noteq> RENDER then Inl InvalidMessageOperation
      else if flag = 0 \<or> flag AND NOT HEADERFLAG_MASK \<noteq> 0 then Inl (LibError InvalidParameter)
      else Inr (m\<lparr>m_flags := (if on then m_flags m OR flag else m_flags m AND NOT flag)\<rparr>))"

definition setQid :: "16 word \<Rightarrow> message \<Rightarrow> d2_exn + message" where
  "setQid qid m = (if m_mode m \<noteq> RENDER then Inl InvalidMessageOperation else Inr (m\<lparr>m_qid := qid\<rparr>))"

definition msg_getRcode :: "message \<Rightarrow> d2_exn + nat" where
  "msg_getRcode m = (case m_rcode m of None \<Rightarrow> Inl InvalidMessageOperation | Some c \<Rightarrow> Inr c)"

definition msg_setRcode :: "nat \<Rightarrow> message \<Rightarrow> d2_exn + message" where
  "msg_setRcode c m = (if m_mode m \<noteq> RENDER then Inl InvalidMessageOperation else Inr (m\<lparr>m_rcode := Some c\<rparr>))"

definition getOpcode :: "message \<Rightarrow> d2_exn + nat" where
  "getOpcode m = (case m_opcode m of None \<Rightarrow> Inl InvalidMessageOperation | Some c \<Rightarrow> Inr c)"

definition setOpcode :: "nat \<Rightarrow> message \<Rightarrow> d2_exn + message" where
  "setOpcode c m = (if m_mode m \<noteq> RENDER then Inl InvalidMessageOperation else Inr (m\<lparr>m_opcode := Some c\<rparr>))"

definition msg_getRRCount :: "msg_section \<Rightarrow> message \<Rightarrow> nat" where
  "msg_getRRCount sec m = m_counts m sec"

definition msg_addRRset :: "msg_section \<Rightarrow> rrset option \<Rightarrow> message \<Rightarrow> d2_exn + message" where
  "msg_addRRset sec rrset m =
     (case rrset of
        None \<Rightarrow> Inl (LibError InvalidParameter)
      | Some rr \<Rightarrow>
          if m_mode m \<noteq> RENDER then Inl InvalidMessageOperation
          else Inr (m\<lparr>m_rrsets := (m_rrsets m)(sec := m_rrsets m sec @ [rr]),
                      m_counts := (m_counts m)(sec := m_counts m sec + length (rr_rdata rr))\<rparr>))"

definition clearSection :: "msg_section \<Rightarrow> message \<Rightarrow> d2_exn + message" where
  "clearSection sec m =
     (if m_mode m \<noteq> RENDER then Inl InvalidMessageOperation
      else
        (let m1 = (if sec = SECTION_QUESTION then m\<lparr>m_questions := []\<rparr> else m\<lparr>m_rrsets := (m_rrsets m)(sec := [])\<rparr>)
         in Inr (m1\<lparr>m_counts := (m_counts m1)(sec := 0)\<rparr>)))"

definition addQuestion :: "question \<Rightarrow> message \<Rightarrow> d2_exn + message" where
  "addQuestion q m =
     (if m_mode m \<noteq> RENDER then Inl InvalidMessageOperation
      else Inr (m\<lparr>m_questions := m_questions m @ [q],
                  m_counts := (m_counts m)(SECTION_QUESTION := m_counts m SECTION_QUESTION + 1)\<rparr>))"

section \<open>D2UpdateMessage\<close>

definition OPCODE_UPDATE :: nat where "OPCODE_UPDATE = 5"
definition RCODE_NOERROR :: nat where "RCODE_NOERROR = 0"
definition RCODE_NXDOMAIN :: nat where "RCODE_NXDOMAIN = 3"
definition RCODE_YXDOMAIN :: nat where "RCODE_YXDOMAIN = 6"
definition RCODE_NXRRSET :: nat where "RCODE_NXRRSET = 8"

lemmas rcodes = RCODE_NOERROR_def RCODE_NXDOMAIN_def RCODE_YXDOMAIN_def RCODE_NXRRSET_def

datatype um_direction = INBOUND | OUTBOUND
datatype qr_flag = REQUEST | RESPONSE
datatype update_section = SECTION_ZONE | SECTION_PREREQUISITE | SECTION_UPDATE | UPDATE_SECTION_ADDITIONAL

record update_message =
  um_message :: message
  um_zone :: "(name \<times> rrclass) option"

fun ddnsToDnsSection :: "update_section \<Rightarrow> msg_section" where
  "ddnsToDnsSection SECTION_ZONE = SECTION_QUESTION"
| "ddnsToDnsSection SECTION_PREREQUISITE = SECTION_ANSWER"
| "ddnsToDnsSection SECTION_UPDATE = SECTION_AUTHORITY"
| "ddnsToDnsSection UPDATE_SECTION_ADDITIONAL = SECTION_ADDITIONAL"

definition D2UpdateMessage :: "um_direction \<Rightarrow> d2_exn + update_message" where
  "D2UpdateMessage dir =
     (let m = Message (if dir = INBOUND then PARSE else RENDER) in
      if dir = OUTBOUND then
        bindS (setOpcode OPCODE_UPDATE m) (\<lambda>m1.
        bindS (setHeaderFlag HEADERFLAG_QR False m1) (\<lambda>m2.
        bindS (msg_setRcode RCODE_NOERROR m2) (\<lambda>m3. Inr \<lparr>um_message = m3, um_zone = None\<rparr>)))
      else Inr \<lparr>um_message = m, um_zone = None\<rparr>)"

definition getQRFlag :: "update_message \<Rightarrow> d2_exn + qr_flag" where
  "getQRFlag um = bindS (getHeaderFlag HEADERFLAG_QR (um_message um)) (\<lambda>b. Inr (if b then RESPONSE else REQUEST))"

definition um_getRcode :: "update_message \<Rightarrow> d2_exn + nat" where
  "um_getRcode um = msg_getRcode (um_message um)"

definition um_getRRCount :: "update_section \<Rightarrow> update_message \<Rightarrow> nat" where
  "um_getRRCount sec um = msg_getRRCount (ddnsToDnsSection sec) (um_message um)"

definition um_section :: "update_section \<Rightarrow> update_message \<Rightarrow> rrset list" where
  "um_section sec um = m_rrsets (um_message um) (ddnsToDnsSection sec)"

definition setZone :: "name \<Rightarrow> rrclass \<Rightarrow> update_message \<Rightarrow> d2_exn + update_message" where
  "setZone zone cls um =
     bindS (if msg_getRRCount SECTION_QUESTION (um_message um) > 0
            then clearSection SECTION_QUESTION (um_message um) else Inr (um_message um)) (\<lambda>m1.
     bindS (addQuestion \<lparr>q_name = zone, q_class = cls, q_type = TYPE_SOA\<rparr> m1) (\<lambda>m2.
       Inr (um\<lparr>um_message := m2, um_zone := Some (zone, cls)\<rparr>)))"

definition um_addRRset :: "update_section \<Rightarrow> rrset \<Rightarrow> update_message \<Rightarrow> d2_exn + update_message" where
  "um_addRRset sec rr um =
     (if sec = SECTION_ZONE then Inl (LibError BadValue)
      else bindS (msg_addRRset (ddnsToDnsSection sec) (Some rr) (um_message um)) (\<lambda>m. Inr (um\<lparr>um_message := m\<rparr>)))"

text \<open>
  \<open>render\<close> is \<^verbatim>\<open>Message::toWire\<close> on a fresh renderer: the octets, and the message with the
  counters and flags that rendering sets.
\<close>

definition um_toWire :: "(message \<Rightarrow> d2_exn + byte list \<times> message) \<Rightarrow> update_message \<Rightarrow> d2_exn + byte list \<times> update_message" where
  "um_toWire render um =
     bindS (getQRFlag um) (\<lambda>qr.
       if qr \<noteq> REQUEST then Inl InvalidQRFlag
       else if um_getRRCount SECTION_ZONE um \<noteq> 1 then Inl InvalidZoneSection
       else bindS (render (um_message um)) (\<lambda>(bs, m). Inr (bs, um\<lparr>um_message := m\<rparr>)))"

definition validateResponse :: "update_message \<Rightarrow> d2_exn + unit" where
  "validateResponse um =
     bindS (getOpcode (um_message um)) (\<lambda>oc.
       if oc \<noteq> OPCODE_UPDATE then Inl NotUpdateMessage
       else bindS (getQRFlag um) (\<lambda>qr.
         if qr = REQUEST then Inl InvalidQRFlag
         else if um_getRRCount SECTION_ZONE um > 1 then Inl InvalidZoneSection
         else Inr ()))"

text \<open>\<open>parse\<close> is \<^verbatim>\<open>Message::fromWire\<close>: the message it leaves in a parse mode object.\<close>

definition um_fromWire :: "(byte list \<Rightarrow> d2_exn + message) \<Rightarrow> byte list \<Rightarrow> update_message \<Rightarrow> d2_exn + update_message" where
  "um_fromWire parse buffer um =
     bindS (parse buffer) (\<lambda>m.
       let um1 = um\<lparr>um_message := m\<rparr> in
       bindS (if um_getRRCount SECTION_ZONE um1 > 0
              then (case m_questions m of
                      [] \<Rightarrow> Inl (LibError AssertionFailure)
                    | q # _ \<Rightarrow> Inr (um1\<lparr>um_zone := Some (q_name q, q_class q)\<rparr>))
              else Inr (um1\<lparr>um_zone := None\<rparr>)) (\<lambda>um2.
       bindS (validateResponse um2) (\<lambda>_. Inr um2)))"

section \<open>Building a request\<close>

text \<open>What a builder relies on: the message is outbound and holds exactly one zone record.\<close>

definition outbound :: "name \<Rightarrow> update_message \<Rightarrow> bool" where
  "outbound zone um \<longleftrightarrow>
     m_mode (um_message um) = RENDER \<and> m_opcode (um_message um) = Some OPCODE_UPDATE \<and> m_flags (um_message um) = 0 \<and>
     m_questions (um_message um) = [\<lparr>q_name = zone, q_class = CLASS_IN, q_type = TYPE_SOA\<rparr>] \<and>
     m_counts (um_message um) SECTION_QUESTION = 1 \<and> um_zone um = Some (zone, CLASS_IN)"

lemma setZone_outbound:
  "\<exists>um. bindS (D2UpdateMessage OUTBOUND) (setZone zone CLASS_IN) = Inr um \<and> outbound zone um \<and> (\<forall>sec. um_section sec um = [])"
proof -
  have "HEADERFLAG_QR \<noteq> 0" "HEADERFLAG_QR AND NOT HEADERFLAG_MASK = 0"
    by (simp_all add: HEADERFLAG_QR_def HEADERFLAG_MASK_def)
  then show ?thesis
    by (simp add: D2UpdateMessage_def Message_def setOpcode_def setHeaderFlag_def msg_setRcode_def setZone_def
        msg_getRRCount_def addQuestion_def outbound_def um_section_def)
qed

lemma um_addRRset_outbound:
  assumes "outbound zone um" "sec \<noteq> SECTION_ZONE"
  shows "\<exists>um'. um_addRRset sec rr um = Inr um' \<and> outbound zone um' \<and>
    um_section sec um' = um_section sec um @ [rr] \<and> (\<forall>sec'. sec' \<noteq> sec \<longrightarrow> um_section sec' um' = um_section sec' um)"
proof -
  have inj: "ddnsToDnsSection a = ddnsToDnsSection b \<longleftrightarrow> a = b" for a b
    by (cases a; cases b) auto
  have "ddnsToDnsSection sec \<noteq> SECTION_QUESTION"
    using assms(2) by (cases sec) auto
  then show ?thesis
    using assms by (auto simp: um_addRRset_def msg_addRRset_def outbound_def um_section_def inj)
qed

lemma um_toWire_outbound:
  assumes "outbound zone um"
  shows "um_toWire render um = bindS (render (um_message um)) (\<lambda>(bs, m). Inr (bs, um\<lparr>um_message := m\<rparr>))"
  using assms
  by (simp add: um_toWire_def getQRFlag_def getHeaderFlag_def outbound_def um_getRRCount_def msg_getRRCount_def
      HEADERFLAG_QR_def HEADERFLAG_MASK_def)

text \<open>An accepted response is an update response, with a return code.\<close>

lemma um_fromWire_response:
  assumes "um_fromWire parse buffer um = Inr um'"
  shows "\<exists>m. parse buffer = Inr m \<and> um_message um' = m \<and> m_opcode m = Some OPCODE_UPDATE \<and> getHeaderFlag HEADERFLAG_QR m = Inr True \<and>
    m_counts m SECTION_QUESTION \<le> 1"
  using assms
  by (auto simp: um_fromWire_def bindS_eq_Inr Let_def validateResponse_def getOpcode_def getQRFlag_def um_getRRCount_def
      msg_getRRCount_def split: if_splits option.splits list.splits)

end
