(* ===== verification/D2_Trans.thy ===== *)
theory D2_Trans
  imports D2_Cfg D2_UpdateMessage
begin

text \<open>
  \<^verbatim>\<open>NameChangeTransaction\<close> (\<^verbatim>\<open>src/bin/d2/nc_trans.cc\<close>), the base of the transactions that carry
  out a name change request, with the \<^verbatim>\<open>DNSClient\<close> it sends through
  (\<^verbatim>\<open>src/bin/d2/dns_client.cc\<close>) and the RDATA constructors it calls.

  Logging is taken to be enabled at every level, so the arguments of every log call are
  evaluated; the texts themselves are left out.  The text of a DHCID exists for every value
  (theory \<open>Util_Encode\<close>), so log calls that print no more than that are left out.
\<close>

section \<open>The environment of a transaction\<close>

record trans_env = ncr_env +
  inet_pton4 :: "string \<Rightarrow> byte list option"
  inet_pton6 :: "string \<Rightarrow> byte list option"
  single_token :: "string \<Rightarrow> string option"
  rcode_toText :: "nat \<Rightarrow> string"
  render_msg :: "message \<Rightarrow> d2_exn + byte list \<times> message"
  parse_msg :: "byte list \<Rightarrow> d2_exn + message"

text \<open>
  What the transactions rely on: the libraries throw exceptions and do not terminate the
  process, a parsed message has its return code, its opcode and as many questions as it
  counts, an address has 4 or 16 octets, and the bit iterator under the codecs regroups bits.
\<close>

definition env_ok :: "'m trans_env_scheme \<Rightarrow> bool" where
  "env_ok E \<longleftrightarrow> (\<forall>m e. render_msg E m = Inl e \<longrightarrow> std_exception e) \<and> (\<forall>bs e. parse_msg E bs = Inl e \<longrightarrow> std_exception e) \<and>
     (\<forall>bs m. parse_msg E bs = Inr m \<longrightarrow> m_rcode m \<noteq> None \<and> m_opcode m \<noteq> None \<and> (m_counts m SECTION_QUESTION > 0 \<longrightarrow> m_questions m \<noteq> [])) \<and>
     regroups (transform_width E) \<and>
     (\<forall>t bs. addr_from_string E t = Some (IPv4 bs) \<longrightarrow> length bs = 4) \<and>
     (\<forall>t bs. addr_from_string E t = Some (IPv6 bs) \<longrightarrow> length bs = 16)"

section \<open>RDATA from text\<close>

definition Rdata_A_text :: "'m trans_env_scheme \<Rightarrow> string \<Rightarrow> d2_exn + rdata" where
  "Rdata_A_text E s =
     (if CHR 0x00 \<in> set s then Inl InvalidRdataText
      else case inet_pton4 E s of None \<Rightarrow> Inl InvalidRdataText | Some bs \<Rightarrow> Inr (Rdata_A bs))"

definition Rdata_AAAA_text :: "'m trans_env_scheme \<Rightarrow> string \<Rightarrow> d2_exn + rdata" where
  "Rdata_AAAA_text E s =
     (if CHR 0x00 \<in> set s then Inl InvalidRdataText
      else case inet_pton6 E s of None \<Rightarrow> Inl InvalidRdataText | Some bs \<Rightarrow> Inr (Rdata_AAAA bs))"

text \<open>\<^verbatim>\<open>PTR(const string&)\<close>: the only token of the text, as an absolute name.\<close>

definition Rdata_PTR_text :: "'m trans_env_scheme \<Rightarrow> string \<Rightarrow> d2_exn + rdata" where
  "Rdata_PTR_text E s =
     (case single_token E s of
        None \<Rightarrow> Inl InvalidRdataText
      | Some tok \<Rightarrow> bindS (lib (Name_origin (Some (map byte_of_char tok)) None False)) (\<lambda>n. Inr (Rdata_PTR n)))"

definition Rdata_DHCID_buffer :: "byte list \<Rightarrow> d2_exn + rdata" where
  "Rdata_DHCID_buffer bs = (if length bs = 0 then Inl InvalidRdataLength else Inr (Rdata_DHCID bs))"

section \<open>DNSClient\<close>

datatype dns_status = SUCCESS | TIMEOUT | IO_STOPPED | INVALID_RESPONSE | OTHER
datatype protocol = UDP | TCP
datatype iofetch_result = FETCH_SUCCESS | FETCH_TIME_OUT | FETCH_STOPPED | FETCH_NOTSET

record dns_client =
  cl_proto :: protocol

text \<open>The constructor; its arguments are the pointer to hold the response, and the protocol.\<close>

definition DNSClient :: "update_message option \<Rightarrow> protocol \<Rightarrow> d2_exn + dns_client" where
  "DNSClient response proto =
     (if response \<noteq> None then Inl (LibError BadValue)
      else if proto = TCP then Inl NotImplemented
      else Inr \<lparr>cl_proto = proto\<rparr>)"

definition getStatus :: "iofetch_result \<Rightarrow> dns_status" where
  "getStatus r =
     (case r of FETCH_SUCCESS \<Rightarrow> SUCCESS | FETCH_TIME_OUT \<Rightarrow> TIMEOUT | FETCH_STOPPED \<Rightarrow> IO_STOPPED | _ \<Rightarrow> OTHER)"

text \<open>What is posted to the I/O service: address, port, octets and timeout.\<close>

type_synonym io_task = "ip_address \<times> nat \<times> byte list \<times> nat"

definition getMaxTimeout :: nat where
  "getMaxTimeout = 2 ^ 31 - 1"

definition doUpdate :: "'m trans_env_scheme \<Rightarrow> ip_address \<Rightarrow> nat \<Rightarrow> update_message \<Rightarrow> nat \<Rightarrow> d2_exn + io_task \<times> update_message" where
  "doUpdate E ns_addr ns_port update wait =
     (if wait > getMaxTimeout then Inl (LibError BadValue)
      else bindS (um_toWire (render_msg E) update) (\<lambda>(bs, um). Inr ((ns_addr, ns_port, bs, wait), um)))"

section \<open>Data members\<close>

record 'h nc_trans = "'h state_model" +
  ncr :: name_change_request
  forward_domain :: "ddns_domain option"
  reverse_domain :: "ddns_domain option"
  dns_client :: "dns_client option"
  dns_update_request :: "update_message option"
  dns_update_status :: dns_status
  dns_update_response :: "update_message option"
  forward_change_completed :: bool
  reverse_change_completed :: bool
  current_server_list :: "dns_server_info list option"
  current_server :: "dns_server_info option"
  next_server_pos :: nat
  update_attempts :: nat
  posted :: "io_task list"

type_synonym ('h, 'a) trans_op = "('h nc_trans, d2_exn, 'a) exec"

definition READY_ST :: int where "READY_ST = SM_DERIVED_STATE_MIN + 1"
definition SELECTING_FWD_SERVER_ST :: int where "SELECTING_FWD_SERVER_ST = SM_DERIVED_STATE_MIN + 2"
definition SELECTING_REV_SERVER_ST :: int where "SELECTING_REV_SERVER_ST = SM_DERIVED_STATE_MIN + 3"
definition PROCESS_TRANS_OK_ST :: int where "PROCESS_TRANS_OK_ST = SM_DERIVED_STATE_MIN + 4"
definition PROCESS_TRANS_FAILED_ST :: int where "PROCESS_TRANS_FAILED_ST = SM_DERIVED_STATE_MIN + 5"
definition NCT_DERIVED_STATE_MIN :: int where "NCT_DERIVED_STATE_MIN = SM_DERIVED_STATE_MIN + 101"
definition SELECT_SERVER_EVT :: int where "SELECT_SERVER_EVT = SM_DERIVED_EVENT_MIN + 1"
definition SERVER_SELECTED_EVT :: int where "SERVER_SELECTED_EVT = SM_DERIVED_EVENT_MIN + 2"
definition SERVER_IO_ERROR_EVT :: int where "SERVER_IO_ERROR_EVT = SM_DERIVED_EVENT_MIN + 3"
definition NO_MORE_SERVERS_EVT :: int where "NO_MORE_SERVERS_EVT = SM_DERIVED_EVENT_MIN + 4"
definition IO_COMPLETED_EVT :: int where "IO_COMPLETED_EVT = SM_DERIVED_EVENT_MIN + 5"
definition UPDATE_OK_EVT :: int where "UPDATE_OK_EVT = SM_DERIVED_EVENT_MIN + 6"
definition UPDATE_FAILED_EVT :: int where "UPDATE_FAILED_EVT = SM_DERIVED_EVENT_MIN + 7"
definition NCT_DERIVED_EVENT_MIN :: int where "NCT_DERIVED_EVENT_MIN = SM_DERIVED_EVENT_MIN + 101"
definition DNS_UPDATE_DEFAULT_TIMEOUT :: nat where "DNS_UPDATE_DEFAULT_TIMEOUT = 100"
definition MAX_UPDATE_TRIES_PER_SERVER :: nat where "MAX_UPDATE_TRIES_PER_SERVER = 3"

lemmas nct_values =
  READY_ST_def SELECTING_FWD_SERVER_ST_def SELECTING_REV_SERVER_ST_def PROCESS_TRANS_OK_ST_def PROCESS_TRANS_FAILED_ST_def
  NCT_DERIVED_STATE_MIN_def SELECT_SERVER_EVT_def SERVER_SELECTED_EVT_def SERVER_IO_ERROR_EVT_def NO_MORE_SERVERS_EVT_def
  IO_COMPLETED_EVT_def UPDATE_OK_EVT_def UPDATE_FAILED_EVT_def NCT_DERIVED_EVENT_MIN_def sm_values

text \<open>The constructor; \<open>io\<close> says whether the I/O service pointer is set.\<close>

definition NameChangeTransaction :: "bool \<Rightarrow> name_change_request option \<Rightarrow> ddns_domain option \<Rightarrow> ddns_domain option \<Rightarrow>
    d2_exn + 'h nc_trans" where
  "NameChangeTransaction io ncr_ptr fwd bwd =
     (if \<not> io then Inl NameChangeTransactionError
      else case ncr_ptr of
             None \<Rightarrow> Inl NameChangeTransactionError
           | Some r \<Rightarrow>
               if forward_change r \<and> fwd = None then Inl NameChangeTransactionError
               else if reverse_change r \<and> bwd = None then Inl NameChangeTransactionError
               else Inr (state_model.extend StateModel
                 \<lparr>ncr = r, forward_domain = fwd, reverse_domain = bwd, dns_client = None, dns_update_request = None,
                  dns_update_status = OTHER, dns_update_response = None, forward_change_completed = False,
                  reverse_change_completed = False, current_server_list = None, current_server = None,
                  next_server_pos = 0, update_attempts = 0, posted = []\<rparr>))"

section \<open>Operations\<close>

definition setNcrStatus :: "ncr_status \<Rightarrow> 'h nc_trans \<Rightarrow> 'h nc_trans" where
  "setNcrStatus st s = s\<lparr>ncr := (ncr s)\<lparr>status := st\<rparr>\<rparr>"

definition nct_onModelFailure :: "'h nc_trans \<Rightarrow> 'h nc_trans" where
  "nct_onModelFailure s = setNcrStatus ST_FAILED s"

definition clearDnsUpdateRequest :: "'h nc_trans \<Rightarrow> 'h nc_trans" where
  "clearDnsUpdateRequest s = s\<lparr>update_attempts := 0, dns_update_request := None\<rparr>"

definition setDnsUpdateRequest :: "update_message \<Rightarrow> 'h nc_trans \<Rightarrow> 'h nc_trans" where
  "setDnsUpdateRequest um s = s\<lparr>dns_update_request := Some um\<rparr>"

definition setDnsUpdateStatus :: "dns_status \<Rightarrow> 'h nc_trans \<Rightarrow> 'h nc_trans" where
  "setDnsUpdateStatus st s = s\<lparr>dns_update_status := st\<rparr>"

definition responseString :: "'m trans_env_scheme \<Rightarrow> 'h nc_trans \<Rightarrow> d2_exn + string" where
  "responseString E s =
     (case dns_update_status s of
        SUCCESS \<Rightarrow>
          (case dns_update_response s of
             Some um \<Rightarrow> bindS (um_getRcode um) (\<lambda>c. Inr (''SUCCESS, rcode: '' @ rcode_toText E c))
           | None \<Rightarrow> Inr ''SUCCESS, rcode:  update response is NULL'')
      | TIMEOUT \<Rightarrow> Inr ''TIMEOUT''
      | IO_STOPPED \<Rightarrow> Inr ''IO_STOPPED''
      | INVALID_RESPONSE \<Rightarrow> Inr ''INVALID_RESPONSE''
      | OTHER \<Rightarrow> Inr ''OTHER'')"

definition transactionOutcomeString :: "'m trans_env_scheme \<Rightarrow> 'h nc_trans \<Rightarrow> d2_exn + string" where
  "transactionOutcomeString E s =
     bindS (ncr_toText E (ncr s)) (\<lambda>request. Inr (
     ''Status: '' @ (if status (ncr s) = ST_COMPLETED then ''Completed, '' else ''Failed, '') @
     ''Event: '' @ getEventLabel (next_event s) s @ '', '' @
     (if forward_change (ncr s)
      then '' Forward change:'' @ (if forward_change_completed s then '' completed, '' else '' failed, '') else []) @
     (if reverse_change (ncr s)
      then '' Reverse change:'' @ (if reverse_change_completed s then '' completed, '' else '' failed, '') else []) @
     '' request: '' @ request))"

text \<open>\<^verbatim>\<open>sendUpdate\<close>; in the \<^verbatim>\<open>try\<close> block every pointer is dereferenced.\<close>

definition send_try :: "'m trans_env_scheme \<Rightarrow> ('h, unit) trans_op" where
  "send_try E s =
     (let s1 = s\<lparr>update_attempts := update_attempts s + 1\<rparr> in
      case (dns_client s1, current_server s1, dns_update_request s1) of
        (Some _, Some srv, Some um) \<Rightarrow>
          (case doUpdate E (srv_ip_address srv) (srv_port srv) um DNS_UPDATE_DEFAULT_TIMEOUT of
             Inl e \<Rightarrow> raise e s1
           | Inr (task, um') \<Rightarrow>
               postNextEvent NOP_EVT (s1\<lparr>posted := posted s1 @ [task], dns_update_request := Some um'\<rparr>))
      | _ \<Rightarrow> raise NullPointer s1)"

definition sendUpdate :: "'m trans_env_scheme \<Rightarrow> ('h, unit) trans_op" where
  "sendUpdate E = catchE std_exception (send_try E) (\<lambda>_. transition PROCESS_TRANS_FAILED_ST UPDATE_FAILED_EVT)"

definition retryTransition :: "int \<Rightarrow> ('h, unit) trans_op" where
  "retryTransition fail_to_state s =
     (if update_attempts s < MAX_UPDATE_TRIES_PER_SERVER
      then transition (curr_state s) SERVER_SELECTED_EVT s
      else transition fail_to_state SERVER_IO_ERROR_EVT s)"

definition initServerSelection :: "ddns_domain option \<Rightarrow> ('h, unit) trans_op" where
  "initServerSelection domain s =
     (case domain of
        None \<Rightarrow> raise NameChangeTransactionError s
      | Some d \<Rightarrow> (Inr (), s\<lparr>current_server_list := dom_servers d, next_server_pos := 0, current_server := None\<rparr>))"

definition selectNextServer :: "('h, bool) trans_op" where
  "selectNextServer s =
     (case current_server_list s of
        Some servers \<Rightarrow>
          if next_server_pos s < length servers then
            (let s1 = s\<lparr>current_server := Some (servers ! next_server_pos s), dns_update_response := None\<rparr>
             in case DNSClient (dns_update_response s1) UDP of
                  Inl e \<Rightarrow> raise e s1
                | Inr c \<Rightarrow> (Inr True, s1\<lparr>dns_client := Some c, next_server_pos := next_server_pos s1 + 1\<rparr>))
          else (Inr False, s)
      | None \<Rightarrow> (Inr False, s))"

definition as_NameChangeTransactionError :: "d2_exn + 'a \<Rightarrow> d2_exn + 'a" where
  "as_NameChangeTransactionError r =
     (case r of Inl e \<Rightarrow> if std_exception e then Inl NameChangeTransactionError else Inl e | Inr a \<Rightarrow> Inr a)"

definition prepNewRequest :: "ddns_domain option \<Rightarrow> d2_exn + update_message" where
  "prepNewRequest domain =
     (case domain of
        None \<Rightarrow> Inl NameChangeTransactionError
      | Some d \<Rightarrow>
          as_NameChangeTransactionError
            (bindS (D2UpdateMessage OUTBOUND) (\<lambda>request.
             bindS (lib (Name_text (dom_name d) False)) (\<lambda>zone_name. setZone zone_name CLASS_IN request))))"

definition addLeaseAddressRdata :: "'m trans_env_scheme \<Rightarrow> name_change_request \<Rightarrow> rrset \<Rightarrow> d2_exn + rrset" where
  "addLeaseAddressRdata E r rr =
     as_NameChangeTransactionError
       (bindS (if isV4 (ip_io_address r) then Rdata_A_text E (getIpAddress E r) else Rdata_AAAA_text E (getIpAddress E r))
          (\<lambda>d. Inr (addRdata d rr)))"

definition addDhcidRdata :: "name_change_request \<Rightarrow> rrset \<Rightarrow> d2_exn + rrset" where
  "addDhcidRdata r rr =
     as_NameChangeTransactionError (bindS (Rdata_DHCID_buffer (dhcid r)) (\<lambda>d. Inr (addRdata d rr)))"

definition addPtrRdata :: "'m trans_env_scheme \<Rightarrow> name_change_request \<Rightarrow> rrset \<Rightarrow> d2_exn + rrset" where
  "addPtrRdata E r rr =
     as_NameChangeTransactionError (bindS (Rdata_PTR_text E (fqdn r)) (\<lambda>d. Inr (addRdata d rr)))"

definition getAddressRRType :: "name_change_request \<Rightarrow> rrtype" where
  "getAddressRRType r = (if isV4 (ip_io_address r) then TYPE_A else TYPE_AAAA)"

section \<open>Dictionaries of the base class\<close>

definition nct_defineEvents :: "('h, unit) trans_op" where
  "nct_defineEvents =
     thenE sm_defineEvents (thenE (defineEvent SELECT_SERVER_EVT ''SELECT_SERVER_EVT'')
       (thenE (defineEvent SERVER_SELECTED_EVT ''SERVER_SELECTED_EVT'')
       (thenE (defineEvent SERVER_IO_ERROR_EVT ''SERVER_IO_ERROR_EVT'')
       (thenE (defineEvent NO_MORE_SERVERS_EVT ''NO_MORE_SERVERS_EVT'')
       (thenE (defineEvent IO_COMPLETED_EVT ''IO_COMPLETED_EVT'')
       (thenE (defineEvent UPDATE_OK_EVT ''UPDATE_OK_EVT'')
         (defineEvent UPDATE_FAILED_EVT ''UPDATE_FAILED_EVT'')))))))"

definition nct_verifyEvents :: "('h, unit) trans_op" where
  "nct_verifyEvents =
     thenE sm_verifyEvents (thenE (getEvent SELECT_SERVER_EVT) (thenE (getEvent SERVER_SELECTED_EVT)
       (thenE (getEvent SERVER_IO_ERROR_EVT) (thenE (getEvent NO_MORE_SERVERS_EVT) (thenE (getEvent IO_COMPLETED_EVT)
       (thenE (getEvent UPDATE_OK_EVT) (thenE (getEvent UPDATE_FAILED_EVT) (ret ()))))))))"

definition nct_defineStates :: "'h \<Rightarrow> ('h, unit) trans_op" where
  "nct_defineStates nop = sm_defineStates nop"

definition nct_verifyStates :: "('h, unit) trans_op" where
  "nct_verifyStates =
     thenE sm_verifyStates (thenE (getState READY_ST) (thenE (getState SELECTING_FWD_SERVER_ST)
       (thenE (getState SELECTING_REV_SERVER_ST) (thenE (getState PROCESS_TRANS_OK_ST)
       (thenE (getState PROCESS_TRANS_FAILED_ST) (ret ()))))))"

section \<open>Starting a transaction and completing an exchange\<close>

definition startTransaction :: "('h, 'h nc_trans) sm_virtuals \<Rightarrow> 'h nc_trans \<Rightarrow> ((d2_exn + unit) \<times> 'h nc_trans) option" where
  "startTransaction V s = startModel V READY_ST (setNcrStatus ST_PENDING s)"

text \<open>\<^verbatim>\<open>NameChangeTransaction::operator()\<close>\<close>

definition trans_callback :: "'m trans_env_scheme \<Rightarrow> ('h, 'h nc_trans) sm_virtuals \<Rightarrow> dns_status \<Rightarrow> 'h nc_trans \<Rightarrow>
    ((d2_exn + unit) \<times> 'h nc_trans) option" where
  "trans_callback E V st s =
     (let s1 = setDnsUpdateStatus st s in
      case current_server s1 of
        None \<Rightarrow> Some (Inl NullPointer, s1)
      | Some _ \<Rightarrow>
          (case responseString E s1 of
             Inl e \<Rightarrow> Some (Inl e, s1)
           | Inr _ \<Rightarrow> runModel V IO_COMPLETED_EVT s1))"

text \<open>
  \<^verbatim>\<open>DNSClientImpl::operator()\<close>: the end of an exchange with result \<open>r\<close>, where \<open>in_buf\<close> are
  the octets received.  It stores the response in the transaction, whose pointer it
  refers to, and calls the transaction back.
\<close>

definition client_complete :: "'m trans_env_scheme \<Rightarrow> ('h, 'h nc_trans) sm_virtuals \<Rightarrow> iofetch_result \<Rightarrow> byte list \<Rightarrow>
    'h nc_trans \<Rightarrow> ((d2_exn + unit) \<times> 'h nc_trans) option" where
  "client_complete E V r in_buf s =
     (if getStatus r = SUCCESS then
        (case D2UpdateMessage INBOUND of
           Inl e \<Rightarrow> Some (Inl e, s)
         | Inr fresh \<Rightarrow>
             (case um_fromWire (parse_msg E) in_buf fresh of
                Inr um \<Rightarrow> trans_callback E V SUCCESS (s\<lparr>dns_update_response := Some um\<rparr>)
              | Inl e \<Rightarrow>
                  if std_exception e then trans_callback E V INVALID_RESPONSE (s\<lparr>dns_update_response := Some fresh\<rparr>)
                  else Some (Inl e, s\<lparr>dns_update_response := Some fresh\<rparr>)))
      else trans_callback E V (getStatus r) s)"

section \<open>Blocks the handlers share\<close>

text \<open>
  \<^verbatim>\<open>if (doOnEntry()) clearDnsUpdateRequest()\<close>, the first statement of every handler that
  sends a request.
\<close>

definition clear_on_entry :: "('h, unit) trans_op" where
  "clear_on_entry = bindE doOnEntry (\<lambda>b. if b then modifyE clearDnsUpdateRequest else ret ())"

text \<open>
  The case of a handler that sends: the request is built unless it is there already, and
  a failed build fails the transaction.
\<close>

definition log_text :: "d2_exn + string \<Rightarrow> ('h, unit) trans_op" where
  "log_text t s = (case t of Inl e \<Rightarrow> raise e s | Inr _ \<Rightarrow> ret () s)"

definition build_and_send :: "'m trans_env_scheme \<Rightarrow> ('h, unit) trans_op \<Rightarrow> ('h, unit) trans_op" where
  "build_and_send E build s =
     (if dns_update_request s = None then
        (case build s of
           (Inr _, s1) \<Rightarrow> sendUpdate E s1
         | (Inl e, s1) \<Rightarrow>
             if std_exception e
             then thenE (log_text (ncr_toText E (ncr s1))) (transition PROCESS_TRANS_FAILED_ST UPDATE_FAILED_EVT) s1
             else (Inl e, s1))
      else sendUpdate E s)"

text \<open>\<^verbatim>\<open>getCurrentServer()->toText()\<close> in the arguments of a log message.\<close>

definition log_server :: "('h, unit) trans_op" where
  "log_server s = (case current_server s of None \<Rightarrow> raise NullPointer s | Some _ \<Rightarrow> ret () s)"

definition response_rcode :: "('h, nat) trans_op" where
  "response_rcode s = (case dns_update_response s of None \<Rightarrow> raise NullPointer s | Some um \<Rightarrow> liftS (um_getRcode um) s)"

text \<open>
  The \<^verbatim>\<open>switch\<close> on the status of a completed exchange, the same in every handler up to
  what a response leads to and where the transaction goes when its tries are used up.
\<close>

definition switch_status :: "('h, unit) trans_op \<Rightarrow> int \<Rightarrow> ('h, unit) trans_op" where
  "switch_status on_success fail_to_state s =
     (case dns_update_status s of
        SUCCESS \<Rightarrow> on_success s
      | TIMEOUT \<Rightarrow> thenE log_server (retryTransition fail_to_state) s
      | OTHER \<Rightarrow> thenE log_server (retryTransition fail_to_state) s
      | INVALID_RESPONSE \<Rightarrow> thenE log_server (retryTransition fail_to_state) s
      | IO_STOPPED \<Rightarrow> thenE log_server (transition PROCESS_TRANS_FAILED_ST UPDATE_FAILED_EVT) s)"

text \<open>A response that means \<^emph>\<open>cease\<close>.\<close>

definition rejected :: "('h, unit) trans_op" where
  "rejected = thenE log_server (transition PROCESS_TRANS_FAILED_ST UPDATE_FAILED_EVT)"

text \<open>\<^verbatim>\<open>if (getReverseDomain()) ... else ...\<close> after a completed forward change.\<close>

definition forward_done :: "('h, unit) trans_op" where
  "forward_done s =
     (let s1 = s\<lparr>forward_change_completed := True\<rparr> in
      if reverse_domain s1 \<noteq> None then transition SELECTING_REV_SERVER_ST SELECT_SERVER_EVT s1
      else transition PROCESS_TRANS_OK_ST UPDATE_OK_EVT s1)"

definition reverse_done :: "('h, unit) trans_op" where
  "reverse_done s = transition PROCESS_TRANS_OK_ST UPDATE_OK_EVT (s\<lparr>reverse_change_completed := True\<rparr>)"

text \<open>
  The handlers of the server selection states; \<open>wrong\<close> is the exception of the deriving class
  and \<open>nxt\<close> the state that sends.
\<close>

definition select_server :: "d2_exn \<Rightarrow> ddns_domain option \<Rightarrow> int \<Rightarrow> ('h, unit) trans_op" where
  "select_server wrong domain nxt s =
     thenE (\<lambda>s. if next_event s = SELECT_SERVER_EVT then initServerSelection domain s
                else if next_event s = SERVER_IO_ERROR_EVT then ret () s
                else raise wrong s)
       (bindE selectNextServer (\<lambda>b.
          if b then transition nxt SERVER_SELECTED_EVT
          else transition PROCESS_TRANS_FAILED_ST NO_MORE_SERVERS_EVT)) s"

section \<open>The dictionaries a transaction ends up with\<close>

definition ev_entry :: "int \<Rightarrow> string \<Rightarrow> labeled_value" where
  "ev_entry v l = \<lparr>lv_value = v, lv_label = l\<rparr>"

definition st_entry :: "int \<Rightarrow> string \<Rightarrow> 'h \<Rightarrow> 'h sm_state" where
  "st_entry v l h = \<lparr>lv_value = v, lv_label = l, st_handler = h\<rparr>"

lemma st_handler_entry [simp]: "st_handler (st_entry v l h) = h"
  by (simp add: st_entry_def)

lemma defineEvent_ok:
  assumes "isModelNew s" "label \<noteq> []" "events s v = None"
  shows "defineEvent v label s = (Inr (), s\<lparr>events := (events s)(v \<mapsto> ev_entry v label)\<rparr>)"
  using assms
  by (simp add: defineEvent_def as_StateModelError_def catchE_def lvs_add_value_def LabeledValue_def lvs_add_def
      lvs_isDefined_def ev_entry_def)

lemma defineState_ok:
  assumes "isModelNew s" "label \<noteq> []" "states s v = None"
  shows "defineState v label h s = (Inr (), s\<lparr>states := (states s)(v \<mapsto> st_entry v label h)\<rparr>)"
  using assms
  by (simp add: defineState_def as_StateModelError_def catchE_def ss_add_def State_def LabeledValue_def lvs_add_def
      lvs_isDefined_def st_entry_def labeled_value.extend_def)

lemma getEvent_ok: "events s v \<noteq> None \<Longrightarrow> getEvent v s = (Inr (events s v), s)"
  by (simp add: getEvent_def lvs_isDefined_def lvs_get_def)

lemma getState_ok: "states s v = Some st \<Longrightarrow> getState v s = (Inr st, s)"
  by (simp add: getState_def lvs_isDefined_def ss_getState_def lvs_get_def)

lemma isModelNew_update [simp]:
  "isModelNew (s\<lparr>events := m\<rparr>) = isModelNew s" "isModelNew (s\<lparr>states := m'\<rparr>) = isModelNew s"
  by (simp_all add: isModelNew_def)

definition nct_events :: "unit lv_set" where
  "nct_events =
     [NOP_EVT \<mapsto> ev_entry NOP_EVT ''NOP_EVT'', START_EVT \<mapsto> ev_entry START_EVT ''START_EVT'',
      END_EVT \<mapsto> ev_entry END_EVT ''END_EVT'', FAIL_EVT \<mapsto> ev_entry FAIL_EVT ''FAIL_EVT'',
      SELECT_SERVER_EVT \<mapsto> ev_entry SELECT_SERVER_EVT ''SELECT_SERVER_EVT'',
      SERVER_SELECTED_EVT \<mapsto> ev_entry SERVER_SELECTED_EVT ''SERVER_SELECTED_EVT'',
      SERVER_IO_ERROR_EVT \<mapsto> ev_entry SERVER_IO_ERROR_EVT ''SERVER_IO_ERROR_EVT'',
      NO_MORE_SERVERS_EVT \<mapsto> ev_entry NO_MORE_SERVERS_EVT ''NO_MORE_SERVERS_EVT'',
      IO_COMPLETED_EVT \<mapsto> ev_entry IO_COMPLETED_EVT ''IO_COMPLETED_EVT'',
      UPDATE_OK_EVT \<mapsto> ev_entry UPDATE_OK_EVT ''UPDATE_OK_EVT'',
      UPDATE_FAILED_EVT \<mapsto> ev_entry UPDATE_FAILED_EVT ''UPDATE_FAILED_EVT'']"

lemma thenE_Inr: "m s = (Inr a, s') \<Longrightarrow> thenE m k s = k s'"
  by (simp add: thenE_def)

lemma nct_defineEvents_ok:
  assumes "isModelNew s" "events s = Map.empty"
  shows "nct_defineEvents s = (Inr (), s\<lparr>events := nct_events\<rparr>)"
  using assms
  by (simp add: nct_defineEvents_def sm_defineEvents_def thenE_def defineEvent_ok nct_events_def nct_values)

lemma nct_verifyEvents_ok:
  assumes "nct_events \<subseteq>\<^sub>m events s"
  shows "nct_verifyEvents s = (Inr (), s)"
proof -
  have "\<exists>p. events s v = Some p" if "nct_events v \<noteq> None" for v
    using assms that by (force simp: map_le_def)
  then show ?thesis
    by (simp add: nct_verifyEvents_def sm_verifyEvents_def thenE_def getEvent_ok nct_events_def ret_def)
qed

section \<open>Building requests fails with an exception only\<close>

text \<open>The constructor of \<^verbatim>\<open>Name\<close> accepts the text or throws.\<close>

definition safe_text :: "string \<Rightarrow> bool" where
  "safe_text t \<longleftrightarrow> (\<forall>e. Name_text t False = Inl e \<longrightarrow> std_exception (LibError e))"

definition throws_only :: "d2_exn + 'a \<Rightarrow> bool" where
  "throws_only r \<longleftrightarrow> (\<forall>e. r = Inl e \<longrightarrow> std_exception e)"

lemma throws_only_simps [simp]:
  "throws_only (Inr a)" "throws_only (Inl e) \<longleftrightarrow> std_exception e"
  by (simp_all add: throws_only_def)

lemma throws_only_bindS [intro]: "throws_only m \<Longrightarrow> (\<And>a. m = Inr a \<Longrightarrow> throws_only (f a)) \<Longrightarrow> throws_only (bindS m f)"
  by (cases m) auto

lemma throws_only_nct [simp]: "throws_only (as_NameChangeTransactionError r) \<longleftrightarrow> throws_only r"
  by (cases r) (auto simp: as_NameChangeTransactionError_def)

lemma throws_only_name: "safe_text t \<Longrightarrow> throws_only (lib (Name_text t False))"
  by (auto simp: safe_text_def lib_def split: sum.splits)

lemma throws_only_addRRset: "throws_only (um_addRRset sec rr um)"
  by (auto simp: um_addRRset_def msg_addRRset_def bindS_def)

lemma throws_only_setZone: "throws_only (setZone z c um)"
  by (auto simp: setZone_def clearSection_def addQuestion_def bindS_def Let_def)

lemma throws_only_D2UpdateMessage: "throws_only (D2UpdateMessage dir)"
  by (auto simp: D2UpdateMessage_def setOpcode_def setHeaderFlag_def msg_setRcode_def bindS_def Let_def)

lemma throws_only_prep:
  assumes "\<forall>d. domain = Some d \<longrightarrow> safe_text (dom_name d)"
  shows "throws_only (prepNewRequest domain)"
  using assms throws_only_D2UpdateMessage throws_only_name throws_only_setZone
  by (auto simp: prepNewRequest_def split: option.splits intro!: throws_only_bindS)

lemma throws_only_lease: "throws_only (addLeaseAddressRdata E r rr)"
  by (auto simp: addLeaseAddressRdata_def Rdata_A_text_def Rdata_AAAA_text_def bindS_def split: option.splits)

lemma throws_only_dhcid: "throws_only (addDhcidRdata r rr)"
  by (auto simp: addDhcidRdata_def Rdata_DHCID_buffer_def)

lemma throws_only_ptr:
  assumes "\<forall>tok. single_token E (fqdn r) = Some tok \<longrightarrow> safe_text tok"
  shows "throws_only (addPtrRdata E r rr)"
proof -
  have "throws_only (lib (Name_origin (Some (map byte_of_char tok)) None False))" if "safe_text tok" for tok
    using that by (auto simp: safe_text_def Name_text_def lib_def Name_origin_def bindS_def Let_def split: sum.splits)
  then show ?thesis
    using assms by (auto simp: addPtrRdata_def Rdata_PTR_text_def split: option.splits intro!: throws_only_bindS)
qed

lemma throws_only_reverse: "env_ok E \<Longrightarrow> throws_only (reverseIpAddress E t)"
  by (auto simp: reverseIpAddress_def reverseV4Address_def reverseV6Address_def env_ok_def encodeHex_text split: option.splits)

lemma reverse_safe:
  assumes "env_ok E" "reverseIpAddress E t = Inr r"
  shows "safe_text r"
proof -
  obtain a where a: "addr_from_string E t = Some a" "(if isV4 a then reverseV4Address a else reverseV6Address (transform_width E) a) = Inr r"
    using assms(2) by (auto simp: reverseIpAddress_def split: option.splits sum.splits if_splits)
  show ?thesis
  proof (cases a)
    case (IPv4 bs)
    then show ?thesis
      using a assms(1) reverseV4_name [of bs] by (auto simp: env_ok_def safe_text_def)
  next
    case (IPv6 bs)
    then show ?thesis
      using a assms(1) reverseV6_name [of bs "transform_width E"] by (auto simp: env_ok_def safe_text_def)
  qed
qed

lemmas throws_only_steps =
  throws_only_prep throws_only_addRRset throws_only_lease throws_only_dhcid throws_only_name throws_only_ptr throws_only_reverse

section \<open>What a request contains\<close>

text \<open>A request for a zone with its prerequisites and its updates, and a computation that builds it.\<close>

definition request_is :: "name \<Rightarrow> rrset list \<Rightarrow> rrset list \<Rightarrow> update_message \<Rightarrow> bool" where
  "request_is zone prereqs updates um \<longleftrightarrow>
     outbound zone um \<and> um_section SECTION_PREREQUISITE um = prereqs \<and> um_section SECTION_UPDATE um = updates \<and>
     um_section UPDATE_SECTION_ADDITIONAL um = []"

definition yields :: "name \<Rightarrow> rrset list \<Rightarrow> rrset list \<Rightarrow> d2_exn + update_message \<Rightarrow> bool" where
  "yields zone prereqs updates m \<longleftrightarrow> (\<exists>um. m = Inr um \<and> request_is zone prereqs updates um)"

lemma yields_prep:
  assumes "Name_text (dom_name d) False = Inr zone" "\<And>um. request_is zone [] [] um \<Longrightarrow> yields zone P U (f um)"
  shows "yields zone P U (bindS (prepNewRequest (Some d)) f)"
proof -
  obtain um where um: "bindS (D2UpdateMessage OUTBOUND) (setZone zone CLASS_IN) = Inr um" "outbound zone um" "\<forall>sec. um_section sec um = []"
    using setZone_outbound by blast
  then have "prepNewRequest (Some d) = Inr um"
    using assms(1) by (simp add: prepNewRequest_def lib_def as_NameChangeTransactionError_def)
  then show ?thesis
    using um assms(2) by (simp add: request_is_def)
qed

lemma yields_prereq:
  assumes "request_is zone P U um" "\<And>um'. request_is zone (P @ [rr]) U um' \<Longrightarrow> yields zone P' U' (f um')"
  shows "yields zone P' U' (bindS (um_addRRset SECTION_PREREQUISITE rr um) f)"
  using um_addRRset_outbound [of zone um SECTION_PREREQUISITE rr] assms by (auto simp: request_is_def)

lemma yields_update:
  assumes "request_is zone P U um" "\<And>um'. request_is zone P (U @ [rr]) um' \<Longrightarrow> yields zone P' U' (f um')"
  shows "yields zone P' U' (bindS (um_addRRset SECTION_UPDATE rr um) f)"
  using um_addRRset_outbound [of zone um SECTION_UPDATE rr] assms by (auto simp: request_is_def)

lemma yields_last:
  assumes "request_is zone P U um" "U' = U @ [rr]"
  shows "yields zone P U' (um_addRRset SECTION_UPDATE rr um)"
  using um_addRRset_outbound [of zone um SECTION_UPDATE rr] assms by (auto simp: request_is_def yields_def)

lemma yields_builds:
  assumes "yields zone P U m"
  shows "\<exists>um. (case m of Inl e \<Rightarrow> raise e s | Inr request \<Rightarrow> (Inr (), setDnsUpdateRequest request s)) =
    (Inr (), s\<lparr>dns_update_request := Some um\<rparr>) \<and> request_is zone P U um"
  using assms by (auto simp: yields_def setDnsUpdateRequest_def)

text \<open>The RDATA of a request: the address, the DHCID and the host name.\<close>

definition address_rdata :: "'m trans_env_scheme \<Rightarrow> name_change_request \<Rightarrow> d2_exn + rdata" where
  "address_rdata E r = (if isV4 (ip_io_address r) then Rdata_A_text E (getIpAddress E r) else Rdata_AAAA_text E (getIpAddress E r))"

definition with_rdata :: "name \<Rightarrow> rrclass \<Rightarrow> rrtype \<Rightarrow> 32 word \<Rightarrow> rdata \<Rightarrow> rrset" where
  "with_rdata n c t ttl d = \<lparr>rr_name = n, rr_class = c, rr_type = t, rr_ttl = ttl, rr_rdata = [d]\<rparr>"

lemma addDhcidRdata_ok: "dhcid r \<noteq> [] \<Longrightarrow> addDhcidRdata r (RRset n c t ttl) = Inr (with_rdata n c t ttl (Rdata_DHCID (dhcid r)))"
  by (simp add: addDhcidRdata_def Rdata_DHCID_buffer_def as_NameChangeTransactionError_def addRdata_def RRset_def with_rdata_def)

lemma addLeaseAddressRdata_ok:
  "address_rdata E r = Inr a \<Longrightarrow> addLeaseAddressRdata E r (RRset n c t ttl) = Inr (with_rdata n c t ttl a)"
  by (simp add: addLeaseAddressRdata_def address_rdata_def as_NameChangeTransactionError_def addRdata_def RRset_def with_rdata_def)

lemma addPtrRdata_ok:
  "Rdata_PTR_text E (fqdn r) = Inr p \<Longrightarrow> addPtrRdata E r (RRset n c t ttl) = Inr (with_rdata n c t ttl p)"
  by (simp add: addPtrRdata_def as_NameChangeTransactionError_def addRdata_def RRset_def with_rdata_def)

lemmas rdata_ok = addDhcidRdata_ok addLeaseAddressRdata_ok addPtrRdata_ok

section \<open>The invariant of a transaction\<close>

text \<open>The request and the domains a transaction works on.\<close>

definition safe_request :: "'m trans_env_scheme \<Rightarrow> 'h nc_trans \<Rightarrow> bool" where
  "safe_request E s \<longleftrightarrow>
     unat (lease_expires_on (ncr s)) < time_limit \<and>
     safe_text (fqdn (ncr s)) \<and> (\<forall>tok. single_token E (fqdn (ncr s)) = Some tok \<longrightarrow> safe_text tok) \<and>
     (\<forall>d. forward_domain s = Some d \<longrightarrow> safe_text (dom_name d)) \<and>
     (\<forall>d. reverse_domain s = Some d \<longrightarrow> safe_text (dom_name d))"

lemma safe_request_text:
  assumes "env_ok E" "unat (lease_expires_on r) < time_limit"
  shows "\<exists>t. ncr_toText E r = Inr t"
proof -
  have "encodeHex (transform_width E) (dhcid r) = Inr (hex_text (dhcid r))"
    using assms(1) by (simp add: env_ok_def encodeHex_text)
  then show ?thesis
    using time_round_trip [OF assms(2)] by (auto simp: ncr_toText_def dhcid_toStr_def getLeaseExpiresOnStr_def)
qed

lemma log_text_ok: "r = Inr t \<Longrightarrow> log_text r s = (Inr (), s)"
  by (simp add: log_text_def ret_def)

lemma log_request:
  assumes "env_ok E" "unat (lease_expires_on (ncr s)) < time_limit"
  shows "log_text (ncr_toText E (ncr s)) s' = (Inr (), s')" "log_text (transactionOutcomeString E s) s' = (Inr (), s')"
  using safe_request_text [OF assms] by (auto simp: log_text_ok transactionOutcomeString_def)

text \<open>
  \<open>F\<close> are the states that send a forward update, \<open>R\<close> the state that sends the reverse update.
  The invariant ties the state to what has been achieved so far.
\<close>

definition trans_inv :: "'m trans_env_scheme \<Rightarrow> int set \<Rightarrow> int \<Rightarrow> 'h nc_trans \<Rightarrow> bool" where
  "trans_inv E F R s \<longleftrightarrow>
     env_ok E \<and> safe_request E s \<and> (forward_domain s \<noteq> None \<or> reverse_domain s \<noteq> None) \<and>
     (curr_state s \<in> insert SELECTING_FWD_SERVER_ST F \<longrightarrow> forward_domain s \<noteq> None) \<and>
     (curr_state s \<in> {SELECTING_REV_SERVER_ST, R} \<longrightarrow> reverse_domain s \<noteq> None) \<and>
     (curr_state s \<in> insert R F \<longrightarrow> current_server s \<noteq> None \<and> dns_client s \<noteq> None) \<and>
     (curr_state s \<in> {SELECTING_REV_SERVER_ST, R, PROCESS_TRANS_OK_ST} \<longrightarrow> forward_domain s \<noteq> None \<longrightarrow> forward_change_completed s) \<and>
     (curr_state s = PROCESS_TRANS_OK_ST \<longrightarrow> reverse_domain s \<noteq> None \<longrightarrow> reverse_change_completed s) \<and>
     (curr_state s \<noteq> END_ST \<longrightarrow> status (ncr s) = ST_PENDING) \<and> update_attempts s \<le> MAX_UPDATE_TRIES_PER_SERVER"

text \<open>What holds when a handler is called: the events it may see.\<close>

definition response_ready :: "'h nc_trans \<Rightarrow> bool" where
  "response_ready s \<longleftrightarrow>
     (dns_update_status s = SUCCESS \<longrightarrow> (\<exists>um c. dns_update_response s = Some um \<and> um_getRcode um = Inr c))"

definition may_send :: "'h nc_trans \<Rightarrow> bool" where
  "may_send s \<longleftrightarrow> on_entry_flag s \<or> update_attempts s < MAX_UPDATE_TRIES_PER_SERVER"

text \<open>The final state: the status of the request says what was done.\<close>

definition outcome_ok :: "'h nc_trans \<Rightarrow> bool" where
  "outcome_ok s \<longleftrightarrow>
     status (ncr s) = ST_FAILED \<or>
     status (ncr s) = ST_COMPLETED \<and> (forward_domain s \<noteq> None \<longrightarrow> forward_change_completed s) \<and>
       (reverse_domain s \<noteq> None \<longrightarrow> reverse_change_completed s)"

text \<open>What holds when the loop has stopped: the model is done, or it waits for a response.\<close>

definition at_rest :: "int set \<Rightarrow> int \<Rightarrow> 'h nc_trans \<Rightarrow> bool" where
  "at_rest F R s \<longleftrightarrow>
     curr_state s = END_ST \<and> next_event s = END_EVT \<and> outcome_ok s \<or>
     curr_state s \<in> insert R F \<and> next_event s = NOP_EVT \<and> dns_update_request s \<noteq> None \<and>
       0 < update_attempts s \<and> posted s \<noteq> [] \<and> \<not> on_entry_flag s"

section \<open>What the shared blocks do\<close>

text \<open>A builder sets the request or throws, and changes nothing else.\<close>

definition builds :: "('h, unit) trans_op \<Rightarrow> 'h nc_trans \<Rightarrow> bool" where
  "builds build s \<longleftrightarrow>
     (\<exists>um. build s = (Inr (), s\<lparr>dns_update_request := Some um\<rparr>)) \<or> (\<exists>e. build s = (Inl e, s) \<and> std_exception e)"

lemma builds_case:
  assumes "throws_only r"
  shows "builds (\<lambda>s. case r of Inl e \<Rightarrow> raise e s | Inr um \<Rightarrow> (Inr (), setDnsUpdateRequest um s)) s"
proof (cases r)
  case (Inr um)
  then show ?thesis
    unfolding builds_def by (intro disjI1 exI [of _ um]) (simp add: setDnsUpdateRequest_def)
qed (use assms in \<open>simp add: builds_def raise_def\<close>)

text \<open>The states and events every derivation defines.\<close>

definition nct_dict :: "'h nc_trans \<Rightarrow> bool" where
  "nct_dict s \<longleftrightarrow> dictionaries_initted s \<and> nct_events \<subseteq>\<^sub>m events s \<and>
     (\<forall>st \<in> {READY_ST, SELECTING_FWD_SERVER_ST, SELECTING_REV_SERVER_ST, PROCESS_TRANS_OK_ST, PROCESS_TRANS_FAILED_ST}.
        states s st \<noteq> None)"

lemma nct_dict_event: "nct_dict s \<Longrightarrow> nct_events v \<noteq> None \<Longrightarrow> events s v \<noteq> None"
  by (metis domIff map_le_def nct_dict_def)

lemma nct_events_defined:
  "nct_events NOP_EVT \<noteq> None" "nct_events START_EVT \<noteq> None" "nct_events END_EVT \<noteq> None"
  "nct_events SELECT_SERVER_EVT \<noteq> None" "nct_events SERVER_SELECTED_EVT \<noteq> None" "nct_events SERVER_IO_ERROR_EVT \<noteq> None"
  "nct_events NO_MORE_SERVERS_EVT \<noteq> None" "nct_events IO_COMPLETED_EVT \<noteq> None" "nct_events UPDATE_OK_EVT \<noteq> None"
  "nct_events UPDATE_FAILED_EVT \<noteq> None"
  by (simp_all add: nct_events_def nct_values)

lemma nct_transition:
  assumes "nct_dict s" "nct_events ev \<noteq> None" "st = END_ST \<or> states s st \<noteq> None"
  shows "transition st ev s = (Inr (), goto st ev s)"
  using assms nct_dict_event by (intro transition_goto) auto

lemma nct_transition_failed:
  assumes "nct_dict s" "nct_events ev \<noteq> None"
  shows "transition PROCESS_TRANS_FAILED_ST ev s = (Inr (), goto PROCESS_TRANS_FAILED_ST ev s)"
  using assms by (intro nct_transition) (auto simp: nct_dict_def)

text \<open>
  Sending ends in the same state, waiting, with one more attempt and one more message on its
  way, or it fails the transaction.
\<close>

definition sent :: "'h nc_trans \<Rightarrow> 'h nc_trans \<Rightarrow> bool" where
  "sent s s' \<longleftrightarrow>
     (\<exists>um task. s' = s\<lparr>update_attempts := update_attempts s + 1, posted := posted s @ [task], dns_update_request := Some um,
        last_event := next_event s, next_event := NOP_EVT\<rparr>) \<or>
     (\<exists>um n. n \<le> update_attempts s + 1 \<and>
        s' = goto PROCESS_TRANS_FAILED_ST UPDATE_FAILED_EVT (s\<lparr>update_attempts := n, dns_update_request := um\<rparr>))"

lemma sent_waiting:
  "sent s (s\<lparr>update_attempts := update_attempts s + 1, posted := posted s @ [task], dns_update_request := Some um,
     last_event := next_event s, next_event := NOP_EVT\<rparr>)"
  unfolding sent_def by blast

lemma sent_failed:
  "n \<le> update_attempts s + 1 \<Longrightarrow>
   sent s (goto PROCESS_TRANS_FAILED_ST UPDATE_FAILED_EVT (s\<lparr>update_attempts := n, dns_update_request := um\<rparr>))"
  unfolding sent_def by blast

lemma sent_after_build:
  assumes "sent (s\<lparr>dns_update_request := um\<rparr>) s'"
  shows "sent s s'"
  using assms sent_waiting [of s] sent_failed [of _ s] by (auto simp: sent_def [of "s\<lparr>dns_update_request := um\<rparr>"])

lemma doUpdate_throws:
  assumes "env_ok E"
  shows "throws_only (doUpdate E a p um t)"
  using assms
  by (auto simp: doUpdate_def um_toWire_def getQRFlag_def getHeaderFlag_def env_ok_def bindS_def throws_only_def
      split: sum.splits if_splits)

lemma sendUpdate_sent:
  assumes "env_ok E" "nct_dict s" "dns_client s \<noteq> None" "current_server s \<noteq> None" "dns_update_request s \<noteq> None"
  shows "\<exists>s'. sendUpdate E s = (Inr (), s') \<and> sent s s'"
proof -
  obtain c srv um where p: "dns_client s = Some c" "current_server s = Some srv" "dns_update_request s = Some um"
    using assms(3-5) by auto
  have d: "nct_dict (s\<lparr>update_attempts := n\<rparr>)" for n
    using assms(2) by (simp add: nct_dict_def)
  show ?thesis
  proof (cases "doUpdate E (srv_ip_address srv) (srv_port srv) um DNS_UPDATE_DEFAULT_TIMEOUT")
    case (Inl e)
    then have "std_exception e"
      using doUpdate_throws [OF assms(1)] by (metis throws_only_simps(2))
    then have "sendUpdate E s = (Inr (), goto PROCESS_TRANS_FAILED_ST UPDATE_FAILED_EVT (s\<lparr>update_attempts := update_attempts s + 1\<rparr>))"
      using Inl p nct_transition_failed [OF d nct_events_defined(10), of "update_attempts s + 1"]
      by (simp add: sendUpdate_def catchE_def send_try_def raise_def Let_def)
    moreover have "s\<lparr>update_attempts := update_attempts s + 1, dns_update_request := Some um\<rparr> = s\<lparr>update_attempts := update_attempts s + 1\<rparr>"
      using p by (cases s) simp
    ultimately show ?thesis
      using sent_failed [of "update_attempts s + 1" s "Some um"] by simp
  next
    case (Inr tu)
    obtain task um' where "tu = (task, um')" by fastforce
    moreover have "events s NOP_EVT \<noteq> None"
      using nct_dict_event [OF assms(2) nct_events_defined(1)] .
    ultimately show ?thesis
      using Inr p sent_waiting [where s = s and um = um' and task = task]
      by (auto simp: sendUpdate_def catchE_def send_try_def postNextEvent_def lvs_isDefined_def Let_def)
  qed
qed

lemma build_and_send_sent:
  assumes "env_ok E" "nct_dict s" "dns_client s \<noteq> None" "current_server s \<noteq> None" "builds build s"
    and "unat (lease_expires_on (ncr s)) < time_limit"
  shows "\<exists>s'. build_and_send E build s = (Inr (), s') \<and> sent s s'"
proof (cases "dns_update_request s = None")
  case True
  show ?thesis
  proof (cases "build s")
    case (Pair r s1)
    consider um where "r = Inr ()" "s1 = s\<lparr>dns_update_request := Some um\<rparr>" | e where "r = Inl e" "s1 = s" "std_exception e"
      using assms(5) Pair by (auto simp: builds_def)
    then show ?thesis
    proof cases
      case 1
      have "\<exists>s'. sendUpdate E s1 = (Inr (), s') \<and> sent s1 s'"
        using assms 1 by (intro sendUpdate_sent) (auto simp: nct_dict_def)
      then show ?thesis
        using True Pair 1 sent_after_build by (auto simp: build_and_send_def)
    next
      case 2
      have eq: "s\<lparr>update_attempts := update_attempts s, dns_update_request := None\<rparr> = s"
        using True by (cases s) simp
      have "sent s (goto PROCESS_TRANS_FAILED_ST UPDATE_FAILED_EVT s)"
        using sent_failed [of "update_attempts s" s None] unfolding eq by simp
      then show ?thesis
        using 2 True Pair nct_transition_failed [OF assms(2) nct_events_defined(10)] log_request(1) [OF assms(1,6), of s]
        by (simp add: build_and_send_def thenE_def)
    qed
  qed
next
  case False
  then show ?thesis
    using sendUpdate_sent [OF assms(1-4)] by (auto simp: build_and_send_def)
qed

section \<open>One call of a handler\<close>

text \<open>
  \<open>A\<close> are the pairs of a state and an event that occur.  \<open>at_call\<close> holds when a handler is
  called; \<open>after\<close> is what the call leads to.
\<close>

definition derived_states :: "int set \<Rightarrow> int \<Rightarrow> bool" where
  "derived_states F R \<longleftrightarrow> (\<forall>st \<in> insert R F. NCT_DERIVED_STATE_MIN < st) \<and> R \<notin> F"

definition at_call :: "'m trans_env_scheme \<Rightarrow> int set \<Rightarrow> int \<Rightarrow> (int \<times> int) set \<Rightarrow> 'h nc_trans \<Rightarrow> bool" where
  "at_call E F R A s \<longleftrightarrow>
     trans_inv E F R s \<and> (curr_state s, next_event s) \<in> A \<and>
     (curr_state s \<in> insert R F \<and> next_event s \<noteq> IO_COMPLETED_EVT \<longrightarrow> may_send s) \<and>
     (next_event s = IO_COMPLETED_EVT \<longrightarrow> response_ready s)"

definition call_rank :: "int set \<Rightarrow> int \<Rightarrow> 'h nc_trans \<Rightarrow> nat" where
  "call_rank F R s =
     (if curr_state s = END_ST then 0
      else if curr_state s \<in> {PROCESS_TRANS_OK_ST, PROCESS_TRANS_FAILED_ST} then 1
      else if curr_state s \<in> insert R F then (if next_event s = IO_COMPLETED_EVT then 4 else 2)
      else if curr_state s \<in> {SELECTING_FWD_SERVER_ST, SELECTING_REV_SERVER_ST} then 3 else 4)"

text \<open>What a transaction works on, which no handler changes: the request up to its status, and the domains.\<close>

definition task :: "'h nc_trans \<Rightarrow> name_change_request \<times> ddns_domain option \<times> ddns_domain option" where
  "task s = ((ncr s)\<lparr>status := ST_NEW\<rparr>, forward_domain s, reverse_domain s)"

definition same_dict :: "'h nc_trans \<Rightarrow> 'h nc_trans \<Rightarrow> bool" where
  "same_dict s s' \<longleftrightarrow>
     task s' = task s \<and> events s' = events s \<and> states s' = states s \<and> dictionaries_initted s' = dictionaries_initted s"

definition after :: "'m trans_env_scheme \<Rightarrow> int set \<Rightarrow> int \<Rightarrow> (int \<times> int) set \<Rightarrow> 'h nc_trans \<Rightarrow> 'h nc_trans \<Rightarrow> bool" where
  "after E F R A s s' \<longleftrightarrow>
     same_dict s s' \<and> trans_inv E F R s' \<and>
     (if keeps_running s' then at_call E F R A s' \<and> call_rank F R s' < call_rank F R s else at_rest F R s')"

lemma goto_ext [simp]:
  "ncr (goto st ev s) = ncr s" "forward_domain (goto st ev s) = forward_domain s" "reverse_domain (goto st ev s) = reverse_domain s"
  "dns_client (goto st ev s) = dns_client s" "dns_update_request (goto st ev s) = dns_update_request s"
  "dns_update_status (goto st ev s) = dns_update_status s" "dns_update_response (goto st ev s) = dns_update_response s"
  "forward_change_completed (goto st ev s) = forward_change_completed s"
  "reverse_change_completed (goto st ev s) = reverse_change_completed s"
  "current_server (goto st ev s) = current_server s" "update_attempts (goto st ev s) = update_attempts s"
  "posted (goto st ev s) = posted s"
  by (simp_all add: goto_def)

lemma keeps_running_goto [simp]: "keeps_running (goto st ev s) \<longleftrightarrow> st \<noteq> END_ST \<and> ev \<noteq> NOP_EVT"
  by (simp add: keeps_running_def isModelDone_def)

lemma after_goto:
  assumes "same_dict s s1" "st \<noteq> END_ST" "ev \<noteq> NOP_EVT" "ev \<noteq> IO_COMPLETED_EVT" "(st, ev) \<in> A"
    and "trans_inv E F R (goto st ev s1)" "st \<in> insert R F \<Longrightarrow> may_send (goto st ev s1)"
    and "call_rank F R (goto st ev s1) < call_rank F R s"
  shows "after E F R A s (goto st ev s1)"
  using assms by (auto simp: after_def at_call_def same_dict_def task_def)

text \<open>Leaving for the state of a failed transaction is always possible.\<close>

lemma after_failed:
  assumes "same_dict s s1" "trans_inv E F R s" "safe_request E s1" "forward_domain s1 = forward_domain s"
    and "reverse_domain s1 = reverse_domain s" "status (ncr s1) = ST_PENDING" "update_attempts s1 \<le> MAX_UPDATE_TRIES_PER_SERVER"
    and "derived_states F R" "(PROCESS_TRANS_FAILED_ST, ev) \<in> A" "ev \<noteq> NOP_EVT" "ev \<noteq> IO_COMPLETED_EVT" "1 < call_rank F R s"
  shows "after E F R A s (goto PROCESS_TRANS_FAILED_ST ev s1)"
proof (rule after_goto [OF assms(1)])
  have "PROCESS_TRANS_FAILED_ST \<notin> insert R F" "PROCESS_TRANS_FAILED_ST \<notin> insert SELECTING_FWD_SERVER_ST F"
    "PROCESS_TRANS_FAILED_ST \<notin> {SELECTING_REV_SERVER_ST, R}" "PROCESS_TRANS_FAILED_ST \<notin> {SELECTING_REV_SERVER_ST, R, PROCESS_TRANS_OK_ST}"
    using assms(8) by (auto simp: derived_states_def nct_values)
  then show "trans_inv E F R (goto PROCESS_TRANS_FAILED_ST ev s1)"
    using assms(2-7) by (auto simp: trans_inv_def safe_request_def nct_values)
  show "PROCESS_TRANS_FAILED_ST \<in> insert R F \<Longrightarrow> may_send (goto PROCESS_TRANS_FAILED_ST ev s1)"
    using \<open>PROCESS_TRANS_FAILED_ST \<notin> insert R F\<close> by blast
qed (use assms in \<open>auto simp: call_rank_def nct_values\<close>)

subsection \<open>Sending\<close>

definition entered :: "'h nc_trans \<Rightarrow> 'h nc_trans" where
  "entered s =
     (let s1 = s\<lparr>on_entry_flag := False\<rparr> in if on_entry_flag s then clearDnsUpdateRequest s1 else s1)"

lemma clear_on_entry_entered: "clear_on_entry s = (Inr (), entered s)"
  by (simp add: clear_on_entry_def bindE_def doOnEntry_def modifyE_def ret_def entered_def Let_def)

lemma entered_simps [simp]:
  "curr_state (entered s) = curr_state s" "next_event (entered s) = next_event s" "events (entered s) = events s"
  "states (entered s) = states s" "dictionaries_initted (entered s) = dictionaries_initted s" "ncr (entered s) = ncr s"
  "forward_domain (entered s) = forward_domain s" "reverse_domain (entered s) = reverse_domain s"
  "dns_client (entered s) = dns_client s" "current_server (entered s) = current_server s"
  "dns_update_status (entered s) = dns_update_status s" "dns_update_response (entered s) = dns_update_response s"
  "forward_change_completed (entered s) = forward_change_completed s"
  "reverse_change_completed (entered s) = reverse_change_completed s"
  "posted (entered s) = posted s" "\<not> on_entry_flag (entered s)"
  by (simp_all add: entered_def clearDnsUpdateRequest_def Let_def)

lemma entered_attempts:
  "update_attempts (entered s) \<le> update_attempts s" "may_send s \<Longrightarrow> update_attempts (entered s) < MAX_UPDATE_TRIES_PER_SERVER"
  by (auto simp: entered_def clearDnsUpdateRequest_def may_send_def Let_def MAX_UPDATE_TRIES_PER_SERVER_def)

lemma same_dict_entered: "same_dict s (entered s)"
  by (simp add: same_dict_def task_def)

lemma nct_dict_entered [simp]: "nct_dict (entered s) = nct_dict s"
  by (simp add: nct_dict_def)

lemma safe_request_entered [simp]: "safe_request E (entered s) = safe_request E s"
  by (simp add: safe_request_def)

lemma trans_inv_entered: "trans_inv E F R s \<Longrightarrow> trans_inv E F R (entered s)"
  using entered_attempts(1) [of s] by (auto simp: trans_inv_def)

lemma sent_after:
  assumes "at_call E F R A s" "derived_states F R" "(PROCESS_TRANS_FAILED_ST, UPDATE_FAILED_EVT) \<in> A"
    and "curr_state s \<in> insert R F" "next_event s \<noteq> IO_COMPLETED_EVT" "sent (entered s) s'"
  shows "after E F R A s s'"
proof -
  have inv: "trans_inv E F R s" and n: "update_attempts (entered s) < MAX_UPDATE_TRIES_PER_SERVER"
    using assms(1,4,5) entered_attempts(2) by (auto simp: at_call_def)
  have cs: "curr_state s \<noteq> END_ST" "1 < call_rank F R s"
    using assms(2,4) by (auto simp: derived_states_def call_rank_def nct_values)
  consider um task where "s' = (entered s)\<lparr>update_attempts := update_attempts (entered s) + 1, posted := posted (entered s) @ [task],
        dns_update_request := Some um, last_event := next_event (entered s), next_event := NOP_EVT\<rparr>"
    | um k where "k \<le> update_attempts (entered s) + 1"
        "s' = goto PROCESS_TRANS_FAILED_ST UPDATE_FAILED_EVT ((entered s)\<lparr>update_attempts := k, dns_update_request := um\<rparr>)"
    using assms(6) unfolding sent_def by blast
  then show ?thesis
  proof cases
    case 1
    have "trans_inv E F R s'"
      using inv n unfolding 1 by (auto simp: trans_inv_def safe_request_def)
    moreover have "at_rest F R s'" "\<not> keeps_running s'" "same_dict s s'"
      using assms(4) unfolding 1 by (auto simp: at_rest_def keeps_running_def same_dict_def task_def)
    ultimately show ?thesis
      by (simp add: after_def)
  next
    case 2
    show ?thesis
      unfolding 2(2)
      using inv n 2(1) cs assms(2,3)
      by (intro after_failed) (auto simp: same_dict_def task_def trans_inv_def safe_request_def nct_values)
  qed
qed

lemma send_case_after:
  assumes "at_call E F R A s" "derived_states F R" "(PROCESS_TRANS_FAILED_ST, UPDATE_FAILED_EVT) \<in> A"
    and "curr_state s \<in> insert R F" "next_event s \<noteq> IO_COMPLETED_EVT" "nct_dict s" "builds build (entered s)"
  shows "\<exists>s'. build_and_send E build (entered s) = (Inr (), s') \<and> after E F R A s s'"
proof -
  have "\<exists>s'. build_and_send E build (entered s) = (Inr (), s') \<and> sent (entered s) s'"
  proof (rule build_and_send_sent)
    have inv: "trans_inv E F R s"
      using assms(1) by (simp add: at_call_def)
    then show "env_ok E" "unat (lease_expires_on (ncr (entered s))) < time_limit"
      by (simp_all add: trans_inv_def safe_request_def)
    show "dns_client (entered s) \<noteq> None" "current_server (entered s) \<noteq> None"
      using inv assms(4) unfolding trans_inv_def by auto
  qed (use assms in auto)
  then show ?thesis
    using sent_after assms(1-5) by blast
qed

subsection \<open>A completed exchange\<close>

lemma log_server_ok: "current_server s \<noteq> None \<Longrightarrow> log_server s = (Inr (), s)"
  by (auto simp: log_server_def ret_def)

lemma retry_after:
  assumes "at_call E F R A s" "derived_states F R" "nct_dict s" "states s (curr_state s) \<noteq> None"
    and "curr_state s \<in> insert R F" "next_event s = IO_COMPLETED_EVT" "(curr_state s, SERVER_SELECTED_EVT) \<in> A"
    and "(fail_to, SERVER_IO_ERROR_EVT) \<in> A"
    and "fail_to = PROCESS_TRANS_FAILED_ST \<or> fail_to = SELECTING_FWD_SERVER_ST \<and> curr_state s \<in> F \<or>
      fail_to = SELECTING_REV_SERVER_ST \<and> curr_state s = R"
  shows "\<exists>s'. retryTransition fail_to (entered s) = (Inr (), s') \<and> after E F R A s s'"
proof -
  have inv: "trans_inv E F R (entered s)" "trans_inv E F R s"
    using assms(1) trans_inv_entered by (auto simp: at_call_def)
  have st: "curr_state s \<noteq> END_ST" "call_rank F R s = 4" "fail_to \<notin> insert R F" "fail_to \<noteq> END_ST" "states s fail_to \<noteq> None"
    using assms(2,3,5,6,9) by (auto simp: derived_states_def call_rank_def nct_dict_def nct_values)
  show ?thesis
  proof (cases "update_attempts (entered s) < MAX_UPDATE_TRIES_PER_SERVER")
    case True
    have "trans_inv E F R (goto (curr_state s) SERVER_SELECTED_EVT (entered s))"
      using inv(1) by (auto simp: trans_inv_def safe_request_def)
    then have "after E F R A s (goto (curr_state s) SERVER_SELECTED_EVT (entered s))"
      using True assms(2,5,7) st
      by (intro after_goto) (auto simp: same_dict_def task_def may_send_def call_rank_def derived_states_def nct_values)
    then show ?thesis
      using True assms(3,4) nct_transition [of "entered s" SERVER_SELECTED_EVT "curr_state s"] nct_events_defined(5)
      by (simp add: retryTransition_def)
  next
    case False
    have ft: "fail_to \<noteq> PROCESS_TRANS_OK_ST" "fail_to = SELECTING_FWD_SERVER_ST \<Longrightarrow> curr_state s \<in> F"
      "fail_to = SELECTING_REV_SERVER_ST \<Longrightarrow> curr_state s = R"
      using assms(9) by (auto simp: nct_values)
    have "fail_to = SELECTING_FWD_SERVER_ST \<Longrightarrow> forward_domain s \<noteq> None"
      using inv(2) ft(2) unfolding trans_inv_def by blast
    moreover have "fail_to = SELECTING_REV_SERVER_ST \<Longrightarrow>
      reverse_domain s \<noteq> None \<and> (forward_domain s \<noteq> None \<longrightarrow> forward_change_completed s)"
      using inv(2) ft(3) unfolding trans_inv_def by blast
    ultimately have "trans_inv E F R (goto fail_to SERVER_IO_ERROR_EVT (entered s))"
      using inv(1) st ft(1) unfolding trans_inv_def by (simp add: safe_request_def)
    then have "after E F R A s (goto fail_to SERVER_IO_ERROR_EVT (entered s))"
      using assms(8,9) st by (intro after_goto) (auto simp: same_dict_def task_def call_rank_def nct_values)
    then show ?thesis
      using False st assms(3) nct_transition [of "entered s" SERVER_IO_ERROR_EVT fail_to] nct_events_defined(6)
      by (simp add: retryTransition_def)
  qed
qed

lemma evt_distinct [simp]:
  "UPDATE_FAILED_EVT \<noteq> NOP_EVT" "UPDATE_FAILED_EVT \<noteq> IO_COMPLETED_EVT" "UPDATE_OK_EVT \<noteq> NOP_EVT" "UPDATE_OK_EVT \<noteq> IO_COMPLETED_EVT"
  "SELECT_SERVER_EVT \<noteq> NOP_EVT" "SELECT_SERVER_EVT \<noteq> IO_COMPLETED_EVT" "SERVER_SELECTED_EVT \<noteq> NOP_EVT"
  "SERVER_SELECTED_EVT \<noteq> IO_COMPLETED_EVT" "SERVER_IO_ERROR_EVT \<noteq> NOP_EVT" "SERVER_IO_ERROR_EVT \<noteq> IO_COMPLETED_EVT"
  "NO_MORE_SERVERS_EVT \<noteq> NOP_EVT" "NO_MORE_SERVERS_EVT \<noteq> IO_COMPLETED_EVT" "IO_COMPLETED_EVT \<noteq> SERVER_SELECTED_EVT" "IO_COMPLETED_EVT \<noteq> UPDATE_OK_EVT"
  by (simp_all add: nct_values)

lemma derived_distinct:
  assumes "derived_states F R" "st \<in> insert R F"
  shows "st \<notin> {END_ST, READY_ST, SELECTING_FWD_SERVER_ST, SELECTING_REV_SERVER_ST, PROCESS_TRANS_OK_ST, PROCESS_TRANS_FAILED_ST}"
  using assms by (auto simp: derived_states_def nct_values)

lemma io_call:
  assumes "trans_inv E F R s" "derived_states F R" "curr_state s \<in> insert R F" "next_event s = IO_COMPLETED_EVT"
  shows "call_rank F R s = 4" "status (ncr s) = ST_PENDING" "current_server s \<noteq> None" "dns_client s \<noteq> None"
    "safe_request E s" "update_attempts s \<le> MAX_UPDATE_TRIES_PER_SERVER"
proof -
  note d = derived_distinct [OF assms(2,3)]
  show "call_rank F R s = 4"
    using d assms(3,4) by (simp add: call_rank_def)
  show "status (ncr s) = ST_PENDING" "current_server s \<noteq> None" "dns_client s \<noteq> None" "safe_request E s"
    "update_attempts s \<le> MAX_UPDATE_TRIES_PER_SERVER"
    using assms(1,3) d unfolding trans_inv_def by blast+
qed

lemma rejected_after:
  assumes "at_call E F R A s" "derived_states F R" "nct_dict s" "curr_state s \<in> insert R F" "next_event s = IO_COMPLETED_EVT"
    and "(PROCESS_TRANS_FAILED_ST, UPDATE_FAILED_EVT) \<in> A"
  shows "\<exists>s'. rejected (entered s) = (Inr (), s') \<and> after E F R A s s'"
proof -
  have inv: "trans_inv E F R s"
    using assms(1) by (simp add: at_call_def)
  note io = io_call [OF inv assms(2,4,5)]
  have "after E F R A s (goto PROCESS_TRANS_FAILED_ST UPDATE_FAILED_EVT (entered s))"
    using inv io assms(2,6) entered_attempts(1) [of s] by (intro after_failed) (simp_all add: same_dict_entered)
  moreover have "rejected (entered s) = (Inr (), goto PROCESS_TRANS_FAILED_ST UPDATE_FAILED_EVT (entered s))"
    using io assms(3) nct_transition_failed [of "entered s" UPDATE_FAILED_EVT] nct_events_defined(10)
    by (simp add: rejected_def thenE_def log_server_ok)
  ultimately show ?thesis by blast
qed

text \<open>From one state that sends a forward update to another: the request is built anew.\<close>

lemma advance_after:
  assumes "at_call E F R A s" "derived_states F R" "curr_state s \<in> F" "next_event s = IO_COMPLETED_EVT"
    and "st \<in> F" "st \<noteq> curr_state s" "(st, ev) \<in> A" "ev \<noteq> NOP_EVT" "ev \<noteq> IO_COMPLETED_EVT"
  shows "after E F R A s (goto st ev (entered s))"
proof -
  have "trans_inv E F R (entered s)"
    using assms(1) trans_inv_entered by (auto simp: at_call_def)
  moreover have "st \<noteq> END_ST" "st \<noteq> R" "st \<notin> {PROCESS_TRANS_OK_ST, PROCESS_TRANS_FAILED_ST, SELECTING_FWD_SERVER_ST, SELECTING_REV_SERVER_ST}"
    "curr_state s \<notin> {END_ST, PROCESS_TRANS_OK_ST, PROCESS_TRANS_FAILED_ST}"
    using assms(2,3,5) by (auto simp: derived_states_def nct_values)
  ultimately have "trans_inv E F R (goto st ev (entered s))" "call_rank F R (goto st ev (entered s)) < call_rank F R s"
    using assms(3-5,9) unfolding trans_inv_def by (simp_all add: safe_request_def call_rank_def)
  then show ?thesis
    using assms(6-9) \<open>st \<noteq> END_ST\<close> by (intro after_goto) (auto simp: same_dict_entered may_send_def)
qed

text \<open>A change that has been made.\<close>

lemma forward_done_after:
  assumes "at_call E F R A s" "derived_states F R" "nct_dict s" "curr_state s \<in> F" "next_event s = IO_COMPLETED_EVT"
    and "(SELECTING_REV_SERVER_ST, SELECT_SERVER_EVT) \<in> A" "(PROCESS_TRANS_OK_ST, UPDATE_OK_EVT) \<in> A"
  shows "\<exists>s'. forward_done (entered s) = (Inr (), s') \<and> after E F R A s s'"
proof -
  let ?s = "(entered s)\<lparr>forward_change_completed := True\<rparr>"
  have inv: "trans_inv E F R (entered s)"
    using assms(1) trans_inv_entered by (auto simp: at_call_def)
  have r: "call_rank F R s = 4" "status (ncr s) = ST_PENDING"
    using io_call(1,2) [of E F R s] assms(1,2,4,5) by (simp_all add: at_call_def)
  have d: "nct_dict ?s" "same_dict s ?s"
    using assms(3) by (simp_all add: nct_dict_def same_dict_def task_def)
  have distinct: "SELECTING_REV_SERVER_ST \<notin> insert R F" "PROCESS_TRANS_OK_ST \<notin> insert R F" "SELECTING_REV_SERVER_ST \<noteq> SELECTING_FWD_SERVER_ST"
    "PROCESS_TRANS_OK_ST \<noteq> SELECTING_FWD_SERVER_ST" "PROCESS_TRANS_OK_ST \<noteq> SELECTING_REV_SERVER_ST"
    "SELECTING_REV_SERVER_ST \<notin> {END_ST, PROCESS_TRANS_FAILED_ST}" "PROCESS_TRANS_OK_ST \<noteq> END_ST"
    using assms(2) by (auto simp: derived_states_def nct_values)
  show ?thesis
  proof (cases "reverse_domain s = None")
    case False
    have "trans_inv E F R (goto SELECTING_REV_SERVER_ST SELECT_SERVER_EVT ?s)"
      using inv False distinct r unfolding trans_inv_def by (simp add: safe_request_def)
    then have "after E F R A s (goto SELECTING_REV_SERVER_ST SELECT_SERVER_EVT ?s)"
      using assms(6) d(2) distinct r by (intro after_goto) (auto simp: call_rank_def nct_values)
    moreover have "forward_done (entered s) = (Inr (), goto SELECTING_REV_SERVER_ST SELECT_SERVER_EVT ?s)"
      using False d nct_transition [OF d(1) nct_events_defined(4), of SELECTING_REV_SERVER_ST]
      by (simp add: forward_done_def nct_dict_def)
    ultimately show ?thesis by blast
  next
    case True
    have "trans_inv E F R (goto PROCESS_TRANS_OK_ST UPDATE_OK_EVT ?s)"
      using inv True distinct r unfolding trans_inv_def by (simp add: safe_request_def)
    then have "after E F R A s (goto PROCESS_TRANS_OK_ST UPDATE_OK_EVT ?s)"
      using assms(7) d(2) distinct r by (intro after_goto) (auto simp: call_rank_def nct_values)
    moreover have "forward_done (entered s) = (Inr (), goto PROCESS_TRANS_OK_ST UPDATE_OK_EVT ?s)"
      using True d nct_transition [OF d(1) nct_events_defined(9), of PROCESS_TRANS_OK_ST]
      by (simp add: forward_done_def nct_dict_def)
    ultimately show ?thesis by blast
  qed
qed

lemma reverse_done_after:
  assumes "at_call E F R A s" "derived_states F R" "nct_dict s" "curr_state s = R" "next_event s = IO_COMPLETED_EVT"
    and "(PROCESS_TRANS_OK_ST, UPDATE_OK_EVT) \<in> A"
  shows "\<exists>s'. reverse_done (entered s) = (Inr (), s') \<and> after E F R A s s'"
proof -
  let ?s = "(entered s)\<lparr>reverse_change_completed := True\<rparr>"
  have inv: "trans_inv E F R (entered s)"
    using assms(1) trans_inv_entered by (auto simp: at_call_def)
  have r: "call_rank F R s = 4" "status (ncr s) = ST_PENDING"
    using io_call(1,2) [of E F R s] assms(1,2,4,5) by (simp_all add: at_call_def)
  have d: "nct_dict ?s" "same_dict s ?s"
    using assms(3) by (simp_all add: nct_dict_def same_dict_def task_def)
  have distinct: "PROCESS_TRANS_OK_ST \<notin> insert R F"
    "PROCESS_TRANS_OK_ST \<noteq> SELECTING_FWD_SERVER_ST" "PROCESS_TRANS_OK_ST \<noteq> SELECTING_REV_SERVER_ST" "PROCESS_TRANS_OK_ST \<noteq> END_ST"
    using assms(2) by (auto simp: derived_states_def nct_values)
  have "trans_inv E F R (goto PROCESS_TRANS_OK_ST UPDATE_OK_EVT ?s)"
    using inv assms(4) distinct r unfolding trans_inv_def by (simp add: safe_request_def)
  then have "after E F R A s (goto PROCESS_TRANS_OK_ST UPDATE_OK_EVT ?s)"
    using assms(6) d(2) distinct r by (intro after_goto) (auto simp: call_rank_def nct_values)
  moreover have "reverse_done (entered s) = (Inr (), goto PROCESS_TRANS_OK_ST UPDATE_OK_EVT ?s)"
    using d nct_transition [OF d(1) nct_events_defined(9), of PROCESS_TRANS_OK_ST]
    by (simp add: reverse_done_def nct_dict_def)
  ultimately show ?thesis by blast
qed

lemma response_rcode_ok:
  "response_ready s \<Longrightarrow> dns_update_status s = SUCCESS \<Longrightarrow> \<exists>c. response_rcode s = (Inr c, s)"
  by (auto simp: response_ready_def response_rcode_def liftS_def)

lemma switch_status_after:
  assumes "at_call E F R A s" "derived_states F R" "nct_dict s" "states s (curr_state s) \<noteq> None"
    and "curr_state s \<in> insert R F" "next_event s = IO_COMPLETED_EVT" "(curr_state s, SERVER_SELECTED_EVT) \<in> A"
    and "(PROCESS_TRANS_FAILED_ST, UPDATE_FAILED_EVT) \<in> A" "(fail_to, SERVER_IO_ERROR_EVT) \<in> A"
    and "fail_to = PROCESS_TRANS_FAILED_ST \<or> fail_to = SELECTING_FWD_SERVER_ST \<and> curr_state s \<in> F \<or>
      fail_to = SELECTING_REV_SERVER_ST \<and> curr_state s = R"
    and success: "\<And>c. response_rcode (entered s) = (Inr c, entered s) \<Longrightarrow>
      \<exists>s'. on_success (entered s) = (Inr (), s') \<and> after E F R A s s'"
  shows "\<exists>s'. switch_status on_success fail_to (entered s) = (Inr (), s') \<and> after E F R A s s'"
proof -
  have log: "log_server (entered s) = (Inr (), entered s)"
    using io_call(3) [of E F R s] assms(1,2,5,6) by (simp add: log_server_ok at_call_def)
  have "response_ready (entered s)"
    using assms(1,6) by (simp add: at_call_def response_ready_def)
  then show ?thesis
    using success response_rcode_ok [of "entered s"] rejected_after [OF assms(1,2,3,5,6,8)] retry_after [OF assms(1-7,9,10)] log
    by (cases "dns_update_status s") (auto simp: switch_status_def thenE_def rejected_def)
qed

subsection \<open>Selecting a server\<close>

lemma DNSClient_ok: "DNSClient None UDP = Inr \<lparr>cl_proto = UDP\<rparr>"
  by (simp add: DNSClient_def)

text \<open>The server list does not matter: there is a next server, or the transaction fails.\<close>

lemma selectNextServer_cases:
  "(\<exists>srv c. selectNextServer s = (Inr True, s\<lparr>current_server := Some srv, dns_update_response := None, dns_client := Some c,
      next_server_pos := next_server_pos s + 1\<rparr>)) \<or> selectNextServer s = (Inr False, s)"
  by (auto simp: selectNextServer_def DNSClient_ok Let_def split: option.splits)

definition selecting :: "int set \<Rightarrow> int \<Rightarrow> int \<Rightarrow> int \<Rightarrow> bool" where
  "selecting F R st nxt \<longleftrightarrow>
     st = SELECTING_FWD_SERVER_ST \<and> nxt \<in> F \<or> st = SELECTING_REV_SERVER_ST \<and> nxt = R"

lemma selected_after:
  assumes "at_call E F R A s" "derived_states F R" "selecting F R (curr_state s) nxt" "(nxt, SERVER_SELECTED_EVT) \<in> A"
    and "(PROCESS_TRANS_FAILED_ST, NO_MORE_SERVERS_EVT) \<in> A" "nct_dict s" "states s nxt \<noteq> None"
    and s1: "s1 = s \<or> s1 = s\<lparr>current_server_list := l, next_server_pos := 0, current_server := None\<rparr>"
  shows "\<exists>s'. bindE selectNextServer (\<lambda>b. if b then transition nxt SERVER_SELECTED_EVT
      else transition PROCESS_TRANS_FAILED_ST NO_MORE_SERVERS_EVT) s1 = (Inr (), s') \<and> after E F R A s s'"
proof -
  have inv: "trans_inv E F R s"
    using assms(1) by (simp add: at_call_def)
  have nx: "nxt \<in> insert R F"
    using assms(3) by (auto simp: selecting_def)
  note nd = derived_distinct [OF assms(2) nx]
  have cs: "curr_state s \<in> {SELECTING_FWD_SERVER_ST, SELECTING_REV_SERVER_ST}" "curr_state s \<noteq> END_ST"
    using assms(3) by (auto simp: selecting_def nct_values)
  then have cn: "curr_state s \<noteq> nxt" "curr_state s \<notin> insert R F"
    using derived_distinct [OF assms(2), of "curr_state s"] nd by auto
  have rank: "call_rank F R s = 3"
    using cs cn by (auto simp: call_rank_def nct_values)
  have pend: "status (ncr s) = ST_PENDING" "safe_request E s" "update_attempts s \<le> MAX_UPDATE_TRIES_PER_SERVER"
    using inv cs(2) unfolding trans_inv_def by blast+
  have d1: "nct_dict s1" "same_dict s s1"
    using assms(6) s1 by (auto simp: nct_dict_def same_dict_def task_def)
  consider srv c where "selectNextServer s1 = (Inr True, s1\<lparr>current_server := Some srv, dns_update_response := None,
        dns_client := Some c, next_server_pos := next_server_pos s1 + 1\<rparr>)"
    | "selectNextServer s1 = (Inr False, s1)"
    using selectNextServer_cases [of s1] by blast
  then show ?thesis
  proof cases
    case 1
    define s2 where "s2 = s1\<lparr>current_server := Some srv, dns_update_response := None, dns_client := Some c,
      next_server_pos := next_server_pos s1 + 1\<rparr>"
    have d2: "nct_dict s2" "same_dict s s2" "states s2 nxt \<noteq> None"
      using d1 assms(7) by (auto simp: s2_def nct_dict_def same_dict_def task_def)
    have f: "ncr s2 = ncr s" "forward_domain s2 = forward_domain s" "reverse_domain s2 = reverse_domain s"
      "forward_change_completed s2 = forward_change_completed s" "update_attempts s2 = update_attempts s"
      "current_server s2 \<noteq> None" "dns_client s2 \<noteq> None" "curr_state s2 = curr_state s"
      using s1 by (auto simp: s2_def)
    have "nxt \<in> F \<Longrightarrow> forward_domain s \<noteq> None" "nxt = R \<Longrightarrow> reverse_domain s \<noteq> None \<and> (forward_domain s \<noteq> None \<longrightarrow> forward_change_completed s)"
      using inv assms(2,3) unfolding trans_inv_def selecting_def derived_states_def by blast+
    then have "trans_inv E F R (goto nxt SERVER_SELECTED_EVT s2)"
      using inv pend f nd unfolding trans_inv_def safe_request_def by simp
    moreover have "call_rank F R (goto nxt SERVER_SELECTED_EVT s2) < call_rank F R s" "may_send (goto nxt SERVER_SELECTED_EVT s2)"
      using nd nx cn f rank by (auto simp: call_rank_def may_send_def)
    ultimately have "after E F R A s (goto nxt SERVER_SELECTED_EVT s2)"
      using assms(4) d2(2) nd by (intro after_goto) auto
    then show ?thesis
      using 1 nct_transition [OF d2(1) nct_events_defined(5), of nxt] d2(3) by (simp add: bindE_def s2_def)
  next
    case 2
    have "after E F R A s (goto PROCESS_TRANS_FAILED_ST NO_MORE_SERVERS_EVT s1)"
      using inv pend rank d1 assms(2,5) s1 by (intro after_failed) (auto simp: safe_request_def)
    then show ?thesis
      using 2 nct_transition_failed [OF d1(1) nct_events_defined(7)] by (simp add: bindE_def)
  qed
qed

lemma select_server_after:
  assumes "at_call E F R A s" "derived_states F R" "selecting F R (curr_state s) nxt" "(nxt, SERVER_SELECTED_EVT) \<in> A"
    and "(PROCESS_TRANS_FAILED_ST, NO_MORE_SERVERS_EVT) \<in> A" "nct_dict s" "states s nxt \<noteq> None"
    and "next_event s = SELECT_SERVER_EVT \<or> next_event s = SERVER_IO_ERROR_EVT" "domain \<noteq> None"
  shows "\<exists>s'. select_server wrong domain nxt s = (Inr (), s') \<and> after E F R A s s'"
proof -
  obtain d where d: "domain = Some d"
    using assms(9) by auto
  have "SELECT_SERVER_EVT \<noteq> SERVER_IO_ERROR_EVT"
    by (simp add: nct_values)
  with assms(8) show ?thesis
  proof (elim disjE)
    assume "next_event s = SELECT_SERVER_EVT"
    then have "select_server wrong domain nxt s = bindE selectNextServer (\<lambda>b. if b then transition nxt SERVER_SELECTED_EVT
        else transition PROCESS_TRANS_FAILED_ST NO_MORE_SERVERS_EVT)
        (s\<lparr>current_server_list := dom_servers d, next_server_pos := 0, current_server := None\<rparr>)"
      by (simp add: select_server_def thenE_def initServerSelection_def d)
    then show ?thesis
      using selected_after [OF assms(1-7) disjI2 [OF refl], of "dom_servers d"] by simp
  next
    assume "SELECT_SERVER_EVT \<noteq> SERVER_IO_ERROR_EVT" "next_event s = SERVER_IO_ERROR_EVT"
    then have "select_server wrong domain nxt s = bindE selectNextServer (\<lambda>b. if b then transition nxt SERVER_SELECTED_EVT
        else transition PROCESS_TRANS_FAILED_ST NO_MORE_SERVERS_EVT) s"
      by (simp add: select_server_def thenE_def ret_def)
    then show ?thesis
      using selected_after [OF assms(1-7) disjI1 [OF refl]] by simp
  qed
qed

subsection \<open>Ending\<close>

lemma log_inv:
  assumes "trans_inv E F R s"
  shows "log_text (ncr_toText E (ncr s)) s = (Inr (), s)"
    and "log_text (transactionOutcomeString E (setNcrStatus st s)) (setNcrStatus st s) = (Inr (), setNcrStatus st s)"
proof -
  have t: "env_ok E" "unat (lease_expires_on (ncr s)) < time_limit"
    using assms by (simp_all add: trans_inv_def safe_request_def)
  have "lease_expires_on (ncr (setNcrStatus st s)) = lease_expires_on (ncr s)"
    by (simp add: setNcrStatus_def)
  then show "log_text (ncr_toText E (ncr s)) s = (Inr (), s)"
    and "log_text (transactionOutcomeString E (setNcrStatus st s)) (setNcrStatus st s) = (Inr (), setNcrStatus st s)"
    using log_request t by metis+
qed

lemma end_after:
  assumes "at_call E F R A s" "derived_states F R" "nct_dict s" "curr_state s \<in> {PROCESS_TRANS_OK_ST, PROCESS_TRANS_FAILED_ST}"
    and "st = ST_COMPLETED \<and> curr_state s = PROCESS_TRANS_OK_ST \<or> st = ST_FAILED"
  shows "\<exists>s'. endModel (setNcrStatus st s) = (Inr (), s') \<and> after E F R A s s'"
proof -
  let ?s = "setNcrStatus st s"
  have inv: "trans_inv E F R s"
    using assms(1) by (simp add: at_call_def)
  have f: "forward_domain ?s = forward_domain s" "reverse_domain ?s = reverse_domain s" "fqdn (ncr ?s) = fqdn (ncr s)" "lease_expires_on (ncr ?s) = lease_expires_on (ncr s)"
    "status (ncr ?s) = st" "update_attempts ?s = update_attempts s" "forward_change_completed ?s = forward_change_completed s"
    "reverse_change_completed ?s = reverse_change_completed s"
    by (simp_all add: setNcrStatus_def)
  have d: "nct_dict ?s" "same_dict s ?s"
    using assms(3) by (auto simp: setNcrStatus_def nct_dict_def same_dict_def task_def)
  have distinct: "END_ST \<notin> insert R F" "END_ST \<notin> {SELECTING_FWD_SERVER_ST, SELECTING_REV_SERVER_ST, PROCESS_TRANS_OK_ST}"
    using derived_distinct [OF assms(2), of END_ST] by (auto simp: nct_values)
  have "trans_inv E F R (goto END_ST END_EVT ?s)"
    using inv f distinct unfolding trans_inv_def safe_request_def by simp
  moreover have "outcome_ok (goto END_ST END_EVT ?s)"
    using inv f assms(5) unfolding trans_inv_def outcome_ok_def by auto
  ultimately have "after E F R A s (goto END_ST END_EVT ?s)"
    using d(2) by (auto simp: after_def at_rest_def same_dict_def task_def)
  then show ?thesis
    using nct_transition [OF d(1) nct_events_defined(3), of END_ST] by (simp add: endModel_def)
qed

lemma ready_after:
  assumes "at_call E F R A s" "derived_states F R" "nct_dict s" "curr_state s = READY_ST"
    and "(SELECTING_FWD_SERVER_ST, SELECT_SERVER_EVT) \<in> A" "(SELECTING_REV_SERVER_ST, SELECT_SERVER_EVT) \<in> A"
  shows "forward_domain s \<noteq> None \<Longrightarrow> after E F R A s (goto SELECTING_FWD_SERVER_ST SELECT_SERVER_EVT s)"
    and "forward_domain s = None \<Longrightarrow> after E F R A s (goto SELECTING_REV_SERVER_ST SELECT_SERVER_EVT s)"
proof -
  have inv: "trans_inv E F R s"
    using assms(1) by (simp add: at_call_def)
  have distinct: "SELECTING_FWD_SERVER_ST \<notin> insert R F" "SELECTING_REV_SERVER_ST \<notin> insert R F" "READY_ST \<notin> insert R F"
    using derived_distinct [OF assms(2), of SELECTING_FWD_SERVER_ST] derived_distinct [OF assms(2), of SELECTING_REV_SERVER_ST]
      derived_distinct [OF assms(2), of READY_ST] by auto
  have base: "READY_ST \<notin> {END_ST, PROCESS_TRANS_OK_ST, PROCESS_TRANS_FAILED_ST, SELECTING_FWD_SERVER_ST, SELECTING_REV_SERVER_ST}"
    "SELECTING_FWD_SERVER_ST \<notin> {END_ST, PROCESS_TRANS_OK_ST, PROCESS_TRANS_FAILED_ST, SELECTING_REV_SERVER_ST}"
    "SELECTING_REV_SERVER_ST \<notin> {END_ST, PROCESS_TRANS_OK_ST, PROCESS_TRANS_FAILED_ST, SELECTING_FWD_SERVER_ST}"
    by (auto simp: nct_values)
  have rank: "call_rank F R s = 4"
    using base distinct assms(4) by (auto simp: call_rank_def)
  have "same_dict s s"
    by (simp add: same_dict_def task_def)
  then show "forward_domain s \<noteq> None \<Longrightarrow> after E F R A s (goto SELECTING_FWD_SERVER_ST SELECT_SERVER_EVT s)"
    "forward_domain s = None \<Longrightarrow> after E F R A s (goto SELECTING_REV_SERVER_ST SELECT_SERVER_EVT s)"
    using inv distinct base rank assms(4-6) unfolding trans_inv_def
    by (intro after_goto; simp add: trans_inv_def safe_request_def call_rank_def)+
qed

section \<open>Every run of a transaction\<close>

text \<open>When a handler is called, and when the loop has stopped; \<open>dict\<close> are the dictionaries of the derivation.\<close>

definition called :: "'m trans_env_scheme \<Rightarrow> int set \<Rightarrow> int \<Rightarrow> (int \<times> int) set \<Rightarrow> ('h nc_trans \<Rightarrow> bool) \<Rightarrow>
    name_change_request \<times> ddns_domain option \<times> ddns_domain option \<Rightarrow> 'h nc_trans \<Rightarrow> bool" where
  "called E F R A dict w s \<longleftrightarrow> at_call E F R A s \<and> dict s \<and> task s = w"

definition stopped :: "'m trans_env_scheme \<Rightarrow> int set \<Rightarrow> int \<Rightarrow> ('h nc_trans \<Rightarrow> bool) \<Rightarrow>
    name_change_request \<times> ddns_domain option \<times> ddns_domain option \<Rightarrow> 'h nc_trans \<Rightarrow> bool" where
  "stopped E F R dict w s \<longleftrightarrow> trans_inv E F R s \<and> at_rest F R s \<and> dict s \<and> task s = w"

text \<open>A transaction that has just been constructed for a request and domains that are fit for it.\<close>

definition fresh :: "'m trans_env_scheme \<Rightarrow> 'h nc_trans \<Rightarrow> bool" where
  "fresh E s \<longleftrightarrow>
     env_ok E \<and> safe_request E s \<and> (forward_domain s \<noteq> None \<or> reverse_domain s \<noteq> None) \<and>
     isModelNew s \<and> events s = Map.empty \<and> states s = Map.empty \<and> update_attempts s = 0"

lemma NameChangeTransaction_fresh:
  assumes "NameChangeTransaction io r fwd bwd = Inr s" "env_ok E" "safe_request E s" "fwd \<noteq> None \<or> bwd \<noteq> None"
  shows "fresh E s"
  using assms
  by (auto simp: NameChangeTransaction_def fresh_def StateModel_def isModelNew_def state_model.defs split: option.splits if_splits)

text \<open>
  The exchanges of a transaction complete one after the other; a transaction that is done gets
  no more of them.
\<close>

fun complete_all :: "'m trans_env_scheme \<Rightarrow> ('h, 'h nc_trans) sm_virtuals \<Rightarrow> (iofetch_result \<times> byte list) list \<Rightarrow> 'h nc_trans \<Rightarrow>
    ((d2_exn + unit) \<times> 'h nc_trans) option" where
  "complete_all E V [] s = Some (Inr (), s)"
| "complete_all E V ((r, bs) # rs) s =
     (if isModelDone s then Some (Inr (), s)
      else case client_complete E V r bs s of
             Some (Inr _, s') \<Rightarrow> complete_all E V rs s'
           | other \<Rightarrow> other)"

definition run_transaction :: "'m trans_env_scheme \<Rightarrow> ('h, 'h nc_trans) sm_virtuals \<Rightarrow> (iofetch_result \<times> byte list) list \<Rightarrow>
    'h nc_trans \<Rightarrow> ((d2_exn + unit) \<times> 'h nc_trans) option" where
  "run_transaction E V rs s =
     (case startTransaction V s of
        Some (Inr _, s') \<Rightarrow> complete_all E V rs s'
      | other \<Rightarrow> other)"

lemma um_fromWire_throws:
  assumes "env_ok E" "um_fromWire (parse_msg E) bs um = Inl e"
  shows "std_exception e"
  using assms
  by (auto simp: um_fromWire_def bindS_def env_ok_def Let_def validateResponse_def getOpcode_def getQRFlag_def getHeaderFlag_def
      um_getRRCount_def msg_getRRCount_def split: sum.splits if_splits option.splits list.splits)

text \<open>
  The contract between the base class and a derivation: the dictionaries it builds, and
  what a call of one of its handlers leads to.
\<close>

locale transaction =
  fixes E :: "'m trans_env_scheme"
    and F :: "int set"
    and R :: int
    and A :: "(int \<times> int) set"
    and V :: "('h, 'h nc_trans) sm_virtuals"
    and dict :: "'h nc_trans \<Rightarrow> bool"
    and w :: "name_change_request \<times> ddns_domain option \<times> ddns_domain option"
  assumes derived: "derived_states F R"
    and start_pair: "(READY_ST, START_EVT) \<in> A"
    and io_pairs: "st \<in> insert R F \<Longrightarrow> (st, IO_COMPLETED_EVT) \<in> A"
    and dict_nct: "dict s \<Longrightarrow> nct_dict s"
    and dict_same: "dict s \<Longrightarrow> same_dict s s' \<Longrightarrow> dict s'"
    and init: "isModelNew s \<Longrightarrow> events s = Map.empty \<Longrightarrow> states s = Map.empty \<Longrightarrow>
      \<exists>es ss. initDictionaries V s = (Inr (), s\<lparr>events := es, states := ss, dictionaries_initted := True\<rparr>) \<and>
        dict (s\<lparr>events := es, states := ss, dictionaries_initted := True\<rparr>)"
    and step: "at_call E F R A s \<Longrightarrow> dict s \<Longrightarrow> \<exists>s'. run_current V s = (Inr (), s') \<and> after E F R A s s'"

sublocale transaction \<subseteq> model_run V "called E F R A dict w" "stopped E F R dict w" "call_rank F R"
proof
  fix s
  assume "called E F R A dict w s"
  then obtain s' where s': "run_current V s = (Inr (), s')" "after E F R A s s'" "dict s" "task s = w"
    using step by (auto simp: called_def)
  then have "dict s'" "task s' = w"
    using dict_same by (auto simp: after_def same_dict_def)
  with s' show "\<exists>s'. run_current V s = (Inr (), s') \<and>
      (if keeps_running s' then called E F R A dict w s' \<and> call_rank F R s' < call_rank F R s else stopped E F R dict w s')"
    by (auto simp: after_def called_def stopped_def split: if_splits)
qed

context transaction
begin

lemma start_ends:
  assumes "fresh E s" "task s = w"
  shows "\<exists>s'. startTransaction V s = Some (Inr (), s') \<and> stopped E F R dict w s'"
proof -
  let ?s = "setNcrStatus ST_PENDING s"
  have q: "isModelNew ?s" "events ?s = Map.empty" "states ?s = Map.empty"
    using assms by (auto simp: fresh_def setNcrStatus_def isModelNew_def)
  obtain es ss where s1: "initDictionaries V ?s = (Inr (), ?s\<lparr>events := es, states := ss, dictionaries_initted := True\<rparr>)"
    "dict (?s\<lparr>events := es, states := ss, dictionaries_initted := True\<rparr>)"
    using init [OF q] by blast
  define s1 where "s1 = ?s\<lparr>events := es, states := ss, dictionaries_initted := True\<rparr>"
  note nd = dict_nct [OF s1(2), folded s1_def]
  obtain s2 where s2: "setState READY_ST s1 = (Inr (), s2)" "same_dict s1 s2" "curr_state s2 = READY_ST"
    "ncr s2 = ncr s1" "forward_domain s2 = forward_domain s1" "reverse_domain s2 = reverse_domain s1" "update_attempts s2 = 0"
    using nd assms by (auto simp: setState_def lvs_isDefined_def nct_dict_def same_dict_def task_def s1_def setNcrStatus_def fresh_def Let_def)
  have t2: "task s2 = w"
    using s2(2) assms(2) by (simp add: same_dict_def task_def s1_def setNcrStatus_def)
  have d2: "dict s2" "nct_dict s2"
    using dict_same [OF s1(2)] s2(2) dict_nct by (auto simp: s1_def)
  have n: "READY_ST \<notin> insert R F" "READY_ST \<notin> {END_ST, SELECTING_FWD_SERVER_ST, SELECTING_REV_SERVER_ST, PROCESS_TRANS_OK_ST}"
    "START_EVT \<noteq> IO_COMPLETED_EVT"
    using derived_distinct [OF derived, of READY_ST] by (auto simp: nct_values)
  have "status (ncr s2) = ST_PENDING" "env_ok E" "safe_request E s2" "forward_domain s2 \<noteq> None \<or> reverse_domain s2 \<noteq> None"
    using assms s2(4-6) by (auto simp: s1_def setNcrStatus_def fresh_def safe_request_def)
  then have "trans_inv E F R (s2\<lparr>last_event := next_event s2, next_event := START_EVT\<rparr>)"
    using s2(3,7) n unfolding trans_inv_def safe_request_def by simp
  then have "called E F R A dict w (s2\<lparr>last_event := next_event s2, next_event := START_EVT\<rparr>)"
    using n start_pair s2(3) dict_same [OF d2(1)] t2 by (simp add: called_def at_call_def same_dict_def task_def)
  moreover have "dictionaries_initted s2" "events s2 START_EVT \<noteq> None"
    using d2(2) nct_dict_event [OF d2(2) nct_events_defined(2)] by (simp_all add: nct_dict_def)
  ultimately have "\<exists>s'. runModel V START_EVT s2 = Some (Inr (), s') \<and> stopped E F R dict w s'"
    using runModel_ends by blast
  then show ?thesis
    using s1(1) s2(1) by (simp add: startTransaction_def startModel_def thenE_def s1_def)
qed

text \<open>The callback with a status whose response is there.\<close>

lemma callback_ends:
  assumes "stopped E F R dict w s" "curr_state s \<in> insert R F" "response_ready (setDnsUpdateStatus st s)"
  shows "\<exists>s'. trans_callback E V st s = Some (Inr (), s') \<and> stopped E F R dict w s'"
proof -
  let ?s = "setDnsUpdateStatus st s"
  have inv: "trans_inv E F R s" "dict s" and w: "task ?s = w"
    using assms(1) by (simp_all add: stopped_def task_def setDnsUpdateStatus_def)
  then have d: "dict (?s\<lparr>last_event := next_event ?s, next_event := IO_COMPLETED_EVT\<rparr>)" "nct_dict ?s"
    using dict_same [OF inv(2)] dict_nct [of ?s] by (simp_all add: same_dict_def task_def setDnsUpdateStatus_def)
  have srv: "current_server s \<noteq> None"
    using inv(1) assms(2) unfolding trans_inv_def by blast
  have "trans_inv E F R (?s\<lparr>last_event := next_event ?s, next_event := IO_COMPLETED_EVT\<rparr>)"
    using inv(1) unfolding trans_inv_def safe_request_def by (simp add: setDnsUpdateStatus_def)
  then have "called E F R A dict w (?s\<lparr>last_event := next_event ?s, next_event := IO_COMPLETED_EVT\<rparr>)"
    using d(1) w assms(2,3) io_pairs by (auto simp: called_def at_call_def setDnsUpdateStatus_def response_ready_def task_def)
  moreover have "dictionaries_initted ?s" "events ?s IO_COMPLETED_EVT \<noteq> None"
    using d(2) nct_dict_event [OF d(2) nct_events_defined(8)] by (simp_all add: nct_dict_def)
  ultimately have "\<exists>s'. runModel V IO_COMPLETED_EVT ?s = Some (Inr (), s') \<and> stopped E F R dict w s'"
    using runModel_ends by blast
  moreover have "\<exists>t. responseString E ?s = Inr t"
    using assms(3) by (auto simp: responseString_def response_ready_def split: dns_status.splits option.splits)
  ultimately show ?thesis
    using srv by (auto simp: trans_callback_def setDnsUpdateStatus_def Let_def)
qed

text \<open>Whatever an exchange ends with, octets that are no response included.\<close>

lemma complete_ends:
  assumes "stopped E F R dict w s" "curr_state s \<noteq> END_ST"
  shows "\<exists>s'. client_complete E V r bs s = Some (Inr (), s') \<and> stopped E F R dict w s'"
proof -
  have cs: "curr_state s \<in> insert R F"
    using assms by (auto simp: stopped_def at_rest_def)
  have env: "env_ok E"
    using assms(1) by (simp add: stopped_def trans_inv_def)
  have upd: "stopped E F R dict w (s\<lparr>dns_update_response := Some um\<rparr>)" for um
    using assms(1) dict_same [of s "s\<lparr>dns_update_response := Some um\<rparr>"]
    unfolding stopped_def trans_inv_def at_rest_def outcome_ok_def safe_request_def by (simp add: same_dict_def task_def)
  obtain um0 where um0: "D2UpdateMessage INBOUND = Inr um0"
    by (simp add: D2UpdateMessage_def)
  show ?thesis
  proof (cases "getStatus r = SUCCESS")
    case False
    then show ?thesis
      using callback_ends [OF assms(1) cs, of "getStatus r"] by (simp add: client_complete_def response_ready_def setDnsUpdateStatus_def)
  next
    case True
    show ?thesis
    proof (cases "um_fromWire (parse_msg E) bs um0")
      case (Inl e)
      have "std_exception e"
        using Inl env um_fromWire_throws by blast
      then show ?thesis
        using True um0 Inl callback_ends [OF upd, of _ INVALID_RESPONSE] cs
        by (simp add: client_complete_def response_ready_def setDnsUpdateStatus_def)
    next
      case (Inr um)
      have "m_rcode (um_message um) \<noteq> None"
        using um_fromWire_response [OF Inr] env unfolding env_ok_def by blast
      then have "\<exists>c. um_getRcode um = Inr c"
        by (auto simp: um_getRcode_def msg_getRcode_def)
      then show ?thesis
        using True um0 Inr callback_ends [OF upd, of _ SUCCESS] cs
        by (simp add: client_complete_def response_ready_def setDnsUpdateStatus_def)
    qed
  qed
qed

lemma complete_all_ends:
  assumes "stopped E F R dict w s"
  shows "\<exists>s'. complete_all E V rs s = Some (Inr (), s') \<and> stopped E F R dict w s'"
  using assms
proof (induction rs arbitrary: s)
  case (Cons x rs)
  obtain r bs where x: "x = (r, bs)"
    by fastforce
  show ?case
  proof (cases "curr_state s = END_ST")
    case False
    then obtain s1 where "client_complete E V r bs s = Some (Inr (), s1)" "stopped E F R dict w s1"
      using complete_ends [OF Cons.prems] by blast
    then show ?thesis
      using Cons.IH False by (simp add: x isModelDone_def)
  qed (use Cons.prems in \<open>simp add: x isModelDone_def\<close>)
qed simp

text \<open>The life of a transaction: it is started, and exchanges complete until it is done.\<close>

lemma transaction_runs:
  assumes "fresh E s" "task s = w"
  shows "\<exists>s'. run_transaction E V rs s = Some (Inr (), s') \<and> stopped E F R dict w s'"
proof -
  obtain s1 where "startTransaction V s = Some (Inr (), s1)" "stopped E F R dict w s1"
    using start_ends [OF assms] by blast
  then show ?thesis
    using complete_all_ends by (simp add: run_transaction_def)
qed

end

end
