(* ===== verification/D2_Add.thy ===== *)
theory D2_Add
  imports D2_Trans
begin

text \<open>
  \<^verbatim>\<open>NameAddTransaction\<close> (\<^verbatim>\<open>src/bin/d2/nc_add.cc\<close>): adding or replacing the DNS entries of a
  client, RFC 4703 sections 5.3 and 5.4.
\<close>

section \<open>States, events and dictionaries\<close>

definition ADDING_FWD_ADDRS_ST :: int where "ADDING_FWD_ADDRS_ST = NCT_DERIVED_STATE_MIN + 1"
definition REPLACING_FWD_ADDRS_ST :: int where "REPLACING_FWD_ADDRS_ST = NCT_DERIVED_STATE_MIN + 2"
definition REPLACING_REV_PTRS_ST :: int where "REPLACING_REV_PTRS_ST = NCT_DERIVED_STATE_MIN + 3"
definition FQDN_IN_USE_EVT :: int where "FQDN_IN_USE_EVT = NCT_DERIVED_EVENT_MIN + 1"
definition FQDN_NOT_IN_USE_EVT :: int where "FQDN_NOT_IN_USE_EVT = NCT_DERIVED_EVENT_MIN + 2"

lemmas add_values =
  ADDING_FWD_ADDRS_ST_def REPLACING_FWD_ADDRS_ST_def REPLACING_REV_PTRS_ST_def FQDN_IN_USE_EVT_def FQDN_NOT_IN_USE_EVT_def
  nct_values

datatype add_handler =
    add_nop
  | add_ready
  | add_selectingFwdServer
  | add_selectingRevServer
  | add_addingFwdAddrs
  | add_replacingFwdAddrs
  | add_replacingRevPtrs
  | add_processOk
  | add_processFailed

type_synonym add_trans = "add_handler nc_trans"
type_synonym 'a add_op = "(add_handler, 'a) trans_op"

definition NameAddTransaction :: "bool \<Rightarrow> name_change_request option \<Rightarrow> ddns_domain option \<Rightarrow> ddns_domain option \<Rightarrow>
    d2_exn + add_trans" where
  "NameAddTransaction io r fwd bwd =
     bindS (NameChangeTransaction io r fwd bwd) (\<lambda>s.
       if change_type (ncr s) \<noteq> CHG_ADD then Inl NameAddTransactionError else Inr s)"

definition add_defineEvents :: "unit add_op" where
  "add_defineEvents =
     thenE nct_defineEvents (thenE (defineEvent FQDN_IN_USE_EVT ''FQDN_IN_USE_EVT'')
       (defineEvent FQDN_NOT_IN_USE_EVT ''FQDN_NOT_IN_USE_EVT''))"

definition add_verifyEvents :: "unit add_op" where
  "add_verifyEvents =
     thenE nct_verifyEvents (thenE (getEvent FQDN_IN_USE_EVT) (thenE (getEvent FQDN_NOT_IN_USE_EVT) (ret ())))"

definition add_defineStates :: "unit add_op" where
  "add_defineStates =
     thenE (nct_defineStates add_nop) (thenE (defineState READY_ST ''READY_ST'' add_ready)
       (thenE (defineState SELECTING_FWD_SERVER_ST ''SELECTING_FWD_SERVER_ST'' add_selectingFwdServer)
       (thenE (defineState SELECTING_REV_SERVER_ST ''SELECTING_REV_SERVER_ST'' add_selectingRevServer)
       (thenE (defineState ADDING_FWD_ADDRS_ST ''ADDING_FWD_ADDRS_ST'' add_addingFwdAddrs)
       (thenE (defineState REPLACING_FWD_ADDRS_ST ''REPLACING_FWD_ADDRS_ST'' add_replacingFwdAddrs)
       (thenE (defineState REPLACING_REV_PTRS_ST ''REPLACING_REV_PTRS_ST'' add_replacingRevPtrs)
       (thenE (defineState PROCESS_TRANS_OK_ST ''PROCESS_TRANS_OK_ST'' add_processOk)
         (defineState PROCESS_TRANS_FAILED_ST ''PROCESS_TRANS_FAILED_ST'' add_processFailed))))))))"

definition add_verifyStates :: "unit add_op" where
  "add_verifyStates =
     thenE nct_verifyStates (thenE (getState ADDING_FWD_ADDRS_ST) (thenE (getState REPLACING_FWD_ADDRS_ST)
       (thenE (getState REPLACING_REV_PTRS_ST) (ret ()))))"

section \<open>Requests\<close>

definition buildAddFwdAddressRequest :: "'m trans_env_scheme \<Rightarrow> unit add_op" where
  "buildAddFwdAddressRequest E s =
     (case
        bindS (prepNewRequest (forward_domain s)) (\<lambda>request.
        bindS (lib (Name_text (fqdn (ncr s)) False)) (\<lambda>name.
        bindS (um_addRRset SECTION_PREREQUISITE (RRset name CLASS_NONE TYPE_ANY 0) request) (\<lambda>request.
        bindS (addLeaseAddressRdata E (ncr s) (RRset name CLASS_IN (getAddressRRType (ncr s)) (lease_length (ncr s)))) (\<lambda>update.
        bindS (um_addRRset SECTION_UPDATE update request) (\<lambda>request.
        bindS (addDhcidRdata (ncr s) (RRset name CLASS_IN TYPE_DHCID (lease_length (ncr s)))) (\<lambda>update.
          um_addRRset SECTION_UPDATE update request))))))
      of Inl e \<Rightarrow> raise e s
       | Inr request \<Rightarrow> (Inr (), setDnsUpdateRequest request s))"

definition buildReplaceFwdAddressRequest :: "'m trans_env_scheme \<Rightarrow> unit add_op" where
  "buildReplaceFwdAddressRequest E s =
     (case
        bindS (prepNewRequest (forward_domain s)) (\<lambda>request.
        bindS (lib (Name_text (fqdn (ncr s)) False)) (\<lambda>name.
        bindS (um_addRRset SECTION_PREREQUISITE (RRset name CLASS_ANY TYPE_ANY 0) request) (\<lambda>request.
        bindS (addDhcidRdata (ncr s) (RRset name CLASS_IN TYPE_DHCID 0)) (\<lambda>prereq.
        bindS (um_addRRset SECTION_PREREQUISITE prereq request) (\<lambda>request.
        bindS (um_addRRset SECTION_UPDATE (RRset name CLASS_ANY (getAddressRRType (ncr s)) 0) request) (\<lambda>request.
        bindS (addLeaseAddressRdata E (ncr s) (RRset name CLASS_IN (getAddressRRType (ncr s)) (lease_length (ncr s)))) (\<lambda>update.
          um_addRRset SECTION_UPDATE update request)))))))
      of Inl e \<Rightarrow> raise e s
       | Inr request \<Rightarrow> (Inr (), setDnsUpdateRequest request s))"

definition buildReplaceRevPtrsRequest :: "'m trans_env_scheme \<Rightarrow> unit add_op" where
  "buildReplaceRevPtrsRequest E s =
     (case
        bindS (prepNewRequest (reverse_domain s)) (\<lambda>request.
        bindS (reverseIpAddress E (getIpAddress E (ncr s))) (\<lambda>rev_addr.
        bindS (lib (Name_text rev_addr False)) (\<lambda>rev_ip.
        bindS (um_addRRset SECTION_UPDATE (RRset rev_ip CLASS_ANY TYPE_PTR 0) request) (\<lambda>request.
        bindS (um_addRRset SECTION_UPDATE (RRset rev_ip CLASS_ANY TYPE_DHCID 0) request) (\<lambda>request.
        bindS (addPtrRdata E (ncr s) (RRset rev_ip CLASS_IN TYPE_PTR (lease_length (ncr s)))) (\<lambda>update.
        bindS (um_addRRset SECTION_UPDATE update request) (\<lambda>request.
        bindS (addDhcidRdata (ncr s) (RRset rev_ip CLASS_IN TYPE_DHCID (lease_length (ncr s)))) (\<lambda>update.
          um_addRRset SECTION_UPDATE update request))))))))
      of Inl e \<Rightarrow> raise e s
       | Inr request \<Rightarrow> (Inr (), setDnsUpdateRequest request s))"

section \<open>Handlers\<close>

definition add_readyHandler :: "unit add_op" where
  "add_readyHandler s =
     (if next_event s = START_EVT then
        (if forward_domain s \<noteq> None then transition SELECTING_FWD_SERVER_ST SELECT_SERVER_EVT s
         else transition SELECTING_REV_SERVER_ST SELECT_SERVER_EVT s)
      else raise NameAddTransactionError s)"

definition add_selectingFwdServerHandler :: "unit add_op" where
  "add_selectingFwdServerHandler s = select_server NameAddTransactionError (forward_domain s) ADDING_FWD_ADDRS_ST s"

definition addingFwdAddrs_success :: "unit add_op" where
  "addingFwdAddrs_success =
     bindE response_rcode (\<lambda>rcode.
       if rcode = RCODE_NOERROR then forward_done
       else if rcode = RCODE_YXDOMAIN then transition REPLACING_FWD_ADDRS_ST FQDN_IN_USE_EVT
       else rejected)"

definition addingFwdAddrsHandler :: "'m trans_env_scheme \<Rightarrow> unit add_op" where
  "addingFwdAddrsHandler E =
     thenE clear_on_entry (\<lambda>s.
       if next_event s = SERVER_SELECTED_EVT then build_and_send E (buildAddFwdAddressRequest E) s
       else if next_event s = IO_COMPLETED_EVT then switch_status addingFwdAddrs_success SELECTING_FWD_SERVER_ST s
       else raise NameAddTransactionError s)"

definition replacingFwdAddrs_success :: "unit add_op" where
  "replacingFwdAddrs_success =
     bindE response_rcode (\<lambda>rcode.
       if rcode = RCODE_NOERROR then forward_done
       else if rcode = RCODE_NXDOMAIN then transition ADDING_FWD_ADDRS_ST SERVER_SELECTED_EVT
       else rejected)"

definition replacingFwdAddrsHandler :: "'m trans_env_scheme \<Rightarrow> unit add_op" where
  "replacingFwdAddrsHandler E =
     thenE clear_on_entry (\<lambda>s.
       if next_event s = FQDN_IN_USE_EVT \<or> next_event s = SERVER_SELECTED_EVT
       then build_and_send E (buildReplaceFwdAddressRequest E) s
       else if next_event s = IO_COMPLETED_EVT then switch_status replacingFwdAddrs_success SELECTING_FWD_SERVER_ST s
       else raise NameAddTransactionError s)"

definition add_selectingRevServerHandler :: "unit add_op" where
  "add_selectingRevServerHandler s = select_server NameAddTransactionError (reverse_domain s) REPLACING_REV_PTRS_ST s"

definition replacingRevPtrs_success :: "unit add_op" where
  "replacingRevPtrs_success =
     bindE response_rcode (\<lambda>rcode. if rcode = RCODE_NOERROR then reverse_done else rejected)"

definition replacingRevPtrsHandler :: "'m trans_env_scheme \<Rightarrow> unit add_op" where
  "replacingRevPtrsHandler E =
     thenE clear_on_entry (\<lambda>s.
       if next_event s = SERVER_SELECTED_EVT then build_and_send E (buildReplaceRevPtrsRequest E) s
       else if next_event s = IO_COMPLETED_EVT then switch_status replacingRevPtrs_success SELECTING_REV_SERVER_ST s
       else raise NameAddTransactionError s)"

definition processAddOkHandler :: "'m trans_env_scheme \<Rightarrow> unit add_op" where
  "processAddOkHandler E s =
     (if next_event s = UPDATE_OK_EVT then thenE (log_text (ncr_toText E (ncr s))) (\<lambda>s. endModel (setNcrStatus ST_COMPLETED s)) s
      else raise NameAddTransactionError s)"

definition processAddFailedHandler :: "'m trans_env_scheme \<Rightarrow> unit add_op" where
  "processAddFailedHandler E s =
     (if next_event s = UPDATE_FAILED_EVT \<or> next_event s = NO_MORE_SERVERS_EVT
      then (let s1 = setNcrStatus ST_FAILED s in thenE (log_text (transactionOutcomeString E s1)) endModel s1)
      else raise NameAddTransactionError s)"

fun add_run :: "'m trans_env_scheme \<Rightarrow> add_handler \<Rightarrow> unit add_op" where
  "add_run E add_nop = nopStateHandler"
| "add_run E add_ready = add_readyHandler"
| "add_run E add_selectingFwdServer = add_selectingFwdServerHandler"
| "add_run E add_selectingRevServer = add_selectingRevServerHandler"
| "add_run E add_addingFwdAddrs = addingFwdAddrsHandler E"
| "add_run E add_replacingFwdAddrs = replacingFwdAddrsHandler E"
| "add_run E add_replacingRevPtrs = replacingRevPtrsHandler E"
| "add_run E add_processOk = processAddOkHandler E"
| "add_run E add_processFailed = processAddFailedHandler E"

definition add_virtuals :: "'m trans_env_scheme \<Rightarrow> (add_handler, add_trans) sm_virtuals" where
  "add_virtuals E = \<lparr>v_defineEvents = add_defineEvents, v_verifyEvents = add_verifyEvents,
     v_defineStates = add_defineStates, v_verifyStates = add_verifyStates,
     v_onModelFailure = nct_onModelFailure, v_handler = add_run E\<rparr>"

section \<open>The dictionaries\<close>

definition add_events :: "unit lv_set" where
  "add_events = nct_events(FQDN_IN_USE_EVT \<mapsto> ev_entry FQDN_IN_USE_EVT ''FQDN_IN_USE_EVT'',
     FQDN_NOT_IN_USE_EVT \<mapsto> ev_entry FQDN_NOT_IN_USE_EVT ''FQDN_NOT_IN_USE_EVT'')"

definition add_states :: "add_handler state_set" where
  "add_states =
     [NEW_ST \<mapsto> st_entry NEW_ST ''NEW_ST'' add_nop, END_ST \<mapsto> st_entry END_ST ''END_ST'' add_nop,
      READY_ST \<mapsto> st_entry READY_ST ''READY_ST'' add_ready,
      SELECTING_FWD_SERVER_ST \<mapsto> st_entry SELECTING_FWD_SERVER_ST ''SELECTING_FWD_SERVER_ST'' add_selectingFwdServer,
      SELECTING_REV_SERVER_ST \<mapsto> st_entry SELECTING_REV_SERVER_ST ''SELECTING_REV_SERVER_ST'' add_selectingRevServer,
      ADDING_FWD_ADDRS_ST \<mapsto> st_entry ADDING_FWD_ADDRS_ST ''ADDING_FWD_ADDRS_ST'' add_addingFwdAddrs,
      REPLACING_FWD_ADDRS_ST \<mapsto> st_entry REPLACING_FWD_ADDRS_ST ''REPLACING_FWD_ADDRS_ST'' add_replacingFwdAddrs,
      REPLACING_REV_PTRS_ST \<mapsto> st_entry REPLACING_REV_PTRS_ST ''REPLACING_REV_PTRS_ST'' add_replacingRevPtrs,
      PROCESS_TRANS_OK_ST \<mapsto> st_entry PROCESS_TRANS_OK_ST ''PROCESS_TRANS_OK_ST'' add_processOk,
      PROCESS_TRANS_FAILED_ST \<mapsto> st_entry PROCESS_TRANS_FAILED_ST ''PROCESS_TRANS_FAILED_ST'' add_processFailed]"

definition add_dict :: "add_trans \<Rightarrow> bool" where
  "add_dict s \<longleftrightarrow> dictionaries_initted s \<and> events s = add_events \<and> states s = add_states"

lemma nct_events_le_add: "nct_events \<subseteq>\<^sub>m add_events"
  by (auto simp: add_events_def map_le_def nct_events_def add_values)

lemma add_states_simps:
  "add_states NEW_ST = Some (st_entry NEW_ST ''NEW_ST'' add_nop)"
  "add_states END_ST = Some (st_entry END_ST ''END_ST'' add_nop)"
  "add_states READY_ST = Some (st_entry READY_ST ''READY_ST'' add_ready)"
  "add_states SELECTING_FWD_SERVER_ST = Some (st_entry SELECTING_FWD_SERVER_ST ''SELECTING_FWD_SERVER_ST'' add_selectingFwdServer)"
  "add_states SELECTING_REV_SERVER_ST = Some (st_entry SELECTING_REV_SERVER_ST ''SELECTING_REV_SERVER_ST'' add_selectingRevServer)"
  "add_states ADDING_FWD_ADDRS_ST = Some (st_entry ADDING_FWD_ADDRS_ST ''ADDING_FWD_ADDRS_ST'' add_addingFwdAddrs)"
  "add_states REPLACING_FWD_ADDRS_ST = Some (st_entry REPLACING_FWD_ADDRS_ST ''REPLACING_FWD_ADDRS_ST'' add_replacingFwdAddrs)"
  "add_states REPLACING_REV_PTRS_ST = Some (st_entry REPLACING_REV_PTRS_ST ''REPLACING_REV_PTRS_ST'' add_replacingRevPtrs)"
  "add_states PROCESS_TRANS_OK_ST = Some (st_entry PROCESS_TRANS_OK_ST ''PROCESS_TRANS_OK_ST'' add_processOk)"
  "add_states PROCESS_TRANS_FAILED_ST = Some (st_entry PROCESS_TRANS_FAILED_ST ''PROCESS_TRANS_FAILED_ST'' add_processFailed)"
  by (simp_all add: add_states_def add_values)

lemma add_dict_nct: "add_dict s \<Longrightarrow> nct_dict s"
  using nct_events_le_add by (auto simp: add_dict_def nct_dict_def add_states_simps)

lemma add_defineStates_ok:
  assumes "isModelNew s" "states s = Map.empty"
  shows "add_defineStates s = (Inr (), s\<lparr>states := add_states\<rparr>)"
  using assms
  by (simp add: add_defineStates_def nct_defineStates_def sm_defineStates_def thenE_def defineState_ok add_states_def add_values)

lemma add_initDictionaries:
  assumes "isModelNew s" "events s = Map.empty" "states s = Map.empty"
  shows "initDictionaries (add_virtuals E) s =
    (Inr (), s\<lparr>events := add_events, states := add_states, dictionaries_initted := True\<rparr>)"
proof -
  have ev: "add_defineEvents s = (Inr (), s\<lparr>events := add_events\<rparr>)"
    using assms(1,2)
    by (simp add: add_defineEvents_def thenE_def nct_defineEvents_ok defineEvent_ok add_events_def nct_events_def add_values)
  have "events t = add_events \<Longrightarrow> add_verifyEvents t = (Inr (), t)" for t
    using nct_verifyEvents_ok [of t] nct_events_le_add
    by (simp add: add_verifyEvents_def thenE_def getEvent_ok ret_def add_events_def)
  moreover have "states t = add_states \<Longrightarrow> add_verifyStates t = (Inr (), t)" for t
    by (simp add: add_verifyStates_def nct_verifyStates_def sm_verifyStates_def thenE_def ret_def getState_ok add_states_simps)
  ultimately show ?thesis
    using ev assms add_defineStates_ok [of "s\<lparr>events := add_events\<rparr>"]
    by (simp add: initDictionaries_def add_virtuals_def as_StateModelError_def catchE_def thenE_def modifyE_def)
qed

section \<open>Every call of a handler\<close>

text \<open>The states that send a forward update, and the pairs of a state and an event that occur.\<close>

definition add_fwd :: "int set" where
  "add_fwd = {ADDING_FWD_ADDRS_ST, REPLACING_FWD_ADDRS_ST}"

definition add_calls :: "(int \<times> int) set" where
  "add_calls =
     {(READY_ST, START_EVT),
      (SELECTING_FWD_SERVER_ST, SELECT_SERVER_EVT), (SELECTING_FWD_SERVER_ST, SERVER_IO_ERROR_EVT),
      (ADDING_FWD_ADDRS_ST, SERVER_SELECTED_EVT), (ADDING_FWD_ADDRS_ST, IO_COMPLETED_EVT),
      (REPLACING_FWD_ADDRS_ST, FQDN_IN_USE_EVT), (REPLACING_FWD_ADDRS_ST, SERVER_SELECTED_EVT),
      (REPLACING_FWD_ADDRS_ST, IO_COMPLETED_EVT),
      (SELECTING_REV_SERVER_ST, SELECT_SERVER_EVT), (SELECTING_REV_SERVER_ST, SERVER_IO_ERROR_EVT),
      (REPLACING_REV_PTRS_ST, SERVER_SELECTED_EVT), (REPLACING_REV_PTRS_ST, IO_COMPLETED_EVT),
      (PROCESS_TRANS_OK_ST, UPDATE_OK_EVT),
      (PROCESS_TRANS_FAILED_ST, UPDATE_FAILED_EVT), (PROCESS_TRANS_FAILED_ST, NO_MORE_SERVERS_EVT)}"

lemma add_calls_mem:
  "(SELECTING_FWD_SERVER_ST, SELECT_SERVER_EVT) \<in> add_calls" "(SELECTING_FWD_SERVER_ST, SERVER_IO_ERROR_EVT) \<in> add_calls"
  "(SELECTING_REV_SERVER_ST, SELECT_SERVER_EVT) \<in> add_calls" "(SELECTING_REV_SERVER_ST, SERVER_IO_ERROR_EVT) \<in> add_calls"
  "(ADDING_FWD_ADDRS_ST, SERVER_SELECTED_EVT) \<in> add_calls" "(REPLACING_FWD_ADDRS_ST, FQDN_IN_USE_EVT) \<in> add_calls"
  "(REPLACING_FWD_ADDRS_ST, SERVER_SELECTED_EVT) \<in> add_calls" "(REPLACING_REV_PTRS_ST, SERVER_SELECTED_EVT) \<in> add_calls"
  "(PROCESS_TRANS_OK_ST, UPDATE_OK_EVT) \<in> add_calls" "(PROCESS_TRANS_FAILED_ST, UPDATE_FAILED_EVT) \<in> add_calls"
  "(PROCESS_TRANS_FAILED_ST, NO_MORE_SERVERS_EVT) \<in> add_calls"
  by (simp_all add: add_calls_def)

lemma add_derived: "derived_states add_fwd REPLACING_REV_PTRS_ST"
  by (simp add: derived_states_def add_fwd_def add_values)

abbreviation add_call :: "'m trans_env_scheme \<Rightarrow> add_trans \<Rightarrow> bool" where
  "add_call E \<equiv> at_call E add_fwd REPLACING_REV_PTRS_ST add_calls"

abbreviation add_after :: "'m trans_env_scheme \<Rightarrow> add_trans \<Rightarrow> add_trans \<Rightarrow> bool" where
  "add_after E \<equiv> after E add_fwd REPLACING_REV_PTRS_ST add_calls"

subsection \<open>The builders\<close>

lemma buildAddFwd_builds: "safe_request E s \<Longrightarrow> builds (buildAddFwdAddressRequest E) s"
  unfolding builds_def buildAddFwdAddressRequest_def
  by (rule builds_case [unfolded builds_def], intro throws_only_bindS throws_only_steps) (auto simp: safe_request_def)

lemma buildReplaceFwd_builds: "safe_request E s \<Longrightarrow> builds (buildReplaceFwdAddressRequest E) s"
  unfolding builds_def buildReplaceFwdAddressRequest_def
  by (rule builds_case [unfolded builds_def], intro throws_only_bindS throws_only_steps) (auto simp: safe_request_def)

lemma buildReplaceRev_builds: "safe_request E s \<Longrightarrow> env_ok E \<Longrightarrow> builds (buildReplaceRevPtrsRequest E) s"
  unfolding builds_def buildReplaceRevPtrsRequest_def
  by (rule builds_case [unfolded builds_def], intro throws_only_bindS throws_only_steps)
    (auto simp: safe_request_def dest: reverse_safe)

subsection \<open>The handlers\<close>

lemma FQDN_IN_USE_distinct [simp]:
  "FQDN_IN_USE_EVT \<noteq> NOP_EVT" "FQDN_IN_USE_EVT \<noteq> IO_COMPLETED_EVT" "IO_COMPLETED_EVT \<noteq> FQDN_IN_USE_EVT"
  by (simp_all add: add_values)

lemma add_success:
  assumes "add_call E s" "add_dict s" "next_event s = IO_COMPLETED_EVT" "response_rcode (entered s) = (Inr c, entered s)"
  shows "curr_state s = ADDING_FWD_ADDRS_ST \<Longrightarrow> \<exists>s'. addingFwdAddrs_success (entered s) = (Inr (), s') \<and> add_after E s s'"
    and "curr_state s = REPLACING_FWD_ADDRS_ST \<Longrightarrow> \<exists>s'. replacingFwdAddrs_success (entered s) = (Inr (), s') \<and> add_after E s s'"
    and "curr_state s = REPLACING_REV_PTRS_ST \<Longrightarrow> \<exists>s'. replacingRevPtrs_success (entered s) = (Inr (), s') \<and> add_after E s s'"
proof -
  note dict = add_dict_nct [OF assms(2)]
  have t: "transition st ev (entered s) = (Inr (), goto st ev (entered s))"
    if "add_states st \<noteq> None" "add_events ev \<noteq> None" for st ev
    using that assms(2) by (intro transition_goto) (auto simp: add_dict_def)
  have ev: "add_events FQDN_IN_USE_EVT \<noteq> None" "add_events SERVER_SELECTED_EVT \<noteq> None"
    by (simp_all add: add_events_def nct_events_def add_values)
  have diff: "REPLACING_FWD_ADDRS_ST \<noteq> ADDING_FWD_ADDRS_ST"
    by (simp add: add_values)
  note rej = rejected_after [OF assms(1) add_derived dict _ assms(3) add_calls_mem(10)]
  note fwd = forward_done_after [OF assms(1) add_derived dict _ assms(3) add_calls_mem(3,9)]
  note adv = advance_after [OF assms(1) add_derived _ assms(3)]
  show "\<exists>s'. addingFwdAddrs_success (entered s) = (Inr (), s') \<and> add_after E s s'" if "curr_state s = ADDING_FWD_ADDRS_ST"
    using rej fwd adv [of REPLACING_FWD_ADDRS_ST FQDN_IN_USE_EVT] that assms(4) t ev diff
    by (auto simp: addingFwdAddrs_success_def bindE_def add_fwd_def add_calls_mem add_states_simps)
  show "\<exists>s'. replacingFwdAddrs_success (entered s) = (Inr (), s') \<and> add_after E s s'" if "curr_state s = REPLACING_FWD_ADDRS_ST"
    using rej fwd adv [of ADDING_FWD_ADDRS_ST SERVER_SELECTED_EVT] that assms(4) t ev diff
    by (auto simp: replacingFwdAddrs_success_def bindE_def add_fwd_def add_calls_mem add_states_simps)
  show "\<exists>s'. replacingRevPtrs_success (entered s) = (Inr (), s') \<and> add_after E s s'" if "curr_state s = REPLACING_REV_PTRS_ST"
    using rej reverse_done_after [OF assms(1) add_derived dict that assms(3) add_calls_mem(9)] that assms(4)
    by (auto simp: replacingRevPtrs_success_def bindE_def)
qed

lemma add_io_completed:
  assumes "add_call E s" "add_dict s" "next_event s = IO_COMPLETED_EVT"
    and "curr_state s \<in> {ADDING_FWD_ADDRS_ST, REPLACING_FWD_ADDRS_ST, REPLACING_REV_PTRS_ST}"
  shows "\<exists>s'. run_current (add_virtuals E) s = (Inr (), s') \<and> add_after E s s'"
proof -
  note dict = add_dict_nct [OF assms(2)]
  have st: "states s = add_states"
    using assms(2) by (simp add: add_dict_def)
  note sw = switch_status_after [OF assms(1) add_derived dict _ _ assms(3) _ add_calls_mem(10)]
  consider (adding) "curr_state s = ADDING_FWD_ADDRS_ST" | (replacing) "curr_state s = REPLACING_FWD_ADDRS_ST"
    | (rev) "curr_state s = REPLACING_REV_PTRS_ST"
    using assms(4) by blast
  then show ?thesis
  proof cases
    case adding
    have "\<exists>s'. switch_status addingFwdAddrs_success SELECTING_FWD_SERVER_ST (entered s) = (Inr (), s') \<and> add_after E s s'"
      by (rule sw) (use adding add_success(1) [OF assms(1-3)] in \<open>auto simp: st add_states_simps add_fwd_def add_calls_mem\<close>)
    then show ?thesis
      using adding assms(3)
      by (simp add: run_current_defined st add_states_simps add_virtuals_def addingFwdAddrsHandler_def thenE_def clear_on_entry_entered)
  next
    case replacing
    have "\<exists>s'. switch_status replacingFwdAddrs_success SELECTING_FWD_SERVER_ST (entered s) = (Inr (), s') \<and> add_after E s s'"
      by (rule sw) (use replacing add_success(2) [OF assms(1-3)] in \<open>auto simp: st add_states_simps add_fwd_def add_calls_mem\<close>)
    then show ?thesis
      using replacing assms(3)
      by (simp add: run_current_defined st add_states_simps add_virtuals_def replacingFwdAddrsHandler_def thenE_def clear_on_entry_entered)
  next
    case rev
    have "\<exists>s'. switch_status replacingRevPtrs_success SELECTING_REV_SERVER_ST (entered s) = (Inr (), s') \<and> add_after E s s'"
      by (rule sw) (use rev add_success(3) [OF assms(1-3)] in \<open>auto simp: st add_states_simps add_calls_mem\<close>)
    then show ?thesis
      using rev assms(3)
      by (simp add: run_current_defined st add_states_simps add_virtuals_def replacingRevPtrsHandler_def thenE_def clear_on_entry_entered)
  qed
qed

lemma add_sends:
  assumes "add_call E s" "add_dict s" "next_event s \<noteq> IO_COMPLETED_EVT"
    and "curr_state s \<in> {ADDING_FWD_ADDRS_ST, REPLACING_FWD_ADDRS_ST, REPLACING_REV_PTRS_ST}"
  shows "\<exists>s'. run_current (add_virtuals E) s = (Inr (), s') \<and> add_after E s s'"
proof -
  have st: "states s = add_states"
    using assms(2) by (simp add: add_dict_def)
  have safe: "safe_request E (entered s)" "env_ok E"
    using assms(1) unfolding at_call_def trans_inv_def by simp_all
  have "curr_state s \<in> insert REPLACING_REV_PTRS_ST add_fwd"
    using assms(4) by (auto simp: add_fwd_def)
  note send = send_case_after [OF assms(1) add_derived add_calls_mem(10) this assms(3) add_dict_nct [OF assms(2)]]
  have ev: "(curr_state s, next_event s) \<in> add_calls"
    using assms(1) by (simp add: at_call_def)
  consider (adding) "curr_state s = ADDING_FWD_ADDRS_ST" "next_event s = SERVER_SELECTED_EVT"
    | (replacing) "curr_state s = REPLACING_FWD_ADDRS_ST" "next_event s = FQDN_IN_USE_EVT \<or> next_event s = SERVER_SELECTED_EVT"
    | (rev) "curr_state s = REPLACING_REV_PTRS_ST" "next_event s = SERVER_SELECTED_EVT"
    using ev assms(3,4) by (auto simp: add_calls_def add_values)
  then show ?thesis
  proof cases
    case adding
    then show ?thesis
      using send [OF buildAddFwd_builds [OF safe(1)]]
      by (simp add: run_current_defined st add_states_simps add_virtuals_def addingFwdAddrsHandler_def thenE_def clear_on_entry_entered)
  next
    case replacing
    then show ?thesis
      using send [OF buildReplaceFwd_builds [OF safe(1)]]
      by (simp add: run_current_defined st add_states_simps add_virtuals_def replacingFwdAddrsHandler_def thenE_def clear_on_entry_entered)
  next
    case rev
    then show ?thesis
      using send [OF buildReplaceRev_builds [OF safe]]
      by (simp add: run_current_defined st add_states_simps add_virtuals_def replacingRevPtrsHandler_def thenE_def clear_on_entry_entered)
  qed
qed

lemma add_others:
  assumes "add_call E s" "add_dict s"
    and "curr_state s \<notin> {ADDING_FWD_ADDRS_ST, REPLACING_FWD_ADDRS_ST, REPLACING_REV_PTRS_ST}"
  shows "\<exists>s'. run_current (add_virtuals E) s = (Inr (), s') \<and> add_after E s s'"
proof -
  note dict = add_dict_nct [OF assms(2)]
  have st: "states s = add_states"
    using assms(2) by (simp add: add_dict_def)
  have inv: "trans_inv E add_fwd REPLACING_REV_PTRS_ST s"
    using assms(1) by (simp add: at_call_def)
  note log_safe = log_inv [OF inv]
  note run = run_current_defined st add_states_simps add_virtuals_def
  have ev: "(curr_state s, next_event s) \<in> add_calls"
    using assms(1) by (simp add: at_call_def)
  consider (ready) "curr_state s = READY_ST" "next_event s = START_EVT"
    | (fwd) "curr_state s = SELECTING_FWD_SERVER_ST" "next_event s = SELECT_SERVER_EVT \<or> next_event s = SERVER_IO_ERROR_EVT"
    | (rev) "curr_state s = SELECTING_REV_SERVER_ST" "next_event s = SELECT_SERVER_EVT \<or> next_event s = SERVER_IO_ERROR_EVT"
    | (ok) "curr_state s = PROCESS_TRANS_OK_ST" "next_event s = UPDATE_OK_EVT"
    | (failed) "curr_state s = PROCESS_TRANS_FAILED_ST" "next_event s = UPDATE_FAILED_EVT \<or> next_event s = NO_MORE_SERVERS_EVT"
    using ev assms(3) by (auto simp: add_calls_def)
  then show ?thesis
  proof cases
    case ready
    then show ?thesis
      using ready_after [OF assms(1) add_derived dict _ add_calls_mem(1,3)] nct_events_defined(4)
        nct_transition [OF dict, of SELECT_SERVER_EVT]
      by (auto simp: run add_readyHandler_def)
  next
    case fwd
    have "forward_domain s \<noteq> None"
      using inv fwd(1) unfolding trans_inv_def by blast
    then show ?thesis
      using fwd select_server_after [OF assms(1) add_derived _ add_calls_mem(5,11) dict _ fwd(2)]
      by (simp add: run add_selectingFwdServerHandler_def selecting_def add_fwd_def)
  next
    case rev
    have "reverse_domain s \<noteq> None"
      using inv rev(1) unfolding trans_inv_def by blast
    then show ?thesis
      using rev select_server_after [OF assms(1) add_derived _ add_calls_mem(8,11) dict _ rev(2)]
      by (simp add: run add_selectingRevServerHandler_def selecting_def)
  next
    case ok
    then show ?thesis
      using end_after [OF assms(1) add_derived dict, of ST_COMPLETED] log_safe by (simp add: run processAddOkHandler_def thenE_def)
  next
    case failed
    then show ?thesis
      using end_after [OF assms(1) add_derived dict, of ST_FAILED] log_safe by (simp add: run processAddFailedHandler_def thenE_def Let_def)
  qed
qed

lemma add_step:
  assumes "add_call E s" "add_dict s"
  shows "\<exists>s'. run_current (add_virtuals E) s = (Inr (), s') \<and> add_after E s s'"
  using add_io_completed [OF assms] add_sends [OF assms] add_others [OF assms] by blast

section \<open>Every run of the model\<close>

interpretation add_tr: transaction E add_fwd REPLACING_REV_PTRS_ST add_calls "add_virtuals E" add_dict w for E w
proof
  show "derived_states add_fwd REPLACING_REV_PTRS_ST"
    by (rule add_derived)
  show "(READY_ST, START_EVT) \<in> add_calls" "st \<in> insert REPLACING_REV_PTRS_ST add_fwd \<Longrightarrow> (st, IO_COMPLETED_EVT) \<in> add_calls" for st
    by (auto simp: add_calls_def add_fwd_def)
  show "add_dict s \<Longrightarrow> nct_dict s" "add_dict s \<Longrightarrow> same_dict s s' \<Longrightarrow> add_dict s'" for s s'
    by (auto simp: add_dict_nct same_dict_def add_dict_def)
  show "at_call E add_fwd REPLACING_REV_PTRS_ST add_calls s \<Longrightarrow> add_dict s \<Longrightarrow>
      \<exists>s'. run_current (add_virtuals E) s = (Inr (), s') \<and> add_after E s s'" for s
    by (rule add_step)
  show "\<exists>es ss. initDictionaries (add_virtuals E) s = (Inr (), s\<lparr>events := es, states := ss, dictionaries_initted := True\<rparr>) \<and>
      add_dict (s\<lparr>events := es, states := ss, dictionaries_initted := True\<rparr>)"
    if "isModelNew s" "events s = Map.empty" "states s = Map.empty" for s
    using add_initDictionaries [OF that] by (intro exI [of _ add_events] exI [of _ add_states]) (simp add: add_dict_def)
qed

lemma NameAddTransaction_fresh:
  assumes "NameAddTransaction io r fwd bwd = Inr s" "env_ok E" "safe_request E s" "fwd \<noteq> None \<or> bwd \<noteq> None"
  shows "fresh E s"
  using assms NameChangeTransaction_fresh [of io r fwd bwd s E]
  by (auto simp: NameAddTransaction_def bindS_eq_Inr split: if_splits)

section \<open>The requests of RFC 4703\<close>

lemma buildAddFwd_request:
  assumes "forward_domain s = Some d" "Name_text (dom_name d) False = Inr zone" "Name_text (fqdn (ncr s)) False = Inr n"
    and "address_rdata E (ncr s) = Inr a" "dhcid (ncr s) \<noteq> []"
  shows "\<exists>um. buildAddFwdAddressRequest E s = (Inr (), s\<lparr>dns_update_request := Some um\<rparr>) \<and>
    request_is zone [RRset n CLASS_NONE TYPE_ANY 0]
      [with_rdata n CLASS_IN (getAddressRRType (ncr s)) (lease_length (ncr s)) a,
       with_rdata n CLASS_IN TYPE_DHCID (lease_length (ncr s)) (Rdata_DHCID (dhcid (ncr s)))] um"
  unfolding buildAddFwdAddressRequest_def assms(1)
  by (rule yields_builds, intro yields_prep [OF assms(2)])
    (use assms(3-) in \<open>auto simp: lib_def rdata_ok intro!: yields_prereq yields_update yields_last\<close>)

lemma buildReplaceFwd_request:
  assumes "forward_domain s = Some d" "Name_text (dom_name d) False = Inr zone" "Name_text (fqdn (ncr s)) False = Inr n"
    and "address_rdata E (ncr s) = Inr a" "dhcid (ncr s) \<noteq> []"
  shows "\<exists>um. buildReplaceFwdAddressRequest E s = (Inr (), s\<lparr>dns_update_request := Some um\<rparr>) \<and>
    request_is zone
      [RRset n CLASS_ANY TYPE_ANY 0, with_rdata n CLASS_IN TYPE_DHCID 0 (Rdata_DHCID (dhcid (ncr s)))]
      [RRset n CLASS_ANY (getAddressRRType (ncr s)) 0,
       with_rdata n CLASS_IN (getAddressRRType (ncr s)) (lease_length (ncr s)) a] um"
  unfolding buildReplaceFwdAddressRequest_def assms(1)
  by (rule yields_builds, intro yields_prep [OF assms(2)])
    (use assms(3-) in \<open>auto simp: lib_def rdata_ok intro!: yields_prereq yields_update yields_last\<close>)

lemma buildReplaceRev_request:
  assumes "reverse_domain s = Some d" "Name_text (dom_name d) False = Inr zone"
    and "reverseIpAddress E (getIpAddress E (ncr s)) = Inr t" "Name_text t False = Inr n"
    and "Rdata_PTR_text E (fqdn (ncr s)) = Inr p" "dhcid (ncr s) \<noteq> []"
  shows "\<exists>um. buildReplaceRevPtrsRequest E s = (Inr (), s\<lparr>dns_update_request := Some um\<rparr>) \<and>
    request_is zone []
      [RRset n CLASS_ANY TYPE_PTR 0, RRset n CLASS_ANY TYPE_DHCID 0,
       with_rdata n CLASS_IN TYPE_PTR (lease_length (ncr s)) p,
       with_rdata n CLASS_IN TYPE_DHCID (lease_length (ncr s)) (Rdata_DHCID (dhcid (ncr s)))] um"
  unfolding buildReplaceRevPtrsRequest_def assms(1)
  by (rule yields_builds, intro yields_prep [OF assms(2)])
    (use assms(3-) in \<open>auto simp: lib_def rdata_ok intro!: yields_prereq yields_update yields_last\<close>)

end
