(* ===== verification/D2_Remove.thy ===== *)
theory D2_Remove
  imports D2_Trans
begin

text \<open>
  \<^verbatim>\<open>NameRemoveTransaction\<close> (\<^verbatim>\<open>src/bin/d2/nc_remove.cc\<close>): removing the DNS entries of a client,
  RFC 4703 section 5.5.
\<close>

section \<open>States, events and dictionaries\<close>

definition REMOVING_FWD_ADDRS_ST :: int where "REMOVING_FWD_ADDRS_ST = NCT_DERIVED_STATE_MIN + 1"
definition REMOVING_FWD_RRS_ST :: int where "REMOVING_FWD_RRS_ST = NCT_DERIVED_STATE_MIN + 2"
definition REMOVING_REV_PTRS_ST :: int where "REMOVING_REV_PTRS_ST = NCT_DERIVED_STATE_MIN + 3"

lemmas remove_values = REMOVING_FWD_ADDRS_ST_def REMOVING_FWD_RRS_ST_def REMOVING_REV_PTRS_ST_def nct_values

datatype remove_handler =
    rem_nop
  | rem_ready
  | rem_selectingFwdServer
  | rem_selectingRevServer
  | rem_removingFwdAddrs
  | rem_removingFwdRRs
  | rem_removingRevPtrs
  | rem_processOk
  | rem_processFailed

type_synonym remove_trans = "remove_handler nc_trans"
type_synonym 'a remove_op = "(remove_handler, 'a) trans_op"

definition NameRemoveTransaction :: "bool \<Rightarrow> name_change_request option \<Rightarrow> ddns_domain option \<Rightarrow> ddns_domain option \<Rightarrow>
    d2_exn + remove_trans" where
  "NameRemoveTransaction io r fwd bwd =
     bindS (NameChangeTransaction io r fwd bwd) (\<lambda>s.
       if change_type (ncr s) \<noteq> CHG_REMOVE then Inl NameRemoveTransactionError else Inr s)"

definition remove_defineEvents :: "unit remove_op" where
  "remove_defineEvents = nct_defineEvents"

definition remove_verifyEvents :: "unit remove_op" where
  "remove_verifyEvents = nct_verifyEvents"

definition remove_defineStates :: "unit remove_op" where
  "remove_defineStates =
     thenE (nct_defineStates rem_nop) (thenE (defineState READY_ST ''READY_ST'' rem_ready)
       (thenE (defineState SELECTING_FWD_SERVER_ST ''SELECTING_FWD_SERVER_ST'' rem_selectingFwdServer)
       (thenE (defineState SELECTING_REV_SERVER_ST ''SELECTING_REV_SERVER_ST'' rem_selectingRevServer)
       (thenE (defineState REMOVING_FWD_ADDRS_ST ''REMOVING_FWD_ADDRS_ST'' rem_removingFwdAddrs)
       (thenE (defineState REMOVING_FWD_RRS_ST ''REMOVING_FWD_RRS_ST'' rem_removingFwdRRs)
       (thenE (defineState REMOVING_REV_PTRS_ST ''REMOVING_REV_PTRS_ST'' rem_removingRevPtrs)
       (thenE (defineState PROCESS_TRANS_OK_ST ''PROCESS_TRANS_OK_ST'' rem_processOk)
         (defineState PROCESS_TRANS_FAILED_ST ''PROCESS_TRANS_FAILED_ST'' rem_processFailed))))))))"

definition remove_verifyStates :: "unit remove_op" where
  "remove_verifyStates =
     thenE nct_verifyStates (thenE (getState REMOVING_FWD_ADDRS_ST) (thenE (getState REMOVING_FWD_RRS_ST)
       (thenE (getState REMOVING_REV_PTRS_ST) (ret ()))))"

section \<open>Requests\<close>

definition buildRemoveFwdAddressRequest :: "'m trans_env_scheme \<Rightarrow> unit remove_op" where
  "buildRemoveFwdAddressRequest E s =
     (case
        bindS (prepNewRequest (forward_domain s)) (\<lambda>request.
        bindS (lib (Name_text (fqdn (ncr s)) False)) (\<lambda>name.
        bindS (addDhcidRdata (ncr s) (RRset name CLASS_IN TYPE_DHCID 0)) (\<lambda>prereq.
        bindS (um_addRRset SECTION_PREREQUISITE prereq request) (\<lambda>request.
        bindS (addLeaseAddressRdata E (ncr s) (RRset name CLASS_NONE (getAddressRRType (ncr s)) 0)) (\<lambda>update.
          um_addRRset SECTION_UPDATE update request)))))
      of Inl e \<Rightarrow> raise e s
       | Inr request \<Rightarrow> (Inr (), setDnsUpdateRequest request s))"

definition buildRemoveFwdRRsRequest :: "'m trans_env_scheme \<Rightarrow> unit remove_op" where
  "buildRemoveFwdRRsRequest E s =
     (case
        bindS (prepNewRequest (forward_domain s)) (\<lambda>request.
        bindS (lib (Name_text (fqdn (ncr s)) False)) (\<lambda>name.
        bindS (addDhcidRdata (ncr s) (RRset name CLASS_IN TYPE_DHCID 0)) (\<lambda>prereq.
        bindS (um_addRRset SECTION_PREREQUISITE prereq request) (\<lambda>request.
        bindS (um_addRRset SECTION_PREREQUISITE (RRset name CLASS_NONE TYPE_A 0) request) (\<lambda>request.
        bindS (um_addRRset SECTION_PREREQUISITE (RRset name CLASS_NONE TYPE_AAAA 0) request) (\<lambda>request.
          um_addRRset SECTION_UPDATE (RRset name CLASS_ANY TYPE_ANY 0) request))))))
      of Inl e \<Rightarrow> raise e s
       | Inr request \<Rightarrow> (Inr (), setDnsUpdateRequest request s))"

definition buildRemoveRevPtrsRequest :: "'m trans_env_scheme \<Rightarrow> unit remove_op" where
  "buildRemoveRevPtrsRequest E s =
     (case
        bindS (prepNewRequest (reverse_domain s)) (\<lambda>request.
        bindS (reverseIpAddress E (getIpAddress E (ncr s))) (\<lambda>rev_addr.
        bindS (lib (Name_text rev_addr False)) (\<lambda>rev_ip.
        bindS (addPtrRdata E (ncr s) (RRset rev_ip CLASS_IN TYPE_PTR 0)) (\<lambda>prereq.
        bindS (um_addRRset SECTION_PREREQUISITE prereq request) (\<lambda>request.
          um_addRRset SECTION_UPDATE (RRset rev_ip CLASS_ANY TYPE_ANY 0) request)))))
      of Inl e \<Rightarrow> raise e s
       | Inr request \<Rightarrow> (Inr (), setDnsUpdateRequest request s))"

section \<open>Handlers\<close>

definition remove_readyHandler :: "unit remove_op" where
  "remove_readyHandler s =
     (if next_event s = START_EVT then
        (if forward_domain s \<noteq> None then transition SELECTING_FWD_SERVER_ST SELECT_SERVER_EVT s
         else transition SELECTING_REV_SERVER_ST SELECT_SERVER_EVT s)
      else raise NameRemoveTransactionError s)"

definition remove_selectingFwdServerHandler :: "unit remove_op" where
  "remove_selectingFwdServerHandler s = select_server NameRemoveTransactionError (forward_domain s) REMOVING_FWD_ADDRS_ST s"

definition removingFwdAddrs_success :: "unit remove_op" where
  "removingFwdAddrs_success =
     bindE response_rcode (\<lambda>rcode.
       if rcode = RCODE_NOERROR \<or> rcode = RCODE_NXRRSET then transition REMOVING_FWD_RRS_ST UPDATE_OK_EVT else rejected)"

definition removingFwdAddrsHandler :: "'m trans_env_scheme \<Rightarrow> unit remove_op" where
  "removingFwdAddrsHandler E =
     thenE clear_on_entry (\<lambda>s.
       if next_event s = SERVER_SELECTED_EVT then build_and_send E (buildRemoveFwdAddressRequest E) s
       else if next_event s = IO_COMPLETED_EVT then switch_status removingFwdAddrs_success SELECTING_FWD_SERVER_ST s
       else raise NameRemoveTransactionError s)"

definition removingFwdRRs_success :: "unit remove_op" where
  "removingFwdRRs_success =
     bindE response_rcode (\<lambda>rcode.
       if rcode = RCODE_NOERROR \<or> rcode = RCODE_NXRRSET then forward_done else rejected)"

definition removingFwdRRsHandler :: "'m trans_env_scheme \<Rightarrow> unit remove_op" where
  "removingFwdRRsHandler E =
     thenE clear_on_entry (\<lambda>s.
       if next_event s = UPDATE_OK_EVT \<or> next_event s = SERVER_SELECTED_EVT
       then build_and_send E (buildRemoveFwdRRsRequest E) s
       else if next_event s = IO_COMPLETED_EVT then switch_status removingFwdRRs_success PROCESS_TRANS_FAILED_ST s
       else raise NameRemoveTransactionError s)"

definition remove_selectingRevServerHandler :: "unit remove_op" where
  "remove_selectingRevServerHandler s = select_server NameRemoveTransactionError (reverse_domain s) REMOVING_REV_PTRS_ST s"

definition removingRevPtrs_success :: "unit remove_op" where
  "removingRevPtrs_success =
     bindE response_rcode (\<lambda>rcode.
       if rcode = RCODE_NOERROR \<or> rcode = RCODE_NXRRSET then reverse_done else rejected)"

definition removingRevPtrsHandler :: "'m trans_env_scheme \<Rightarrow> unit remove_op" where
  "removingRevPtrsHandler E =
     thenE clear_on_entry (\<lambda>s.
       if next_event s = SERVER_SELECTED_EVT then build_and_send E (buildRemoveRevPtrsRequest E) s
       else if next_event s = IO_COMPLETED_EVT then switch_status removingRevPtrs_success SELECTING_REV_SERVER_ST s
       else raise NameRemoveTransactionError s)"

definition processRemoveOkHandler :: "'m trans_env_scheme \<Rightarrow> unit remove_op" where
  "processRemoveOkHandler E s =
     (if next_event s = UPDATE_OK_EVT then thenE (log_text (ncr_toText E (ncr s))) (\<lambda>s. endModel (setNcrStatus ST_COMPLETED s)) s
      else raise NameRemoveTransactionError s)"

definition processRemoveFailedHandler :: "'m trans_env_scheme \<Rightarrow> unit remove_op" where
  "processRemoveFailedHandler E s =
     (if next_event s = UPDATE_FAILED_EVT \<or> next_event s = NO_MORE_SERVERS_EVT \<or> next_event s = SERVER_IO_ERROR_EVT
      then (let s1 = setNcrStatus ST_FAILED s in thenE (log_text (transactionOutcomeString E s1)) endModel s1)
      else raise NameRemoveTransactionError s)"

fun remove_run :: "'m trans_env_scheme \<Rightarrow> remove_handler \<Rightarrow> unit remove_op" where
  "remove_run E rem_nop = nopStateHandler"
| "remove_run E rem_ready = remove_readyHandler"
| "remove_run E rem_selectingFwdServer = remove_selectingFwdServerHandler"
| "remove_run E rem_selectingRevServer = remove_selectingRevServerHandler"
| "remove_run E rem_removingFwdAddrs = removingFwdAddrsHandler E"
| "remove_run E rem_removingFwdRRs = removingFwdRRsHandler E"
| "remove_run E rem_removingRevPtrs = removingRevPtrsHandler E"
| "remove_run E rem_processOk = processRemoveOkHandler E"
| "remove_run E rem_processFailed = processRemoveFailedHandler E"

definition remove_virtuals :: "'m trans_env_scheme \<Rightarrow> (remove_handler, remove_trans) sm_virtuals" where
  "remove_virtuals E = \<lparr>v_defineEvents = remove_defineEvents, v_verifyEvents = remove_verifyEvents,
     v_defineStates = remove_defineStates, v_verifyStates = remove_verifyStates,
     v_onModelFailure = nct_onModelFailure, v_handler = remove_run E\<rparr>"

section \<open>The dictionaries\<close>

definition remove_states :: "remove_handler state_set" where
  "remove_states =
     [NEW_ST \<mapsto> st_entry NEW_ST ''NEW_ST'' rem_nop, END_ST \<mapsto> st_entry END_ST ''END_ST'' rem_nop,
      READY_ST \<mapsto> st_entry READY_ST ''READY_ST'' rem_ready,
      SELECTING_FWD_SERVER_ST \<mapsto> st_entry SELECTING_FWD_SERVER_ST ''SELECTING_FWD_SERVER_ST'' rem_selectingFwdServer,
      SELECTING_REV_SERVER_ST \<mapsto> st_entry SELECTING_REV_SERVER_ST ''SELECTING_REV_SERVER_ST'' rem_selectingRevServer,
      REMOVING_FWD_ADDRS_ST \<mapsto> st_entry REMOVING_FWD_ADDRS_ST ''REMOVING_FWD_ADDRS_ST'' rem_removingFwdAddrs,
      REMOVING_FWD_RRS_ST \<mapsto> st_entry REMOVING_FWD_RRS_ST ''REMOVING_FWD_RRS_ST'' rem_removingFwdRRs,
      REMOVING_REV_PTRS_ST \<mapsto> st_entry REMOVING_REV_PTRS_ST ''REMOVING_REV_PTRS_ST'' rem_removingRevPtrs,
      PROCESS_TRANS_OK_ST \<mapsto> st_entry PROCESS_TRANS_OK_ST ''PROCESS_TRANS_OK_ST'' rem_processOk,
      PROCESS_TRANS_FAILED_ST \<mapsto> st_entry PROCESS_TRANS_FAILED_ST ''PROCESS_TRANS_FAILED_ST'' rem_processFailed]"

definition remove_dict :: "remove_trans \<Rightarrow> bool" where
  "remove_dict s \<longleftrightarrow> dictionaries_initted s \<and> events s = nct_events \<and> states s = remove_states"

lemma remove_states_simps:
  "remove_states NEW_ST = Some (st_entry NEW_ST ''NEW_ST'' rem_nop)"
  "remove_states END_ST = Some (st_entry END_ST ''END_ST'' rem_nop)"
  "remove_states READY_ST = Some (st_entry READY_ST ''READY_ST'' rem_ready)"
  "remove_states SELECTING_FWD_SERVER_ST = Some (st_entry SELECTING_FWD_SERVER_ST ''SELECTING_FWD_SERVER_ST'' rem_selectingFwdServer)"
  "remove_states SELECTING_REV_SERVER_ST = Some (st_entry SELECTING_REV_SERVER_ST ''SELECTING_REV_SERVER_ST'' rem_selectingRevServer)"
  "remove_states REMOVING_FWD_ADDRS_ST = Some (st_entry REMOVING_FWD_ADDRS_ST ''REMOVING_FWD_ADDRS_ST'' rem_removingFwdAddrs)"
  "remove_states REMOVING_FWD_RRS_ST = Some (st_entry REMOVING_FWD_RRS_ST ''REMOVING_FWD_RRS_ST'' rem_removingFwdRRs)"
  "remove_states REMOVING_REV_PTRS_ST = Some (st_entry REMOVING_REV_PTRS_ST ''REMOVING_REV_PTRS_ST'' rem_removingRevPtrs)"
  "remove_states PROCESS_TRANS_OK_ST = Some (st_entry PROCESS_TRANS_OK_ST ''PROCESS_TRANS_OK_ST'' rem_processOk)"
  "remove_states PROCESS_TRANS_FAILED_ST = Some (st_entry PROCESS_TRANS_FAILED_ST ''PROCESS_TRANS_FAILED_ST'' rem_processFailed)"
  by (simp_all add: remove_states_def remove_values)

lemma remove_dict_nct: "remove_dict s \<Longrightarrow> nct_dict s"
  by (auto simp: remove_dict_def nct_dict_def remove_states_simps)

lemma remove_defineStates_ok:
  assumes "isModelNew s" "states s = Map.empty"
  shows "remove_defineStates s = (Inr (), s\<lparr>states := remove_states\<rparr>)"
  using assms
  by (simp add: remove_defineStates_def nct_defineStates_def sm_defineStates_def thenE_def defineState_ok remove_states_def remove_values)

lemma remove_initDictionaries:
  assumes "isModelNew s" "events s = Map.empty" "states s = Map.empty"
  shows "initDictionaries (remove_virtuals E) s =
    (Inr (), s\<lparr>events := nct_events, states := remove_states, dictionaries_initted := True\<rparr>)"
proof -
  have ev: "remove_defineEvents s = (Inr (), s\<lparr>events := nct_events\<rparr>)"
    using assms(1,2)
    by (simp add: remove_defineEvents_def nct_defineEvents_ok)
  have "events t = nct_events \<Longrightarrow> remove_verifyEvents t = (Inr (), t)" for t
    using nct_verifyEvents_ok [of t] by (simp add: remove_verifyEvents_def)
  moreover have "states t = remove_states \<Longrightarrow> remove_verifyStates t = (Inr (), t)" for t
    by (simp add: remove_verifyStates_def nct_verifyStates_def sm_verifyStates_def thenE_def ret_def getState_ok remove_states_simps)
  ultimately show ?thesis
    using ev assms remove_defineStates_ok [of "s\<lparr>events := nct_events\<rparr>"]
    by (simp add: initDictionaries_def remove_virtuals_def as_StateModelError_def catchE_def thenE_def modifyE_def)
qed

section \<open>Every call of a handler\<close>

text \<open>The states that send a forward update, and the pairs of a state and an event that occur.\<close>

definition remove_fwd :: "int set" where
  "remove_fwd = {REMOVING_FWD_ADDRS_ST, REMOVING_FWD_RRS_ST}"

definition remove_calls :: "(int \<times> int) set" where
  "remove_calls =
     {(READY_ST, START_EVT),
      (SELECTING_FWD_SERVER_ST, SELECT_SERVER_EVT), (SELECTING_FWD_SERVER_ST, SERVER_IO_ERROR_EVT),
      (REMOVING_FWD_ADDRS_ST, SERVER_SELECTED_EVT), (REMOVING_FWD_ADDRS_ST, IO_COMPLETED_EVT),
      (REMOVING_FWD_RRS_ST, UPDATE_OK_EVT), (REMOVING_FWD_RRS_ST, SERVER_SELECTED_EVT),
      (REMOVING_FWD_RRS_ST, IO_COMPLETED_EVT),
      (SELECTING_REV_SERVER_ST, SELECT_SERVER_EVT), (SELECTING_REV_SERVER_ST, SERVER_IO_ERROR_EVT),
      (REMOVING_REV_PTRS_ST, SERVER_SELECTED_EVT), (REMOVING_REV_PTRS_ST, IO_COMPLETED_EVT),
      (PROCESS_TRANS_OK_ST, UPDATE_OK_EVT),
      (PROCESS_TRANS_FAILED_ST, UPDATE_FAILED_EVT), (PROCESS_TRANS_FAILED_ST, NO_MORE_SERVERS_EVT),
      (PROCESS_TRANS_FAILED_ST, SERVER_IO_ERROR_EVT)}"

lemma remove_calls_mem:
  "(SELECTING_FWD_SERVER_ST, SELECT_SERVER_EVT) \<in> remove_calls" "(SELECTING_FWD_SERVER_ST, SERVER_IO_ERROR_EVT) \<in> remove_calls"
  "(SELECTING_REV_SERVER_ST, SELECT_SERVER_EVT) \<in> remove_calls" "(SELECTING_REV_SERVER_ST, SERVER_IO_ERROR_EVT) \<in> remove_calls"
  "(REMOVING_FWD_ADDRS_ST, SERVER_SELECTED_EVT) \<in> remove_calls" "(REMOVING_FWD_RRS_ST, UPDATE_OK_EVT) \<in> remove_calls"
  "(REMOVING_FWD_RRS_ST, SERVER_SELECTED_EVT) \<in> remove_calls" "(REMOVING_REV_PTRS_ST, SERVER_SELECTED_EVT) \<in> remove_calls"
  "(PROCESS_TRANS_OK_ST, UPDATE_OK_EVT) \<in> remove_calls" "(PROCESS_TRANS_FAILED_ST, UPDATE_FAILED_EVT) \<in> remove_calls"
  "(PROCESS_TRANS_FAILED_ST, NO_MORE_SERVERS_EVT) \<in> remove_calls" "(PROCESS_TRANS_FAILED_ST, SERVER_IO_ERROR_EVT) \<in> remove_calls"
  by (simp_all add: remove_calls_def)

lemma remove_derived: "derived_states remove_fwd REMOVING_REV_PTRS_ST"
  by (simp add: derived_states_def remove_fwd_def remove_values)

abbreviation remove_call :: "'m trans_env_scheme \<Rightarrow> remove_trans \<Rightarrow> bool" where
  "remove_call E \<equiv> at_call E remove_fwd REMOVING_REV_PTRS_ST remove_calls"

abbreviation remove_after :: "'m trans_env_scheme \<Rightarrow> remove_trans \<Rightarrow> remove_trans \<Rightarrow> bool" where
  "remove_after E \<equiv> after E remove_fwd REMOVING_REV_PTRS_ST remove_calls"

subsection \<open>The builders\<close>

lemma buildRemoveFwd_builds: "safe_request E s \<Longrightarrow> builds (buildRemoveFwdAddressRequest E) s"
  unfolding builds_def buildRemoveFwdAddressRequest_def
  by (rule builds_case [unfolded builds_def], intro throws_only_bindS throws_only_steps) (auto simp: safe_request_def)

lemma buildRemoveRRs_builds: "safe_request E s \<Longrightarrow> builds (buildRemoveFwdRRsRequest E) s"
  unfolding builds_def buildRemoveFwdRRsRequest_def
  by (rule builds_case [unfolded builds_def], intro throws_only_bindS throws_only_steps) (auto simp: safe_request_def)

lemma buildRemoveRev_builds: "safe_request E s \<Longrightarrow> env_ok E \<Longrightarrow> builds (buildRemoveRevPtrsRequest E) s"
  unfolding builds_def buildRemoveRevPtrsRequest_def
  by (rule builds_case [unfolded builds_def], intro throws_only_bindS throws_only_steps)
    (auto simp: safe_request_def dest: reverse_safe)

subsection \<open>The handlers\<close>

lemma remove_success:
  assumes "remove_call E s" "remove_dict s" "next_event s = IO_COMPLETED_EVT" "response_rcode (entered s) = (Inr c, entered s)"
  shows "curr_state s = REMOVING_FWD_ADDRS_ST \<Longrightarrow> \<exists>s'. removingFwdAddrs_success (entered s) = (Inr (), s') \<and> remove_after E s s'"
    and "curr_state s = REMOVING_FWD_RRS_ST \<Longrightarrow> \<exists>s'. removingFwdRRs_success (entered s) = (Inr (), s') \<and> remove_after E s s'"
    and "curr_state s = REMOVING_REV_PTRS_ST \<Longrightarrow> \<exists>s'. removingRevPtrs_success (entered s) = (Inr (), s') \<and> remove_after E s s'"
proof -
  note dict = remove_dict_nct [OF assms(2)]
  have t: "transition st ev (entered s) = (Inr (), goto st ev (entered s))"
    if "remove_states st \<noteq> None" "nct_events ev \<noteq> None" for st ev
    using that assms(2) by (intro transition_goto) (auto simp: remove_dict_def)
  have ev: "nct_events UPDATE_OK_EVT \<noteq> None" "nct_events SERVER_SELECTED_EVT \<noteq> None"
    by (simp_all add: nct_events_def remove_values)
  have diff: "REMOVING_FWD_RRS_ST \<noteq> REMOVING_FWD_ADDRS_ST"
    by (simp add: remove_values)
  note rej = rejected_after [OF assms(1) remove_derived dict _ assms(3) remove_calls_mem(10)]
  note fwd = forward_done_after [OF assms(1) remove_derived dict _ assms(3) remove_calls_mem(3,9)]
  note adv = advance_after [OF assms(1) remove_derived _ assms(3)]
  show "\<exists>s'. removingFwdAddrs_success (entered s) = (Inr (), s') \<and> remove_after E s s'" if "curr_state s = REMOVING_FWD_ADDRS_ST"
    using rej fwd adv [of REMOVING_FWD_RRS_ST UPDATE_OK_EVT] that assms(4) t ev diff
    by (auto simp: removingFwdAddrs_success_def bindE_def remove_fwd_def remove_calls_mem remove_states_simps)
  show "\<exists>s'. removingFwdRRs_success (entered s) = (Inr (), s') \<and> remove_after E s s'" if "curr_state s = REMOVING_FWD_RRS_ST"
    using rej fwd that assms(4) t ev diff
    by (auto simp: removingFwdRRs_success_def bindE_def remove_fwd_def remove_calls_mem remove_states_simps)
  show "\<exists>s'. removingRevPtrs_success (entered s) = (Inr (), s') \<and> remove_after E s s'" if "curr_state s = REMOVING_REV_PTRS_ST"
    using rej reverse_done_after [OF assms(1) remove_derived dict that assms(3) remove_calls_mem(9)] that assms(4)
    by (auto simp: removingRevPtrs_success_def bindE_def)
qed

lemma remove_io_completed:
  assumes "remove_call E s" "remove_dict s" "next_event s = IO_COMPLETED_EVT"
    and "curr_state s \<in> {REMOVING_FWD_ADDRS_ST, REMOVING_FWD_RRS_ST, REMOVING_REV_PTRS_ST}"
  shows "\<exists>s'. run_current (remove_virtuals E) s = (Inr (), s') \<and> remove_after E s s'"
proof -
  note dict = remove_dict_nct [OF assms(2)]
  have st: "states s = remove_states"
    using assms(2) by (simp add: remove_dict_def)
  note sw = switch_status_after [OF assms(1) remove_derived dict _ _ assms(3) _ remove_calls_mem(10)]
  consider (addrs) "curr_state s = REMOVING_FWD_ADDRS_ST" | (rrs) "curr_state s = REMOVING_FWD_RRS_ST"
    | (rev) "curr_state s = REMOVING_REV_PTRS_ST"
    using assms(4) by blast
  then show ?thesis
  proof cases
    case addrs
    have "\<exists>s'. switch_status removingFwdAddrs_success SELECTING_FWD_SERVER_ST (entered s) = (Inr (), s') \<and> remove_after E s s'"
      by (rule sw) (use addrs remove_success(1) [OF assms(1-3)] in \<open>auto simp: st remove_states_simps remove_fwd_def remove_calls_mem\<close>)
    then show ?thesis
      using addrs assms(3)
      by (simp add: run_current_defined st remove_states_simps remove_virtuals_def removingFwdAddrsHandler_def thenE_def clear_on_entry_entered)
  next
    case rrs
    have "\<exists>s'. switch_status removingFwdRRs_success PROCESS_TRANS_FAILED_ST (entered s) = (Inr (), s') \<and> remove_after E s s'"
      by (rule sw) (use rrs remove_success(2) [OF assms(1-3)] in \<open>auto simp: st remove_states_simps remove_fwd_def remove_calls_mem\<close>)
    then show ?thesis
      using rrs assms(3)
      by (simp add: run_current_defined st remove_states_simps remove_virtuals_def removingFwdRRsHandler_def thenE_def clear_on_entry_entered)
  next
    case rev
    have "\<exists>s'. switch_status removingRevPtrs_success SELECTING_REV_SERVER_ST (entered s) = (Inr (), s') \<and> remove_after E s s'"
      by (rule sw) (use rev remove_success(3) [OF assms(1-3)] in \<open>auto simp: st remove_states_simps remove_calls_mem\<close>)
    then show ?thesis
      using rev assms(3)
      by (simp add: run_current_defined st remove_states_simps remove_virtuals_def removingRevPtrsHandler_def thenE_def clear_on_entry_entered)
  qed
qed

lemma remove_sends:
  assumes "remove_call E s" "remove_dict s" "next_event s \<noteq> IO_COMPLETED_EVT"
    and "curr_state s \<in> {REMOVING_FWD_ADDRS_ST, REMOVING_FWD_RRS_ST, REMOVING_REV_PTRS_ST}"
  shows "\<exists>s'. run_current (remove_virtuals E) s = (Inr (), s') \<and> remove_after E s s'"
proof -
  have st: "states s = remove_states"
    using assms(2) by (simp add: remove_dict_def)
  have safe: "safe_request E (entered s)" "env_ok E"
    using assms(1) unfolding at_call_def trans_inv_def by simp_all
  have "curr_state s \<in> insert REMOVING_REV_PTRS_ST remove_fwd"
    using assms(4) by (auto simp: remove_fwd_def)
  note send = send_case_after [OF assms(1) remove_derived remove_calls_mem(10) this assms(3) remove_dict_nct [OF assms(2)]]
  have ev: "(curr_state s, next_event s) \<in> remove_calls"
    using assms(1) by (simp add: at_call_def)
  consider (addrs) "curr_state s = REMOVING_FWD_ADDRS_ST" "next_event s = SERVER_SELECTED_EVT"
    | (rrs) "curr_state s = REMOVING_FWD_RRS_ST" "next_event s = UPDATE_OK_EVT \<or> next_event s = SERVER_SELECTED_EVT"
    | (rev) "curr_state s = REMOVING_REV_PTRS_ST" "next_event s = SERVER_SELECTED_EVT"
    using ev assms(3,4) by (auto simp: remove_calls_def remove_values)
  then show ?thesis
  proof cases
    case addrs
    then show ?thesis
      using send [OF buildRemoveFwd_builds [OF safe(1)]]
      by (simp add: run_current_defined st remove_states_simps remove_virtuals_def removingFwdAddrsHandler_def thenE_def clear_on_entry_entered)
  next
    case rrs
    then show ?thesis
      using send [OF buildRemoveRRs_builds [OF safe(1)]]
      by (simp add: run_current_defined st remove_states_simps remove_virtuals_def removingFwdRRsHandler_def thenE_def clear_on_entry_entered)
  next
    case rev
    then show ?thesis
      using send [OF buildRemoveRev_builds [OF safe]]
      by (simp add: run_current_defined st remove_states_simps remove_virtuals_def removingRevPtrsHandler_def thenE_def clear_on_entry_entered)
  qed
qed

lemma remove_others:
  assumes "remove_call E s" "remove_dict s"
    and "curr_state s \<notin> {REMOVING_FWD_ADDRS_ST, REMOVING_FWD_RRS_ST, REMOVING_REV_PTRS_ST}"
  shows "\<exists>s'. run_current (remove_virtuals E) s = (Inr (), s') \<and> remove_after E s s'"
proof -
  note dict = remove_dict_nct [OF assms(2)]
  have st: "states s = remove_states"
    using assms(2) by (simp add: remove_dict_def)
  have inv: "trans_inv E remove_fwd REMOVING_REV_PTRS_ST s"
    using assms(1) by (simp add: at_call_def)
  note log_safe = log_inv [OF inv]
  note run = run_current_defined st remove_states_simps remove_virtuals_def
  have ev: "(curr_state s, next_event s) \<in> remove_calls"
    using assms(1) by (simp add: at_call_def)
  consider (ready) "curr_state s = READY_ST" "next_event s = START_EVT"
    | (fwd) "curr_state s = SELECTING_FWD_SERVER_ST" "next_event s = SELECT_SERVER_EVT \<or> next_event s = SERVER_IO_ERROR_EVT"
    | (rev) "curr_state s = SELECTING_REV_SERVER_ST" "next_event s = SELECT_SERVER_EVT \<or> next_event s = SERVER_IO_ERROR_EVT"
    | (ok) "curr_state s = PROCESS_TRANS_OK_ST" "next_event s = UPDATE_OK_EVT"
    | (failed) "curr_state s = PROCESS_TRANS_FAILED_ST" 
        "next_event s = UPDATE_FAILED_EVT \<or> next_event s = NO_MORE_SERVERS_EVT \<or> next_event s = SERVER_IO_ERROR_EVT"
    using ev assms(3) by (auto simp: remove_calls_def)
  then show ?thesis
  proof cases
    case ready
    then show ?thesis
      using ready_after [OF assms(1) remove_derived dict _ remove_calls_mem(1,3)] nct_events_defined(4)
        nct_transition [OF dict, of SELECT_SERVER_EVT]
      by (auto simp: run remove_readyHandler_def)
  next
    case fwd
    have "forward_domain s \<noteq> None"
      using inv fwd(1) unfolding trans_inv_def by blast
    then show ?thesis
      using fwd select_server_after [OF assms(1) remove_derived _ remove_calls_mem(5,11) dict _ fwd(2)]
      by (simp add: run remove_selectingFwdServerHandler_def selecting_def remove_fwd_def)
  next
    case rev
    have "reverse_domain s \<noteq> None"
      using inv rev(1) unfolding trans_inv_def by blast
    then show ?thesis
      using rev select_server_after [OF assms(1) remove_derived _ remove_calls_mem(8,11) dict _ rev(2)]
      by (simp add: run remove_selectingRevServerHandler_def selecting_def)
  next
    case ok
    then show ?thesis
      using end_after [OF assms(1) remove_derived dict, of ST_COMPLETED] log_safe by (simp add: run processRemoveOkHandler_def thenE_def)
  next
    case failed
    then show ?thesis
      using end_after [OF assms(1) remove_derived dict, of ST_FAILED] log_safe by (simp add: run processRemoveFailedHandler_def thenE_def Let_def)
  qed
qed

lemma remove_step:
  assumes "remove_call E s" "remove_dict s"
  shows "\<exists>s'. run_current (remove_virtuals E) s = (Inr (), s') \<and> remove_after E s s'"
  using remove_io_completed [OF assms] remove_sends [OF assms] remove_others [OF assms] by blast

section \<open>Every run of the model\<close>

interpretation remove_tr: transaction E remove_fwd REMOVING_REV_PTRS_ST remove_calls "remove_virtuals E" remove_dict w for E w
proof
  show "derived_states remove_fwd REMOVING_REV_PTRS_ST"
    by (rule remove_derived)
  show "(READY_ST, START_EVT) \<in> remove_calls" "st \<in> insert REMOVING_REV_PTRS_ST remove_fwd \<Longrightarrow> (st, IO_COMPLETED_EVT) \<in> remove_calls" for st
    by (auto simp: remove_calls_def remove_fwd_def)
  show "remove_dict s \<Longrightarrow> nct_dict s" "remove_dict s \<Longrightarrow> same_dict s s' \<Longrightarrow> remove_dict s'" for s s'
    by (auto simp: remove_dict_nct same_dict_def remove_dict_def)
  show "at_call E remove_fwd REMOVING_REV_PTRS_ST remove_calls s \<Longrightarrow> remove_dict s \<Longrightarrow>
      \<exists>s'. run_current (remove_virtuals E) s = (Inr (), s') \<and> remove_after E s s'" for s
    by (rule remove_step)
  show "\<exists>es ss. initDictionaries (remove_virtuals E) s = (Inr (), s\<lparr>events := es, states := ss, dictionaries_initted := True\<rparr>) \<and>
      remove_dict (s\<lparr>events := es, states := ss, dictionaries_initted := True\<rparr>)"
    if "isModelNew s" "events s = Map.empty" "states s = Map.empty" for s
    using remove_initDictionaries [OF that] by (intro exI [of _ nct_events] exI [of _ remove_states]) (simp add: remove_dict_def)
qed

lemma NameRemoveTransaction_fresh:
  assumes "NameRemoveTransaction io r fwd bwd = Inr s" "env_ok E" "safe_request E s" "fwd \<noteq> None \<or> bwd \<noteq> None"
  shows "fresh E s"
  using assms NameChangeTransaction_fresh [of io r fwd bwd s E]
  by (auto simp: NameRemoveTransaction_def bindS_eq_Inr split: if_splits)

section \<open>The requests of RFC 4703\<close>

lemma buildRemoveFwd_request:
  assumes "forward_domain s = Some d" "Name_text (dom_name d) False = Inr zone" "Name_text (fqdn (ncr s)) False = Inr n"
    and "address_rdata E (ncr s) = Inr a" "dhcid (ncr s) \<noteq> []"
  shows "\<exists>um. buildRemoveFwdAddressRequest E s = (Inr (), s\<lparr>dns_update_request := Some um\<rparr>) \<and>
    request_is zone [with_rdata n CLASS_IN TYPE_DHCID 0 (Rdata_DHCID (dhcid (ncr s)))]
      [with_rdata n CLASS_NONE (getAddressRRType (ncr s)) 0 a] um"
  unfolding buildRemoveFwdAddressRequest_def assms(1)
  by (rule yields_builds, intro yields_prep [OF assms(2)])
    (use assms(3-) in \<open>auto simp: lib_def rdata_ok intro!: yields_prereq yields_update yields_last\<close>)

lemma buildRemoveRRs_request:
  assumes "forward_domain s = Some d" "Name_text (dom_name d) False = Inr zone" "Name_text (fqdn (ncr s)) False = Inr n"
    and "dhcid (ncr s) \<noteq> []"
  shows "\<exists>um. buildRemoveFwdRRsRequest E s = (Inr (), s\<lparr>dns_update_request := Some um\<rparr>) \<and>
    request_is zone
      [with_rdata n CLASS_IN TYPE_DHCID 0 (Rdata_DHCID (dhcid (ncr s))), RRset n CLASS_NONE TYPE_A 0, RRset n CLASS_NONE TYPE_AAAA 0]
      [RRset n CLASS_ANY TYPE_ANY 0] um"
  unfolding buildRemoveFwdRRsRequest_def assms(1)
  by (rule yields_builds, intro yields_prep [OF assms(2)])
    (use assms(3-) in \<open>auto simp: lib_def rdata_ok intro!: yields_prereq yields_update yields_last\<close>)

lemma buildRemoveRev_request:
  assumes "reverse_domain s = Some d" "Name_text (dom_name d) False = Inr zone"
    and "reverseIpAddress E (getIpAddress E (ncr s)) = Inr t" "Name_text t False = Inr n" "Rdata_PTR_text E (fqdn (ncr s)) = Inr p"
  shows "\<exists>um. buildRemoveRevPtrsRequest E s = (Inr (), s\<lparr>dns_update_request := Some um\<rparr>) \<and>
    request_is zone [with_rdata n CLASS_IN TYPE_PTR 0 p] [RRset n CLASS_ANY TYPE_ANY 0] um"
  unfolding buildRemoveRevPtrsRequest_def assms(1)
  by (rule yields_builds, intro yields_prep [OF assms(2)])
    (use assms(3-) in \<open>auto simp: lib_def rdata_ok intro!: yields_prereq yields_update yields_last\<close>)

end
