(* ===== verification/D2_UpdateMgr.thy ===== *)
theory D2_UpdateMgr
  imports D2_Queue D2_Add D2_Remove
begin

text \<open>
  The update manager \<^verbatim>\<open>D2UpdateMgr\<close> (\<^verbatim>\<open>src/bin/d2/d2_update_mgr.cc\<close>): it takes requests from the queue
  manager, finds the servers for them in the configuration and makes and starts a transaction for
  each, at most one per DHCID.

  The configuration \<open>cfg\<close> is that of the configuration manager the update manager refers to; \<open>dbg\<close> says
  whether debug messages are printed, since only then are their arguments evaluated.  The value \<open>None\<close> of
  an operation that starts a transaction would be a state model that runs forever.
\<close>

section \<open>State\<close>

datatype nc_transaction = AddTrans add_trans | RemoveTrans remove_trans

type_synonym transaction_key = "byte list"
type_synonym transaction_map = "(transaction_key, nc_transaction) std_map"

record update_mgr =
  um_queue :: queue_mgr
  max_transactions :: nat
  transaction_list :: transaction_map

type_synonym 'a um_run = "update_mgr \<Rightarrow> ((d2_exn + 'a) \<times> update_mgr) option"

definition MAX_TRANSACTIONS_DEFAULT :: nat where
  "MAX_TRANSACTIONS_DEFAULT = 32"

definition getQueueCount :: "update_mgr \<Rightarrow> nat" where
  "getQueueCount u = getQueueSize (um_queue u)"

definition getTransactionCount :: "update_mgr \<Rightarrow> nat" where
  "getTransactionCount u = length (transaction_list u)"

definition setMaxTransactions :: "nat \<Rightarrow> (update_mgr, d2_exn, unit) exec" where
  "setMaxTransactions new_trans_max u =
     (if new_trans_max < 1 then raise D2UpdateMgrError u
      else if new_trans_max < getTransactionCount u then raise D2UpdateMgrError u
      else (Inr (), u\<lparr>max_transactions := new_trans_max\<rparr>))"

text \<open>The constructor; the arguments \<open>None\<close> and \<open>False\<close> are null pointers.\<close>

definition D2UpdateMgr :: "queue_mgr option \<Rightarrow> bool \<Rightarrow> bool \<Rightarrow> nat \<Rightarrow> d2_exn + update_mgr" where
  "D2UpdateMgr queue cfg_mgr io max_trans =
     (case queue of
        None \<Rightarrow> Inl D2UpdateMgrError
      | Some q \<Rightarrow>
          if \<not> cfg_mgr then Inl D2UpdateMgrError
          else if \<not> io then Inl D2UpdateMgrError
          else
            (case setMaxTransactions max_trans \<lparr>um_queue = q, max_transactions = 0, transaction_list = []\<rparr> of
               (Inl e, _) \<Rightarrow> Inl e
             | (Inr _, u) \<Rightarrow> Inr u))"

section \<open>The transaction list\<close>

definition findTransaction :: "transaction_key \<Rightarrow> update_mgr \<Rightarrow> nc_transaction option" where
  "findTransaction key u = map_find key (transaction_list u)"

definition hasTransaction :: "transaction_key \<Rightarrow> update_mgr \<Rightarrow> bool" where
  "hasTransaction key u \<longleftrightarrow> findTransaction key u \<noteq> None"

definition removeTransaction :: "transaction_key \<Rightarrow> update_mgr \<Rightarrow> update_mgr" where
  "removeTransaction key u =
     (if findTransaction key u \<noteq> None then u\<lparr>transaction_list := map_erase key (transaction_list u)\<rparr> else u)"

definition clearTransactionList :: "update_mgr \<Rightarrow> update_mgr" where
  "clearTransactionList u = u\<lparr>transaction_list := []\<rparr>"

fun trans_done :: "nc_transaction \<Rightarrow> bool" where
  "trans_done (AddTrans t) = isModelDone t"
| "trans_done (RemoveTrans t) = isModelDone t"

fun finished_loop :: "transaction_map \<Rightarrow> transaction_map" where
  "finished_loop [] = []"
| "finished_loop ((key, tr) # it) = (if trans_done tr then finished_loop it else (key, tr) # finished_loop it)"

definition checkFinishedTransactions :: "update_mgr \<Rightarrow> update_mgr" where
  "checkFinishedTransactions u = u\<lparr>transaction_list := finished_loop (transaction_list u)\<rparr>"

section \<open>Making a transaction\<close>

definition put_transaction :: "transaction_key \<Rightarrow> nc_transaction \<Rightarrow> update_mgr \<Rightarrow> update_mgr" where
  "put_transaction key t u = u\<lparr>transaction_list := map_put key t (transaction_list u)\<rparr>"

text \<open>
  The two halves of \<^verbatim>\<open>makeTransaction\<close> that match a direction: the request, whose flag is cleared when
  the direction is disabled, and the domain.  \<open>None\<close> is the early return for a name with no match.
\<close>

definition log_arg :: "bool \<Rightarrow> d2_exn + string \<Rightarrow> d2_exn + unit" where
  "log_arg printed t = (if printed then bindS t (\<lambda>_. Inr ()) else Inr ())"

definition match_forward_part :: "'m ncr_env_scheme \<Rightarrow> bool \<Rightarrow> d2_cfg \<Rightarrow> name_change_request \<Rightarrow>
    d2_exn + (name_change_request \<times> ddns_domain option) option" where
  "match_forward_part E dbg cfg r =
     (if \<not> forward_change r then Inr (Some (r, None))
      else if \<not> forwardUpdatesEnabled cfg then
        (let r1 = r\<lparr>forward_change := False\<rparr> in bindS (log_arg dbg (ncr_toText E r1)) (\<lambda>_. Inr (Some (r1, None))))
      else
        bindS (matchForward (fqdn r) cfg) (\<lambda>d.
          case d of
            None \<Rightarrow> bindS (log_arg True (ncr_toText E r)) (\<lambda>_. Inr None)
          | Some _ \<Rightarrow> Inr (Some (r, d))))"

definition match_reverse_part :: "'m ncr_env_scheme \<Rightarrow> bool \<Rightarrow> d2_cfg \<Rightarrow> name_change_request \<Rightarrow>
    d2_exn + (name_change_request \<times> ddns_domain option) option" where
  "match_reverse_part E dbg cfg r =
     (if \<not> reverse_change r then Inr (Some (r, None))
      else if \<not> reverseUpdatesEnabled cfg then
        (let r1 = r\<lparr>reverse_change := False\<rparr> in bindS (log_arg dbg (ncr_toText E r1)) (\<lambda>_. Inr (Some (r1, None))))
      else
        bindS (matchReverse E (addr_to_string E (ip_io_address r)) cfg) (\<lambda>d.
          case d of
            None \<Rightarrow> bindS (log_arg True (ncr_toText E r)) (\<lambda>_. Inr None)
          | Some _ \<Rightarrow> Inr (Some (r, d))))"

text \<open>
  Everything before the transaction is put on the list: \<open>None\<close> when the request is dropped.  The count of
  directions is the number of domains found.
\<close>

definition prepare_transaction :: "'m ncr_env_scheme \<Rightarrow> bool \<Rightarrow> d2_cfg \<Rightarrow> name_change_request \<Rightarrow> d2_exn + nc_transaction option" where
  "prepare_transaction E dbg cfg r =
     bindS (match_forward_part E dbg cfg r) (\<lambda>m1.
       case m1 of
         None \<Rightarrow> Inr None
       | Some (r1, fwd) \<Rightarrow>
           bindS (match_reverse_part E dbg cfg r1) (\<lambda>m2.
             case m2 of
               None \<Rightarrow> Inr None
             | Some (r2, bwd) \<Rightarrow>
                 if fwd = None \<and> bwd = None then bindS (log_arg dbg (ncr_toText E r2)) (\<lambda>_. Inr None)
                 else if change_type r2 = CHG_ADD
                 then bindS (NameAddTransaction True (Some r2) fwd bwd) (\<lambda>t. Inr (Some (AddTrans t)))
                 else bindS (NameRemoveTransaction True (Some r2) fwd bwd) (\<lambda>t. Inr (Some (RemoveTrans t)))))"

fun start_trans :: "'m trans_env_scheme \<Rightarrow> nc_transaction \<Rightarrow> ((d2_exn + unit) \<times> nc_transaction) option" where
  "start_trans E (AddTrans t) = map_option (map_prod id AddTrans) (startTransaction (add_virtuals E) t)"
| "start_trans E (RemoveTrans t) = map_option (map_prod id RemoveTrans) (startTransaction (remove_virtuals E) t)"

definition makeTransaction :: "'m trans_env_scheme \<Rightarrow> bool \<Rightarrow> d2_cfg \<Rightarrow> name_change_request \<Rightarrow> unit um_run" where
  "makeTransaction E dbg cfg next_ncr u =
     (let key = dhcid next_ncr in
      if findTransaction key u \<noteq> None then Some (Inl D2UpdateMgrError, u)
      else
        (case prepare_transaction E dbg cfg next_ncr of
           Inl e \<Rightarrow> Some (Inl e, u)
         | Inr None \<Rightarrow> Some (Inr (), u)
         | Inr (Some tr) \<Rightarrow>
             map_option (\<lambda>(res, t). (res, put_transaction key t u)) (start_trans E tr)))"

section \<open>Picking a job\<close>

fun pick_loop :: "'m trans_env_scheme \<Rightarrow> bool \<Rightarrow> d2_cfg \<Rightarrow> nat \<Rightarrow> nat \<Rightarrow> unit um_run" where
  "pick_loop E dbg cfg 0 index u = Some (Inr (), u)"
| "pick_loop E dbg cfg (Suc left) index u =
     (case peekAt index (um_queue u) of
        Inl e \<Rightarrow> Some (Inl e, u)
      | Inr None \<Rightarrow> Some (Inl NullPointer, u)
      | Inr (Some found_ncr) \<Rightarrow>
          if \<not> hasTransaction (dhcid found_ncr) u then
            (case dequeueAt index (um_queue u) of
               (Inl e, q) \<Rightarrow> Some (Inl e, u\<lparr>um_queue := q\<rparr>)
             | (Inr _, q) \<Rightarrow> makeTransaction E dbg cfg found_ncr (u\<lparr>um_queue := q\<rparr>))
          else pick_loop E dbg cfg left (Suc index) u)"

definition pickNextJob :: "'m trans_env_scheme \<Rightarrow> bool \<Rightarrow> d2_cfg \<Rightarrow> unit um_run" where
  "pickNextJob E dbg cfg u = pick_loop E dbg cfg (getQueueCount u) 0 u"

definition sweep :: "'m trans_env_scheme \<Rightarrow> bool \<Rightarrow> d2_cfg \<Rightarrow> unit um_run" where
  "sweep E dbg cfg u =
     (let u1 = checkFinishedTransactions u in
      if getQueueCount u1 > 0 then
        (if getTransactionCount u1 \<ge> max_transactions u1 then Some (Inr (), u1) else pickNextJob E dbg cfg u1)
      else Some (Inr (), u1))"

text \<open>The I/O service delivers the end of an exchange to the transaction that asked for it.\<close>

fun complete_trans :: "'m trans_env_scheme \<Rightarrow> iofetch_result \<Rightarrow> byte list \<Rightarrow> nc_transaction \<Rightarrow> ((d2_exn + unit) \<times> nc_transaction) option" where
  "complete_trans E r bs (AddTrans t) = map_option (map_prod id AddTrans) (client_complete E (add_virtuals E) r bs t)"
| "complete_trans E r bs (RemoveTrans t) = map_option (map_prod id RemoveTrans) (client_complete E (remove_virtuals E) r bs t)"

definition um_complete :: "'m trans_env_scheme \<Rightarrow> transaction_key \<Rightarrow> iofetch_result \<Rightarrow> byte list \<Rightarrow> unit um_run" where
  "um_complete E key r bs u =
     (case findTransaction key u of
        None \<Rightarrow> Some (Inr (), u)
      | Some t \<Rightarrow> map_option (\<lambda>(res, t'). (res, put_transaction key t' u)) (complete_trans E r bs t))"

end
