(* ===== verification/D2_UpdateRun.thy ===== *)
theory D2_UpdateRun
  imports D2_UpdateMgr
begin

text \<open>
  The update manager at work, together with the queue manager and the transactions: what a sweep does, the invariant
  of the daemon's state over every run, and that no call hangs.
\<close>

section \<open>Requests and configurations that are fit\<close>

text \<open>
  What the parameters promise beyond \<open>env_ok\<close>: the lexer returns the text of a name as one token, unchanged.
\<close>

definition lexer_ok :: "'m trans_env_scheme \<Rightarrow> bool" where
  "lexer_ok E \<longleftrightarrow> (\<forall>t tok. canonical_text t \<longrightarrow> single_token E t = Some tok \<longrightarrow> tok = t)"

text \<open>
  Every request the receiver accepts is fit but for the one second 23:59:60 of 31 December 9999, whose time is
  read but cannot be printed.
\<close>

definition fit_request :: "'m ncr_env_scheme \<Rightarrow> name_change_request \<Rightarrow> bool" where
  "fit_request E r \<longleftrightarrow> received E r \<and> unat (lease_expires_on r) \<noteq> time_limit"

definition mgr_domains :: "domain_list_mgr \<Rightarrow> ddns_domain set" where
  "mgr_domains m = snd ` set (dlm_domains m) \<union> set_option (dlm_wildcard m)"

definition fit_cfg :: "d2_cfg \<Rightarrow> bool" where
  "fit_cfg cfg \<longleftrightarrow> (\<forall>d \<in> mgr_domains (forward_mgr cfg) \<union> mgr_domains (reverse_mgr cfg). safe_text (dom_name d))"

lemma canonical_safe: "canonical_text t \<Longrightarrow> safe_text t"
  using setFqdn_canonical [of t NameChangeRequest_default]
  by (auto simp: safe_text_def setFqdn_def split: sum.splits if_splits)

lemma match_loop_mem:
  "match_loop req ds len best = Inl d \<Longrightarrow> d \<in> snd ` set ds"
  "match_loop req ds len best = Inr (Some d) \<Longrightarrow> d \<in> snd ` set ds \<or> best = Some d"
  by (induction req ds len best rule: match_loop.induct) (auto split: if_splits)

lemma matchDomain_mem: "matchDomain req m = Some d \<Longrightarrow> d \<in> mgr_domains m"
  using match_loop_mem(1) [of req "dlm_domains m" 0 None] match_loop_mem(2) [of req "dlm_domains m" 0 None d]
  by (auto simp: matchDomain_def mgr_domains_def split: if_splits sum.splits option.splits)


lemma fit_request_facts:
  assumes "fit_request E r"
  shows "unat (lease_expires_on r) < time_limit" "canonical_text (fqdn r)" "fqdn r \<noteq> []" "dhcid r \<noteq> []"
proof -
  obtain json where "ncr_fromJSON E json = Inr r" "unat (lease_expires_on r) \<noteq> time_limit"
    using assms by (auto simp: fit_request_def received_def)
  then show "unat (lease_expires_on r) < time_limit" "canonical_text (fqdn r)" "fqdn r \<noteq> []" "dhcid r \<noteq> []"
    using ncr_fromJSON_accepts [of E json r] by (auto simp: validateContent_def split: if_splits)
qed

section \<open>Making a transaction\<close>

text \<open>What the two matching parts leave: the flag of a direction is set where a domain was found.\<close>

definition matched :: "domain_list_mgr \<Rightarrow> bool \<Rightarrow> ddns_domain option \<Rightarrow> bool" where
  "matched m flag d \<longleftrightarrow> (flag \<longleftrightarrow> d \<noteq> None) \<and> (\<forall>x. d = Some x \<longrightarrow> x \<in> mgr_domains m)"

lemma log_arg_only:
  assumes "env_ok E" "unat (lease_expires_on r) < time_limit"
  shows "log_arg p (ncr_toText E r) = Inr ()"
  using safe_request_text [OF assms] by (auto simp: log_arg_def)

lemma match_forward_part_spec:
  assumes "env_ok E" "unat (lease_expires_on r) < time_limit"
  shows "match_forward_part E dbg cfg r = Inl e \<Longrightarrow> e = D2CfgError \<and> fqdn r = []"
    "match_forward_part E dbg cfg r = Inr (Some (r1, d)) \<Longrightarrow>
      r1\<lparr>forward_change := forward_change r\<rparr> = r \<and> matched (forward_mgr cfg) (forward_change r1) d"
proof -
  have l: "log_arg p (ncr_toText E r) = Inr ()" "log_arg p (ncr_toText E (r\<lparr>forward_change := b\<rparr>)) = Inr ()" for p b
    using assms by (auto intro: log_arg_only)
  have r: "r\<lparr>forward_change := forward_change r\<rparr> = r" "r\<lparr>forward_change := True\<rparr> = r \<longleftrightarrow> forward_change r" "r\<lparr>forward_change := False\<rparr> = r \<longleftrightarrow> \<not> forward_change r"
    by (cases r; auto)+
  show "match_forward_part E dbg cfg r = Inl e \<Longrightarrow> e = D2CfgError \<and> fqdn r = []"
    by (auto simp: match_forward_part_def Let_def l matchForward_def bindS_eq_Inl split: if_splits option.splits)
  show "r1\<lparr>forward_change := forward_change r\<rparr> = r \<and> matched (forward_mgr cfg) (forward_change r1) d"
    if "match_forward_part E dbg cfg r = Inr (Some (r1, d))"
    using that r matchDomain_mem [of "fqdn r" "forward_mgr cfg"]
    by (auto simp: match_forward_part_def Let_def l matchForward_def bindS_eq_Inr matched_def split: if_splits option.splits dest: sym)
qed

lemma match_reverse_part_spec:
  assumes "env_ok E" "unat (lease_expires_on r) < time_limit"
  shows "match_reverse_part E dbg cfg r = Inl e \<Longrightarrow> matchReverse E (addr_to_string E (ip_io_address r)) cfg = Inl e"
    "match_reverse_part E dbg cfg r = Inr (Some (r1, d)) \<Longrightarrow>
      r1\<lparr>reverse_change := reverse_change r\<rparr> = r \<and> matched (reverse_mgr cfg) (reverse_change r1) d"
proof -
  have l: "log_arg p (ncr_toText E r) = Inr ()" "log_arg p (ncr_toText E (r\<lparr>reverse_change := b\<rparr>)) = Inr ()" for p b
    using assms by (auto intro: log_arg_only)
  have r: "r\<lparr>reverse_change := reverse_change r\<rparr> = r" "r\<lparr>reverse_change := True\<rparr> = r \<longleftrightarrow> reverse_change r" "r\<lparr>reverse_change := False\<rparr> = r \<longleftrightarrow> \<not> reverse_change r"
    by (cases r; auto)+
  show "match_reverse_part E dbg cfg r = Inl e \<Longrightarrow> matchReverse E (addr_to_string E (ip_io_address r)) cfg = Inl e"
    by (auto simp: match_reverse_part_def Let_def l bindS_eq_Inl split: if_splits option.splits)
  show "r1\<lparr>reverse_change := reverse_change r\<rparr> = r \<and> matched (reverse_mgr cfg) (reverse_change r1) d"
    if "match_reverse_part E dbg cfg r = Inr (Some (r1, d))"
    using that r matchDomain_mem [of _ "reverse_mgr cfg"]
    by (auto simp: match_reverse_part_def Let_def l matchReverse_def bindS_eq_Inr matched_def split: if_splits option.splits dest: sym)
qed

lemma matchReverse_throws:
  assumes "env_ok E" "matchReverse E t cfg = Inl e"
  shows "e = D2CfgError"
  using assms
  by (auto simp: reverseV4Address_def reverseV6Address_def encodeHex_text env_ok_def lib_def matchReverse_def reverseIpAddress_def bindS_eq_Inl split: option.splits sum.splits if_splits)

text \<open>A transaction before it is started, and one that has settled after a call.\<close>

fun fresh_trans :: "'m trans_env_scheme \<Rightarrow> transaction_key \<Rightarrow> nc_transaction \<Rightarrow> bool" where
  "fresh_trans E k (AddTrans s) \<longleftrightarrow> fresh E s \<and> dhcid (fst (task s)) = k"
| "fresh_trans E k (RemoveTrans s) \<longleftrightarrow> fresh E s \<and> dhcid (fst (task s)) = k"

fun settled_trans :: "'m trans_env_scheme \<Rightarrow> transaction_key \<Rightarrow> nc_transaction \<Rightarrow> bool" where
  "settled_trans E k (AddTrans s) \<longleftrightarrow> stopped E add_fwd REPLACING_REV_PTRS_ST add_dict (task s) s \<and> dhcid (fst (task s)) = k"
| "settled_trans E k (RemoveTrans s) \<longleftrightarrow> stopped E remove_fwd REMOVING_REV_PTRS_ST remove_dict (task s) s \<and> dhcid (fst (task s)) = k"

lemma start_settles:
  assumes "fresh_trans E k t"
  shows "\<exists>t'. start_trans E t = Some (Inr (), t') \<and> settled_trans E k t'"
proof (cases t)
  case (AddTrans s)
  then obtain s' where "startTransaction (add_virtuals E) s = Some (Inr (), s')"
    "stopped E add_fwd REPLACING_REV_PTRS_ST add_dict (task s) s'"
    using add_tr.start_ends [of E s "task s"] assms by auto
  moreover from this have "task s' = task s"
    by (simp add: stopped_def)
  ultimately show ?thesis
    using AddTrans assms by simp
next
  case (RemoveTrans s)
  then obtain s' where "startTransaction (remove_virtuals E) s = Some (Inr (), s')"
    "stopped E remove_fwd REMOVING_REV_PTRS_ST remove_dict (task s) s'"
    using remove_tr.start_ends [of E s "task s"] assms by auto
  moreover from this have "task s' = task s"
    by (simp add: stopped_def)
  ultimately show ?thesis
    using RemoveTrans assms by simp
qed

lemma complete_settles:
  assumes "settled_trans E k t" "\<not> trans_done t"
  shows "\<exists>t'. complete_trans E r bs t = Some (Inr (), t') \<and> settled_trans E k t'"
proof (cases t)
  case (AddTrans s)
  then have "stopped E add_fwd REPLACING_REV_PTRS_ST add_dict (task s) s" "dhcid (fst (task s)) = k" "curr_state s \<noteq> END_ST"
    using assms by (auto simp: isModelDone_def)
  then obtain s' where s': "client_complete E (add_virtuals E) r bs s = Some (Inr (), s')"
    "stopped E add_fwd REPLACING_REV_PTRS_ST add_dict (task s) s'" "dhcid (fst (task s)) = k"
    using add_tr.complete_ends [of E "task s" s r bs] by auto
  then have "task s' = task s"
    by (simp add: stopped_def)
  then show ?thesis
    using s' AddTrans by simp
next
  case (RemoveTrans s)
  then have "stopped E remove_fwd REMOVING_REV_PTRS_ST remove_dict (task s) s" "dhcid (fst (task s)) = k" "curr_state s \<noteq> END_ST"
    using assms by (auto simp: isModelDone_def)
  then obtain s' where s': "client_complete E (remove_virtuals E) r bs s = Some (Inr (), s')"
    "stopped E remove_fwd REMOVING_REV_PTRS_ST remove_dict (task s) s'" "dhcid (fst (task s)) = k"
    using remove_tr.complete_ends [of E "task s" s r bs] by auto
  then have "task s' = task s"
    by (simp add: stopped_def)
  then show ?thesis
    using s' RemoveTrans by simp
qed

lemma prepared_fresh:
  assumes E: "env_ok E" "lexer_ok E" and r: "fit_request E r" and cfg: "fit_cfg cfg"
    and t: "prepare_transaction E dbg cfg r = Inr (Some t)"
  shows "fresh_trans E (dhcid r) t"
proof -
  note f = fit_request_facts [OF r]
  obtain r1 fwd where m1: "match_forward_part E dbg cfg r = Inr (Some (r1, fwd))"
    using t by (auto simp: prepare_transaction_def bindS_eq_Inr split: option.splits)
  note s1 = match_forward_part_spec(2) [OF E(1) f(1) m1]
  then have same1: "lease_expires_on r1 = lease_expires_on r" "fqdn r1 = fqdn r" "dhcid r1 = dhcid r"
    by (metis name_change_request.ext_inject name_change_request.surjective name_change_request.update_convs(2))+
  obtain r2 bwd where m2: "match_reverse_part E dbg cfg r1 = Inr (Some (r2, bwd))"
    using t m1 by (auto simp: prepare_transaction_def bindS_eq_Inr split: option.splits)
  have "unat (lease_expires_on r1) < time_limit"
    using f(1) same1 by simp
  note s2 = match_reverse_part_spec(2) [OF E(1) this m2]
  then have same2: "lease_expires_on r2 = lease_expires_on r" "fqdn r2 = fqdn r" "dhcid r2 = dhcid r" "forward_change r2 = forward_change r1"
    using same1 by (metis name_change_request.ext_inject name_change_request.surjective name_change_request.update_convs(3))+
  have nn: "fwd \<noteq> None \<or> bwd \<noteq> None"
    using t m1 m2 by (auto simp: prepare_transaction_def bindS_eq_Inr split: if_splits)
  have safe: "safe_request E s" if "ncr s = r2" "forward_domain s = fwd" "reverse_domain s = bwd" for s :: "'h nc_trans"
    using f same2 that E(2) canonical_safe s1 s2 cfg
    unfolding safe_request_def lexer_ok_def fit_cfg_def matched_def by auto
  have d: "ncr s = r2 \<and> forward_domain s = fwd \<and> reverse_domain s = bwd"
    if "NameChangeTransaction True (Some r2) fwd bwd = Inr s" for s :: "'h nc_trans"
    using that by (auto simp: NameChangeTransaction_def state_model.defs split: if_splits)
  have "(\<exists>s. t = AddTrans s \<and> NameAddTransaction True (Some r2) fwd bwd = Inr s) \<or>
    (\<exists>s. t = RemoveTrans s \<and> NameRemoveTransaction True (Some r2) fwd bwd = Inr s)"
    using t m1 m2 nn by (auto simp: prepare_transaction_def bindS_eq_Inr split: if_splits)
  then show ?thesis
  proof (elim disjE exE conjE)
    fix s assume s: "t = AddTrans s" "NameAddTransaction True (Some r2) fwd bwd = Inr s"
    then have n: "ncr s = r2 \<and> forward_domain s = fwd \<and> reverse_domain s = bwd"
      using d by (auto simp: NameAddTransaction_def bindS_eq_Inr split: if_splits)
    then show ?thesis
      using s NameAddTransaction_fresh [OF s(2) E(1) _ nn] safe same2 by (auto simp: task_def)
  next
    fix s assume s: "t = RemoveTrans s" "NameRemoveTransaction True (Some r2) fwd bwd = Inr s"
    then have n: "ncr s = r2 \<and> forward_domain s = fwd \<and> reverse_domain s = bwd"
      using d by (auto simp: NameRemoveTransaction_def bindS_eq_Inr split: if_splits)
    then show ?thesis
      using s NameRemoveTransaction_fresh [OF s(2) E(1) _ nn] safe same2 by (auto simp: task_def)
  qed
qed

lemma constructed:
  assumes "forward_change r \<longleftrightarrow> fwd \<noteq> None" "reverse_change r \<longleftrightarrow> bwd \<noteq> None"
  shows "change_type r = CHG_ADD \<Longrightarrow> \<exists>s. NameAddTransaction True (Some r) fwd bwd = Inr s"
    "change_type r = CHG_REMOVE \<Longrightarrow> \<exists>s. NameRemoveTransaction True (Some r) fwd bwd = Inr s"
  using assms by (auto simp: NameAddTransaction_def NameRemoveTransaction_def NameChangeTransaction_def state_model.defs)

lemma prepare_throws:
  assumes E: "env_ok E" and r: "fit_request E r" and t: "prepare_transaction E dbg cfg r = Inl e"
  shows "e = D2CfgError"
proof -
  note f = fit_request_facts [OF r]
  show ?thesis
  proof (cases "match_forward_part E dbg cfg r")
    case (Inl e')
    then show ?thesis
      using t match_forward_part_spec(1) [OF E f(1)] by (auto simp: prepare_transaction_def)
  next
    case (Inr m1)
    then obtain r1 fwd where m1: "match_forward_part E dbg cfg r = Inr (Some (r1, fwd))"
      using t by (cases m1) (auto simp: prepare_transaction_def)
    note s1 = match_forward_part_spec(2) [OF E f(1) m1]
    then have l1: "unat (lease_expires_on r1) < time_limit"
      using f(1) by (metis name_change_request.ext_inject name_change_request.surjective name_change_request.update_convs(2))
    show ?thesis
    proof (cases "match_reverse_part E dbg cfg r1")
      case (Inl e')
      then show ?thesis
        using t m1 matchReverse_throws [OF E match_reverse_part_spec(1) [OF E l1 Inl]] by (simp add: prepare_transaction_def)
    next
      case (Inr m2)
      then obtain r2 bwd where m2: "match_reverse_part E dbg cfg r1 = Inr (Some (r2, bwd))"
        using t m1 by (cases m2) (auto simp: prepare_transaction_def)
      note s2 = match_reverse_part_spec(2) [OF E l1 m2]
      have l2: "unat (lease_expires_on r2) < time_limit" "forward_change r2 = forward_change r1"
        using s2 l1 by (metis name_change_request.ext_inject name_change_request.surjective name_change_request.update_convs(3))+
      have "forward_change r2 \<longleftrightarrow> fwd \<noteq> None" "reverse_change r2 \<longleftrightarrow> bwd \<noteq> None"
        using s1 s2 l2(2) by (auto simp: matched_def)
      note c = constructed [OF this]
      show ?thesis
        using t m1 m2 log_arg_only [OF E l2(1)] c
        by (cases "change_type r2") (auto simp: prepare_transaction_def split: if_splits)
    qed
  qed
qed

section \<open>The invariant of the update manager\<close>

definition um_inv :: "'m trans_env_scheme \<Rightarrow> update_mgr \<Rightarrow> bool" where
  "um_inv E u \<longleftrightarrow>
     qm_inv (um_queue u) \<and> (\<forall>r. Some r \<in> set (ncr_queue (um_queue u)) \<longrightarrow> fit_request E r) \<and>
     wf_map (transaction_list u) \<and> (\<forall>(k, t) \<in> set (transaction_list u). settled_trans E k t) \<and>
     1 \<le> max_transactions u \<and> getTransactionCount u \<le> max_transactions u"

definition busy :: "update_mgr \<Rightarrow> name_change_request option \<Rightarrow> bool" where
  "busy u e \<longleftrightarrow> (\<exists>r. e = Some r \<and> hasTransaction (dhcid r) u)"

definition with_queue :: "name_change_request option list \<Rightarrow> update_mgr \<Rightarrow> update_mgr" where
  "with_queue rs u = u\<lparr>um_queue := um_queue u\<lparr>ncr_queue := rs\<rparr>\<rparr>"

text \<open>The outcome for a request that was taken: it is dropped, or its transaction is on the list.\<close>

definition started_or_dropped :: "'m trans_env_scheme \<Rightarrow> name_change_request \<Rightarrow> update_mgr \<Rightarrow> d2_exn + unit \<Rightarrow> update_mgr \<Rightarrow> bool" where
  "started_or_dropped E r u res u' \<longleftrightarrow>
     (res = Inr () \<or> res = Inl D2CfgError) \<and> u' = u \<or>
     res = Inr () \<and> (\<exists>t. settled_trans E (dhcid r) t \<and> u' = put_transaction (dhcid r) t u)"

definition pick_outcome :: "'m trans_env_scheme \<Rightarrow> update_mgr \<Rightarrow> d2_exn + unit \<Rightarrow> update_mgr \<Rightarrow> bool" where
  "pick_outcome E u res u' \<longleftrightarrow>
     res = Inr () \<and> u' = u \<and> (\<forall>e \<in> set (ncr_queue (um_queue u)). busy u e) \<or>
     (\<exists>pre r post. ncr_queue (um_queue u) = pre @ Some r # post \<and> (\<forall>e \<in> set pre. busy u e) \<and> \<not> busy u (Some r) \<and>
        started_or_dropped E r (with_queue (pre @ post) u) res u')"

lemma queued_fit:
  assumes "um_inv E u" "e \<in> set (ncr_queue (um_queue u))"
  obtains r where "e = Some r" "fit_request E r"
proof -
  have "None \<notin> set (ncr_queue (um_queue u))" "\<forall>r. Some r \<in> set (ncr_queue (um_queue u)) \<longrightarrow> fit_request E r"
    using assms by (simp_all add: um_inv_def qm_inv_def)
  then show thesis
    using that assms(2) by (cases e) auto
qed

lemma makeTransaction_spec:
  assumes "env_ok E" "lexer_ok E" "fit_cfg cfg" "fit_request E r" "findTransaction (dhcid r) u = None"
  shows "\<exists>res u'. makeTransaction E dbg cfg r u = Some (res, u') \<and> started_or_dropped E r u res u'"
proof (cases "prepare_transaction E dbg cfg r")
  case (Inl e)
  then show ?thesis
    using prepare_throws [OF assms(1,4) Inl] assms(5) by (simp add: makeTransaction_def started_or_dropped_def)
next
  case (Inr p)
  show ?thesis
  proof (cases p)
    case None
    then show ?thesis
      using Inr assms(5) by (simp add: makeTransaction_def started_or_dropped_def)
  next
    case (Some t)
    then have "fresh_trans E (dhcid r) t"
      using prepared_fresh [OF assms(1,2,4,3)] Inr by simp
    then obtain t' where "start_trans E t = Some (Inr (), t')" "settled_trans E (dhcid r) t'"
      using start_settles by blast
    then show ?thesis
      using Inr Some assms(5) by (auto simp: makeTransaction_def started_or_dropped_def)
  qed
qed

lemma pick_loop_spec:
  assumes E: "env_ok E" "lexer_ok E" "fit_cfg cfg" "um_inv E u"
  shows "ncr_queue (um_queue u) = pre @ rest \<Longrightarrow> \<forall>e \<in> set pre. busy u e \<Longrightarrow>
    \<exists>res u'. pick_loop E dbg cfg (length rest) (length pre) u = Some (res, u') \<and> pick_outcome E u res u'"
proof (induction rest arbitrary: pre)
  case Nil
  then show ?case
    by (simp add: pick_outcome_def)
next
  case (Cons e rest)
  have "e \<in> set (ncr_queue (um_queue u))"
    using Cons.prems by simp
  then obtain r where r: "e = Some r" "fit_request E r"
    using queued_fit [OF E(4)] by blast
  have at: "peekAt (length pre) (um_queue u) = Inr (Some r)"
    "dequeueAt (length pre) (um_queue u) = (Inr (), um_queue u\<lparr>ncr_queue := pre @ rest\<rparr>)"
    using Cons.prems r by (simp_all add: peekAt_def dequeueAt_def getQueueSize_def)
  show ?case
  proof (cases "hasTransaction (dhcid r) u")
    case True
    then show ?thesis
      using Cons.IH [of "pre @ [e]"] Cons.prems r at by (auto simp: busy_def)
  next
    case False
    then have "findTransaction (dhcid r) (with_queue (pre @ rest) u) = None"
      by (simp add: hasTransaction_def findTransaction_def with_queue_def)
    then obtain res u' where "makeTransaction E dbg cfg r (with_queue (pre @ rest) u) = Some (res, u')"
      "started_or_dropped E r (with_queue (pre @ rest) u) res u'"
      using makeTransaction_spec [OF E(1-3) r(2)] by blast
    then show ?thesis
      using False Cons.prems r at unfolding pick_outcome_def by (fastforce simp: with_queue_def busy_def)
  qed
qed

text \<open>The transactions that are finished are dropped and nothing else.\<close>

lemma finished_loop_filter: "finished_loop m = filter (\<lambda>e. \<not> trans_done (snd e)) m"
  by (induction m rule: finished_loop.induct) auto

lemma wf_filter: "wf_map m \<Longrightarrow> wf_map (filter P m)"
  by (simp add: wf_map_def sorted_wrt_map sorted_wrt_filter)

lemma checkFinished_inv: "um_inv E u \<Longrightarrow> um_inv E (checkFinishedTransactions u)"
  by (auto simp: um_inv_def checkFinishedTransactions_def finished_loop_filter wf_filter getTransactionCount_def intro: order_trans [OF length_filter_le])

lemma settled_entries_put:
  assumes "\<forall>(k, t) \<in> set m. settled_trans E k t" "settled_trans E k t"
  shows "\<forall>(k, t) \<in> set (map_put k t m). settled_trans E k t"
  using assms by (induction k t m rule: map_put.induct) auto

lemma started_inv:
  assumes "um_inv E u" "started_or_dropped E r u res u'"
    "getTransactionCount u < max_transactions u \<or> findTransaction (dhcid r) u \<noteq> None"
  shows "um_inv E u'"
proof (cases "u' = u")
  case False
  then obtain t where t: "settled_trans E (dhcid r) t" "u' = put_transaction (dhcid r) t u"
    using assms(2) by (auto simp: started_or_dropped_def)
  have "\<forall>(k, t) \<in> set (transaction_list u'). settled_trans E k t"
    using settled_entries_put [OF _ t(1), of "transaction_list u"] assms(1) t(2) by (simp add: put_transaction_def um_inv_def)
  moreover have "getTransactionCount u' \<le> max_transactions u"
    using assms(1,3) t(2) by (auto simp: put_transaction_def um_inv_def getTransactionCount_def length_put findTransaction_def)
  ultimately show ?thesis
    using assms(1) t(2) by (simp add: put_transaction_def um_inv_def)
qed (use assms in simp)

lemma with_queue_inv:
  assumes "um_inv E u" "set rs \<subseteq> set (ncr_queue (um_queue u))" "length rs \<le> length (ncr_queue (um_queue u))"
  shows "um_inv E (with_queue rs u)"
  using assms by (auto simp: um_inv_def with_queue_def qm_inv_def amListening_def getQueueSize_def getTransactionCount_def)

lemma pick_inv:
  assumes "um_inv E u" "pick_outcome E u res u'" "getTransactionCount u < max_transactions u"
  shows "um_inv E u'"
  using assms(2) unfolding pick_outcome_def
proof (elim disjE exE conjE)
  fix pre r post
  assume q: "ncr_queue (um_queue u) = pre @ Some r # post" and s: "started_or_dropped E r (with_queue (pre @ post) u) res u'"
  then have "um_inv E (with_queue (pre @ post) u)"
    using assms(1) by (intro with_queue_inv) auto
  then show "um_inv E u'"
    by (rule started_inv [OF _ s]) (use assms(3) in \<open>simp add: with_queue_def getTransactionCount_def\<close>)
qed (use assms(1) in simp)

lemma sweep_spec:
  assumes "env_ok E" "lexer_ok E" "fit_cfg cfg" "um_inv E u"
  defines "u1 \<equiv> checkFinishedTransactions u"
  shows "\<exists>res u'. sweep E dbg cfg u = Some (res, u') \<and> um_inv E u' \<and>
    (if getQueueCount u1 > 0 \<and> getTransactionCount u1 < max_transactions u1 then pick_outcome E u1 res u' else res = Inr () \<and> u' = u1)"
proof -
  have i: "um_inv E u1"
    unfolding u1_def by (rule checkFinished_inv [OF assms(4)])
  obtain res u' where p: "pickNextJob E dbg cfg u1 = Some (res, u')" "pick_outcome E u1 res u'"
    using pick_loop_spec [OF assms(1-3) i, of "[]" "ncr_queue (um_queue u1)" dbg] by (auto simp: pickNextJob_def getQueueCount_def getQueueSize_def)
  then show ?thesis
    using i pick_inv [OF i p(2)] by (simp add: sweep_def Let_def flip: u1_def)
qed

lemma um_complete_spec:
  assumes "um_inv E u" "findTransaction k u = Some t" "\<not> trans_done t"
  shows "\<exists>u'. um_complete E k r bs u = Some (Inr (), u') \<and> um_inv E u'"
proof -
  have "(k, t) \<in> set (transaction_list u)"
    using assms(2) by (simp add: findTransaction_def map_find_def map_of_SomeD)
  then have "settled_trans E k t"
    using assms(1) by (auto simp: um_inv_def)
  then obtain t' where t': "complete_trans E r bs t = Some (Inr (), t')" "settled_trans E k t'"
    using complete_settles assms(3) by blast
  then have "started_or_dropped E (NameChangeRequest_default\<lparr>dhcid := k\<rparr>) u (Inr ()) (put_transaction k t' u)"
    by (auto simp: started_or_dropped_def)
  from started_inv [OF assms(1) this] show ?thesis
    using t' assms(2) by (simp add: um_complete_def)
qed

section \<open>Runs of the daemon\<close>

text \<open>
  What can happen to the queue manager and the update manager together: an event of the queue manager, a sweep
  (with the configuration of that moment), the end of an exchange of a transaction that is not done, and the calls
  of the owner.
\<close>

datatype um_event =
    QueueEvent qm_event
  | Sweep bool d2_cfg
  | ExchangeDone transaction_key iofetch_result "byte list"
  | SetMaxTransactions nat
  | RemoveTransaction transaction_key
  | ClearTransactions

fun um_do :: "'m trans_env_scheme \<Rightarrow> um_event \<Rightarrow> unit um_run" where
  "um_do E (QueueEvent ev) u = (case qm_do E ev (um_queue u) of (res, q) \<Rightarrow> Some (res, u\<lparr>um_queue := q\<rparr>))"
| "um_do E (Sweep dbg cfg) u = sweep E dbg cfg u"
| "um_do E (ExchangeDone k r bs) u = um_complete E k r bs u"
| "um_do E (SetMaxTransactions n) u = Some (setMaxTransactions n u)"
| "um_do E (RemoveTransaction k) u = Some (Inr (), removeTransaction k u)"
| "um_do E ClearTransactions u = Some (Inr (), clearTransactionList u)"

fun um_enabled :: "'m trans_env_scheme \<Rightarrow> um_event \<Rightarrow> update_mgr \<Rightarrow> bool" where
  "um_enabled E (QueueEvent ev) u \<longleftrightarrow>
     qm_enabled ev (um_queue u) \<and> (\<forall>e \<in> decoded E ev. case e of Some r \<Rightarrow> unat (lease_expires_on r) \<noteq> time_limit | None \<Rightarrow> True)"
| "um_enabled E (Sweep dbg cfg) u \<longleftrightarrow> fit_cfg cfg"
| "um_enabled E (ExchangeDone k r bs) u \<longleftrightarrow> (case findTransaction k u of Some t \<Rightarrow> \<not> trans_done t | None \<Rightarrow> False)"
| "um_enabled E _ u \<longleftrightarrow> True"

inductive um_reach :: "'m trans_env_scheme \<Rightarrow> update_mgr \<Rightarrow> bool" for E where
  um_created: "D2QueueMgr True m = Inr q \<Longrightarrow> D2UpdateMgr (Some q) True True n = Inr u \<Longrightarrow> um_reach E u"
| um_event: "um_reach E u \<Longrightarrow> um_enabled E ev u \<Longrightarrow> um_do E ev u = Some (res, u') \<Longrightarrow> um_reach E u'"

inductive_cases um_reachE: "um_reach E u"

lemma decoded_received: "Some r \<in> decoded E ev \<Longrightarrow> received E r"
  by (auto simp: decoded_def dest: received_from split: qm_event.splits recv_action.splits listener_result.splits)

lemma queue_event_inv:
  assumes "um_inv E u" "um_enabled E (QueueEvent ev) u" "qm_do E ev (um_queue u) = (res, q)"
  shows "um_inv E (u\<lparr>um_queue := q\<rparr>)"
proof -
  let ?S = "set (ncr_queue (um_queue u))"
  have "queue_in (?S \<union> decoded E ev) q"
    using qm_do_in [of ?S "um_queue u" E ev] assms(3) by (simp add: queue_in_def)
  then have "fit_request E r" if "Some r \<in> set (ncr_queue q)" for r
    using that assms(1,2) decoded_received by (fastforce simp: queue_in_def fit_request_def um_inv_def)
  moreover have "qm_inv q"
    using keepsD [OF qm_do_inv, of "um_queue u" E ev] assms(1,3) by (simp add: um_inv_def)
  ultimately show ?thesis
    using assms(1) by (simp add: um_inv_def getTransactionCount_def)
qed

lemma um_step:
  assumes "env_ok E" "lexer_ok E" "um_inv E u" "um_enabled E ev u"
  shows "\<exists>res u'. um_do E ev u = Some (res, u') \<and> um_inv E u'"
proof (cases ev)
  case (QueueEvent qev)
  obtain res q where "qm_do E qev (um_queue u) = (res, q)"
    by fastforce
  then show ?thesis
    using queue_event_inv [OF assms(3) assms(4) [unfolded QueueEvent]] QueueEvent by simp
next
  case (Sweep dbg cfg)
  then show ?thesis
    using sweep_spec [of E cfg u dbg] assms by (auto simp del: split_paired_Ex)
next
  case (ExchangeDone k r bs)
  then show ?thesis
    using um_complete_spec [of E u k _ r bs] assms by (auto split: option.splits)
next
  case (RemoveTransaction k)
  then show ?thesis
    using assms(3)
    by (auto simp: removeTransaction_def um_inv_def getTransactionCount_def map_erase_def wf_filter
        intro: order_trans [OF length_filter_le])
qed (use assms in \<open>auto simp: setMaxTransactions_def clearTransactionList_def um_inv_def getTransactionCount_def raise_def\<close>)

lemma um_reach_inv:
  assumes "env_ok E" "lexer_ok E"
  shows "um_reach E u \<Longrightarrow> um_inv E u"
proof (induction rule: um_reach.induct)
  case (um_created m q n u)
  then have "qm_inv q" "ncr_queue q = []"
    using reach_inv [OF qm_created] by (auto simp: D2QueueMgr_def setMaxQueueSize_def raise_def Let_def split: if_splits)
  then show ?case
    using um_created by (auto simp: D2UpdateMgr_def setMaxTransactions_def um_inv_def getTransactionCount_def raise_def split: if_splits)
next
  case (um_event u ev res u')
  then show ?case
    using um_step [OF assms] by fastforce
qed

end
