(* ===== verification/Data_Properties.thy ===== *)
theory Data_Properties
  imports Cc_Json Util_Encode Util_Time
begin

text \<open>
  The properties of the data layer: JSON text, operations on elements, dates as text, and base-N text.
\<close>

section \<open>A conversion of numbers for the examples\<close>

definition plain_lexical :: "string \<Rightarrow> 64 word option" where
  "plain_lexical s =
     Some (word_of_int (if s \<noteq> [] \<and> hd s = CHR ''-'' then - int (scan_number (tl s)) else int (scan_number s)))"

definition plain_numbers :: number_env where
  "plain_numbers = \<lparr>lexical_int64 = plain_lexical, lexical_double = (\<lambda>_. None), show_double = (\<lambda>_. [])\<rparr>"

lemma plain_lexical_reads: "plain_lexical (show_int (sint i)) = Some i"
proof -
  have hd: "hd (show_nat n) \<noteq> CHR ''-''" for n
    by (rule charIn_all [OF bspec [OF show_nat_digits hd_in_set [OF show_nat_nonempty]]]) simp
  show ?thesis
  proof (cases "sint i < 0")
    case True
    then have "plain_lexical (show_int (sint i)) = Some (word_of_int (sint i))"
      by (simp add: plain_lexical_def show_int_def)
    then show ?thesis by simp
  next
    case False
    then have "plain_lexical (show_int (sint i)) = Some (word_of_int (sint i))"
      by (simp add: plain_lexical_def show_int_def hd)
    then show ?thesis by simp
  qed
qed

lemma plain_numbers_read: "reads_integers plain_numbers"
  by (simp add: reads_integers_def plain_numbers_def plain_lexical_reads)

section \<open>JSON\<close>

text \<open>
  C22.  What the printer writes for an element without floating point numbers, whose keys need no
  escape, is parsed back to the same element: strings with any characters, nested lists and maps.
\<close>

theorem json_print_parse:
  assumes "reads_integers L" "json_ok e"
  shows "\<exists>t. elem_toJSON L e = Inr t \<and> fromJSON L t = Inr e"
  using assms by (rule json_round_trip)

theorem json_print_parse_witness:
  "\<exists>t. elem_toJSON plain_numbers (MapElement [(''a'', ListElement [IntElement (- 7), StringElement [CHR 0x22, CHR 0x0A]]), (''b'', NullElement)]) = Inr t \<and>
    fromJSON plain_numbers t = Inr (MapElement [(''a'', ListElement [IntElement (- 7), StringElement [CHR 0x22, CHR 0x0A]]), (''b'', NullElement)])"
  by (rule json_print_parse [OF plain_numbers_read]) simp

text \<open>
  C23.  On every text the parser ends, with an element of which every map is ordered and without
  duplicate keys and no pointer is null, or with a \<^verbatim>\<open>JSONError\<close>, the one exception its declaration allows.
\<close>

theorem json_parser_result: "case fromJSON L s of Inr e \<Rightarrow> wf_element e | Inl x \<Rightarrow> x = JSONError"
  using fromJSON_wf fromJSON_errors by (auto split: sum.splits)

section \<open>Elements\<close>

text \<open>
  C34.  Equality of elements, which recurses over lists and maps and looks up the keys of each map
  in the other, is equality of the values, where the left one has no floating point numbers.
\<close>

theorem element_equality:
  assumes "wf_element a" "wf_element b" "double_free a"
  shows "equals a b = Inr (a = b)"
  using assms by (rule equals_iff(1))

theorem element_equality_witness:
  "equals (MapElement [(''a'', IntElement 1), (''b'', ListElement [])]) (MapElement [(''a'', IntElement 1)]) =
   Inr (MapElement [(''a'', IntElement 1), (''b'', ListElement [])] = MapElement [(''a'', IntElement 1)])"
  by (rule element_equality) simp_all

text \<open>
  C35.  Merging a map into another overrides the entries that have a value and removes those whose
  value is null.
\<close>

theorem merge_overrides:
  assumes "wf_map a" "wf_map b"
  shows "\<exists>m. merge (MapElement a) (MapElement b) = Inr (MapElement m) \<and> wf_map m \<and>
    (\<forall>k. map_find k m =
      (case map_find k b of None \<Rightarrow> map_find k a | Some v \<Rightarrow> if v = NullPtr \<or> v = NullElement then None else Some v))"
  using merge_spec [OF assms] by (simp only: null_value_def)

theorem merge_overrides_witness:
  "\<exists>m. merge (MapElement [(''a'', IntElement 1)]) (MapElement [(''a'', NullElement), (''b'', IntElement 2)]) = Inr (MapElement m) \<and> wf_map m \<and>
    (\<forall>k. map_find k m =
      (case map_find k [(''a'', NullElement), (''b'', IntElement 2)] of
         None \<Rightarrow> map_find k [(''a'', IntElement 1)] | Some v \<Rightarrow> if v = NullPtr \<or> v = NullElement then None else Some v))"
  by (rule merge_overrides) simp_all

text \<open>
  C36.  The two overloads of \<^verbatim>\<open>removeIdentical\<close>, one that edits its argument while it iterates over the other
  map and one that builds a new map, agree: the result has the entries of the first map that differ in the second.
\<close>

theorem remove_identical_overloads:
  assumes "wf_element (MapElement a)" "wf_element (MapElement b)" "double_free (MapElement a)"
  shows "\<exists>m. removeIdentical (MapElement a) (MapElement b) = Inr (MapElement m) \<and>
    removeIdentical_const (MapElement a) (MapElement b) = Inr (MapElement m) \<and> wf_map m \<and>
    (\<forall>k. map_find k m = (if map_find k a = map_find k b then None else map_find k a))"
  using assms by (rule removeIdentical_spec)

theorem remove_identical_overloads_witness:
  "\<exists>m. removeIdentical (MapElement [(''a'', IntElement 1), (''b'', IntElement 2)]) (MapElement [(''a'', IntElement 1), (''b'', IntElement 3)]) =
        Inr (MapElement m) \<and>
    removeIdentical_const (MapElement [(''a'', IntElement 1), (''b'', IntElement 2)]) (MapElement [(''a'', IntElement 1), (''b'', IntElement 3)]) =
        Inr (MapElement m) \<and> wf_map m \<and>
    (\<forall>k. map_find k m =
      (if map_find k [(''a'', IntElement 1), (''b'', IntElement 2)] = map_find k [(''a'', IntElement 1), (''b'', IntElement 3)] then None
       else map_find k [(''a'', IntElement 1), (''b'', IntElement 2)]))"
  by (rule remove_identical_overloads) simp_all

section \<open>Dates and base-N text\<close>

lemma leap_second: "timeFromText64 ''99991231235960'' = Inr 253402300800"
proof -
  have "months_loop (numeral n) = months_loop (pred_numeral n) + days ! pred_numeral n * 86400" for n
    by (subst numeral_eq_Suc) simp
  then have "months_loop 11 = 28857600"
    by (simp add: days_def)
  moreover have "years_loop 8029 + yearSecs 9999 = 253402300800"
    using years_loop_limit years_loop.simps(2) [of 8029] by (simp add: time_limit_def)
  moreover have "\<not> isLeap 9999" "yearSecs 9999 = 31536000"
    by (simp_all add: isLeap_def yearSecs_def)
  ultimately have "timeval 9999 12 31 23 59 60 = 253402300800"
    by (simp add: timeval_def)
  then show ?thesis
    by (simp add: timeFromText64_def isdigit_def scan_number_def DATE_LEN_def checkRange_def days_def isLeap_def)
qed

text \<open>
  C31.  The bounds of dates: every time before the year 10000 is printed as 14 digits that are read back, every later
  one is refused, and what is read is at most the first second of the year 10000, which is therefore the one
  time (written as the leap second 23:59:60) that is read but cannot be printed.
\<close>

theorem date_bounds:
  "(if unat t < 253402300800 then \<exists>s. timeToText64 t = Inr s \<and> length s = 14 \<and> timeFromText64 s = Inr t
    else timeToText64 t = Inl InvalidTime) \<and>
   (case timeFromText64 u of Inr v \<Rightarrow> unat v \<le> 253402300800 | Inl e \<Rightarrow> e = InvalidTime) \<and>
   timeFromText64 ''99991231235960'' = Inr 253402300800"
proof -
  have "case timeFromText64 u of Inr v \<Rightarrow> unat v \<le> time_limit | Inl e \<Rightarrow> e = InvalidTime"
    using timeFromText64_bound [of u]
    by (auto simp: timeFromText64_def Let_def checkRange_def bindS_def split: sum.splits if_splits)
  then show ?thesis
    using time_round_trip [of t] timeToText64_fails [of t] leap_second by (auto simp: time_limit_def DATE_LEN_def split: sum.splits)
qed

text \<open>
  C32.  Base 16 and base 32 hex text: encoding never fails, and decoding gives the octets back, whatever
  their number, padding included.
\<close>

theorem base_n_round_trip:
  assumes "regroups tw"
  shows "(\<exists>t. encodeHex tw bs = Inr t \<and> decodeHex tw t = Inr bs) \<and> (\<exists>t. encodeBase32Hex tw bs = Inr t \<and> decodeBase32Hex tw t = Inr bs)"
  using base16.decode_encode [OF assms] base32hex.decode_encode [OF assms]
  by (simp add: encodeHex_def decodeHex_def encodeBase32Hex_def decodeBase32Hex_def)

theorem base_n_round_trip_witness:
  "(\<exists>t. encodeHex (\<lambda>out inp xs. groups out (concat (map (to_bits inp) xs))) [1, 255] = Inr t \<and>
       decodeHex (\<lambda>out inp xs. groups out (concat (map (to_bits inp) xs))) t = Inr [1, 255]) \<and>
   (\<exists>t. encodeBase32Hex (\<lambda>out inp xs. groups out (concat (map (to_bits inp) xs))) [1, 255] = Inr t \<and>
       decodeBase32Hex (\<lambda>out inp xs. groups out (concat (map (to_bits inp) xs))) t = Inr [1, 255])"
  by (rule base_n_round_trip) (simp add: regroups_def)

end
