(* ===== verification/Ddns_Properties.thy ===== *)
theory Ddns_Properties
  imports D2_Add D2_Remove Data_Properties
begin

text \<open>
  The properties of the DHCP-DDNS daemon: what its transactions do with a request, what the
  messages they send contain, and how a domain is chosen.
\<close>

section \<open>An environment for the examples\<close>

text \<open>
  Addresses are always read as \<^verbatim>\<open>192.0.2.1\<close>, and a response is one octet, its return code.
\<close>

definition demo_response :: "byte list \<Rightarrow> d2_exn + message" where
  "demo_response bs =
     (case bs of
        [c] \<Rightarrow> Inr ((Message PARSE)\<lparr>m_flags := 0x8000, m_opcode := Some OPCODE_UPDATE, m_rcode := Some (unat c)\<rparr>)
      | _ \<Rightarrow> Inl (LibError DNSMessageFORMERR))"

definition demo_env :: trans_env where
  "demo_env =
     \<lparr>lexical_int64 = plain_lexical, lexical_double = (\<lambda>_. None), show_double = (\<lambda>_. []),
      addr_from_string = (\<lambda>_. Some (IPv4 [192, 0, 2, 1])), addr_to_string = (\<lambda>_. ''192.0.2.1''),
      transform_width = (\<lambda>out inp xs. groups out (concat (map (to_bits inp) xs))),
      sha_256 = (\<lambda>_. None), inet_pton4 = (\<lambda>_. Some [192, 0, 2, 1]), inet_pton6 = (\<lambda>_. None),
      single_token = Some, rcode_toText = show_nat, render_msg = (\<lambda>m. Inr ([], m)), parse_msg = demo_response\<rparr>"

definition demo_server :: dns_server_info where
  "demo_server = \<lparr>srv_hostname = [], srv_ip_address = IPv4 [192, 0, 2, 53], srv_port = 53, srv_enabled = True\<rparr>"

definition demo_domain :: ddns_domain where
  "demo_domain = \<lparr>dom_name = ''b.'', dom_key_name = [], dom_servers = Some [demo_server]\<rparr>"

definition demo_request :: "change_type \<Rightarrow> name_change_request" where
  "demo_request ct =
     \<lparr>change_type = ct, forward_change = True, reverse_change = False, fqdn = ''a.b.'',
      ip_io_address = IPv4 [192, 0, 2, 1], dhcid = [0, 1, 1, 7], lease_expires_on = 0, lease_length = 3600, status = ST_NEW\<rparr>"

definition demo_trans :: "change_type \<Rightarrow> 'h nc_trans" where
  "demo_trans ct = (case NameChangeTransaction True (Some (demo_request ct)) (Some demo_domain) None of Inr s \<Rightarrow> s)"

lemma demo_env_ok: "env_ok demo_env"
  by (auto simp: env_ok_def demo_env_def regroups_def demo_response_def Message_def split: list.splits)

lemma demo_NameChange:
  "NameChangeTransaction True (Some (demo_request ct)) (Some demo_domain) None = Inr (demo_trans ct)"
  by (simp add: demo_trans_def NameChangeTransaction_def demo_request_def)

lemma demo_trans_simps [simp]:
  "ncr (demo_trans ct) = demo_request ct" "forward_domain (demo_trans ct) = Some demo_domain" "reverse_domain (demo_trans ct) = None"
  by (simp_all add: demo_trans_def NameChangeTransaction_def demo_request_def state_model.defs)

lemma demo_texts: "Name_text ''a.b.'' False = Inr (mk_name [[0x61], [0x62], []])" "Name_text ''b.'' False = Inr (mk_name [[0x62], []])"
  by code_simp+

lemma demo_safe: "safe_request demo_env (demo_trans ct)"
  by (auto simp: safe_request_def safe_text_def demo_request_def demo_domain_def demo_env_def demo_texts time_limit_def)

lemma demo_address: "address_rdata demo_env (demo_request ct) = Inr (Rdata_A [192, 0, 2, 1])"
  by (simp add: address_rdata_def demo_request_def getIpAddress_def demo_env_def Rdata_A_text_def)

section \<open>Transactions\<close>

text \<open>What is known of a transaction that does not run: it is done, or it waits for a response.\<close>

definition settled :: "int set \<Rightarrow> name_change_request \<Rightarrow> ddns_domain option \<Rightarrow> ddns_domain option \<Rightarrow> 'h nc_trans \<Rightarrow> bool" where
  "settled sending r fwd bwd s \<longleftrightarrow>
     ncr s = r\<lparr>status := status (ncr s)\<rparr> \<and> update_attempts s \<le> MAX_UPDATE_TRIES_PER_SERVER \<and>
     (if curr_state s = END_ST
      then next_event s = END_EVT \<and>
        (status (ncr s) = ST_FAILED \<or>
         status (ncr s) = ST_COMPLETED \<and> (fwd \<noteq> None \<longrightarrow> forward_change_completed s) \<and> (bwd \<noteq> None \<longrightarrow> reverse_change_completed s))
      else curr_state s \<in> sending \<and> next_event s = NOP_EVT \<and> status (ncr s) = ST_PENDING \<and>
        0 < update_attempts s \<and> dns_update_request s \<noteq> None \<and> posted s \<noteq> [])"

lemma stopped_settled:
  assumes "stopped E F R dict (r\<lparr>status := ST_NEW\<rparr>, fwd, bwd) s" "derived_states F R"
  shows "settled (insert R F) r fwd bwd s"
proof -
  have t: "(ncr s)\<lparr>status := ST_NEW\<rparr> = r\<lparr>status := ST_NEW\<rparr>" "forward_domain s = fwd" "reverse_domain s = bwd"
    using assms(1) by (auto simp: stopped_def task_def)
  then have "ncr s = r\<lparr>status := status (ncr s)\<rparr>"
    by (cases "ncr s"; cases r) auto
  moreover have "END_ST \<notin> insert R F"
    using derived_distinct [OF assms(2), of END_ST] by auto
  moreover have "update_attempts s \<le> MAX_UPDATE_TRIES_PER_SERVER" "curr_state s \<noteq> END_ST \<longrightarrow> status (ncr s) = ST_PENDING"
    using assms(1) unfolding stopped_def trans_inv_def by blast+
  ultimately show ?thesis
    using assms(1) t by (auto simp: settled_def stopped_def at_rest_def outcome_ok_def)
qed





section \<open>The messages\<close>

text \<open>
  C27.  The first message of an addition (RFC 4703 section 5.3.1) asks that the name is not in use and
  adds the address and the DHCID, with the length of the lease as their time to live.
\<close>

theorem add_forward_message:
  assumes "forward_domain s = Some d" "Name_text (dom_name d) False = Inr zone" "Name_text (fqdn (ncr s)) False = Inr n"
    and "address_rdata E (ncr s) = Inr a" "dhcid (ncr s) \<noteq> []"
  shows "\<exists>um. buildAddFwdAddressRequest E s = (Inr (), s\<lparr>dns_update_request := Some um\<rparr>) \<and>
    request_is zone [RRset n CLASS_NONE TYPE_ANY 0]
      [with_rdata n CLASS_IN (getAddressRRType (ncr s)) (lease_length (ncr s)) a,
       with_rdata n CLASS_IN TYPE_DHCID (lease_length (ncr s)) (Rdata_DHCID (dhcid (ncr s)))] um"
  using assms by (rule buildAddFwd_request)

theorem add_forward_message_witness:
  "\<exists>um. buildAddFwdAddressRequest demo_env (demo_trans CHG_ADD) = (Inr (), (demo_trans CHG_ADD)\<lparr>dns_update_request := Some um\<rparr>) \<and>
    request_is (mk_name [[0x62], []]) [RRset (mk_name [[0x61], [0x62], []]) CLASS_NONE TYPE_ANY 0]
      [with_rdata (mk_name [[0x61], [0x62], []]) CLASS_IN (getAddressRRType (ncr (demo_trans CHG_ADD :: add_trans)))
         (lease_length (ncr (demo_trans CHG_ADD :: add_trans))) (Rdata_A [192, 0, 2, 1]),
       with_rdata (mk_name [[0x61], [0x62], []]) CLASS_IN TYPE_DHCID (lease_length (ncr (demo_trans CHG_ADD :: add_trans)))
         (Rdata_DHCID (dhcid (ncr (demo_trans CHG_ADD :: add_trans))))] um"
  by (rule add_forward_message [where d = demo_domain])
    (simp_all add: demo_address, simp_all add: demo_request_def demo_domain_def demo_texts)

text \<open>
  C28.  The message that replaces the address of a name in use (section 5.3.2) asks that the name exists
  with the DHCID of this client, deletes the addresses of the family and adds the new one.
\<close>

theorem replace_forward_message:
  assumes "forward_domain s = Some d" "Name_text (dom_name d) False = Inr zone" "Name_text (fqdn (ncr s)) False = Inr n"
    and "address_rdata E (ncr s) = Inr a" "dhcid (ncr s) \<noteq> []"
  shows "\<exists>um. buildReplaceFwdAddressRequest E s = (Inr (), s\<lparr>dns_update_request := Some um\<rparr>) \<and>
    request_is zone
      [RRset n CLASS_ANY TYPE_ANY 0, with_rdata n CLASS_IN TYPE_DHCID 0 (Rdata_DHCID (dhcid (ncr s)))]
      [RRset n CLASS_ANY (getAddressRRType (ncr s)) 0,
       with_rdata n CLASS_IN (getAddressRRType (ncr s)) (lease_length (ncr s)) a] um"
  using assms by (rule buildReplaceFwd_request)

theorem replace_forward_message_witness:
  "\<exists>um. buildReplaceFwdAddressRequest demo_env (demo_trans CHG_ADD) = (Inr (), (demo_trans CHG_ADD)\<lparr>dns_update_request := Some um\<rparr>) \<and>
    request_is (mk_name [[0x62], []])
      [RRset (mk_name [[0x61], [0x62], []]) CLASS_ANY TYPE_ANY 0,
       with_rdata (mk_name [[0x61], [0x62], []]) CLASS_IN TYPE_DHCID 0 (Rdata_DHCID (dhcid (ncr (demo_trans CHG_ADD :: add_trans))))]
      [RRset (mk_name [[0x61], [0x62], []]) CLASS_ANY (getAddressRRType (ncr (demo_trans CHG_ADD :: add_trans))) 0,
       with_rdata (mk_name [[0x61], [0x62], []]) CLASS_IN (getAddressRRType (ncr (demo_trans CHG_ADD :: add_trans)))
         (lease_length (ncr (demo_trans CHG_ADD :: add_trans))) (Rdata_A [192, 0, 2, 1])] um"
  by (rule replace_forward_message [where d = demo_domain])
    (simp_all add: demo_address, simp_all add: demo_request_def demo_domain_def demo_texts)

text \<open>
  C29.  The message that removes the forward address (section 5.5) asks that the DHCID is that of the
  client and deletes exactly the address of the lease.
\<close>

theorem remove_forward_message:
  assumes "forward_domain s = Some d" "Name_text (dom_name d) False = Inr zone" "Name_text (fqdn (ncr s)) False = Inr n"
    and "address_rdata E (ncr s) = Inr a" "dhcid (ncr s) \<noteq> []"
  shows "\<exists>um. buildRemoveFwdAddressRequest E s = (Inr (), s\<lparr>dns_update_request := Some um\<rparr>) \<and>
    request_is zone [with_rdata n CLASS_IN TYPE_DHCID 0 (Rdata_DHCID (dhcid (ncr s)))]
      [with_rdata n CLASS_NONE (getAddressRRType (ncr s)) 0 a] um"
  using assms by (rule buildRemoveFwd_request)

theorem remove_forward_message_witness:
  "\<exists>um. buildRemoveFwdAddressRequest demo_env (demo_trans CHG_REMOVE) = (Inr (), (demo_trans CHG_REMOVE)\<lparr>dns_update_request := Some um\<rparr>) \<and>
    request_is (mk_name [[0x62], []])
      [with_rdata (mk_name [[0x61], [0x62], []]) CLASS_IN TYPE_DHCID 0 (Rdata_DHCID (dhcid (ncr (demo_trans CHG_REMOVE :: remove_trans))))]
      [with_rdata (mk_name [[0x61], [0x62], []]) CLASS_NONE (getAddressRRType (ncr (demo_trans CHG_REMOVE :: remove_trans))) 0
         (Rdata_A [192, 0, 2, 1])] um"
  by (rule remove_forward_message [where d = demo_domain])
    (simp_all add: demo_address, simp_all add: demo_request_def demo_domain_def demo_texts)

text \<open>
  C30.  The name is deleted (section 5.5) only where the DHCID is that of the client and neither an IPv4 nor an
  IPv6 address is left.
\<close>

theorem remove_name_message:
  assumes "forward_domain s = Some d" "Name_text (dom_name d) False = Inr zone" "Name_text (fqdn (ncr s)) False = Inr n"
    and "dhcid (ncr s) \<noteq> []"
  shows "\<exists>um. buildRemoveFwdRRsRequest E s = (Inr (), s\<lparr>dns_update_request := Some um\<rparr>) \<and>
    request_is zone
      [with_rdata n CLASS_IN TYPE_DHCID 0 (Rdata_DHCID (dhcid (ncr s))), RRset n CLASS_NONE TYPE_A 0, RRset n CLASS_NONE TYPE_AAAA 0]
      [RRset n CLASS_ANY TYPE_ANY 0] um"
  using assms by (rule buildRemoveRRs_request)

theorem remove_name_message_witness:
  "\<exists>um. buildRemoveFwdRRsRequest demo_env (demo_trans CHG_REMOVE) = (Inr (), (demo_trans CHG_REMOVE)\<lparr>dns_update_request := Some um\<rparr>) \<and>
    request_is (mk_name [[0x62], []])
      [with_rdata (mk_name [[0x61], [0x62], []]) CLASS_IN TYPE_DHCID 0 (Rdata_DHCID (dhcid (ncr (demo_trans CHG_REMOVE :: remove_trans)))),
       RRset (mk_name [[0x61], [0x62], []]) CLASS_NONE TYPE_A 0, RRset (mk_name [[0x61], [0x62], []]) CLASS_NONE TYPE_AAAA 0]
      [RRset (mk_name [[0x61], [0x62], []]) CLASS_ANY TYPE_ANY 0] um"
  by (rule remove_name_message [where d = demo_domain])
    (simp_all add: demo_request_def demo_domain_def demo_texts)

section \<open>The state machine\<close>

text \<open>
  No exception leaves \<^verbatim>\<open>runModel\<close>, whatever the handlers of a derivation do.
\<close>

theorem run_model_throws_nothing:
  assumes "runModel V ev s = Some (Inl e, s')"
  shows "\<not> std_exception e"
  using assms by (rule runModel_no_throw)

theorem run_model_throws_nothing_witness: "\<not> std_exception NullPointer"
proof -
  define s :: "unit state_model" where "s = StateModel\<lparr>dictionaries_initted := True, states := [NEW_ST \<mapsto> st_entry NEW_ST ''NEW_ST'' ()],
    events := [START_EVT \<mapsto> ev_entry START_EVT ''START_EVT'']\<rparr>"
  define V :: "(unit, unit state_model) sm_virtuals" where
    "V = \<lparr>v_defineEvents = ret (), v_verifyEvents = ret (), v_defineStates = ret (), v_verifyStates = ret (),
      v_onModelFailure = (\<lambda>s. s), v_handler = (\<lambda>_. raise NullPointer)\<rparr>"
  have "\<exists>s'. runModel V START_EVT s = Some (Inl NullPointer, s')"
    by (simp add: runModel_def s_def V_def StateModel_def postNextEvent_def lvs_isDefined_def run_loop.simps run_current_def bindE_def
        getState_def ss_getState_def lvs_get_def raise_def)
  then show ?thesis
    using run_model_throws_nothing by blast
qed

section \<open>Choosing a domain\<close>

text \<open>
  C33.  The domain of a name is the one with the longest name that is a suffix of it at a label
  boundary, up to case; where none is, it is the wildcard domain, if there is one.
\<close>

theorem match_longest:
  assumes "\<not> (dlm_size mgr = 1 \<and> dlm_wildcard mgr \<noteq> None)"
  shows "if \<exists>(k, d) \<in> set (dlm_domains mgr). domain_matches req k
    then \<exists>d. matchDomain req mgr = Some d \<and> is_best_match req (dlm_domains mgr) d
    else matchDomain req mgr = dlm_wildcard mgr"
  using assms by (rule matchDomain_longest)

theorem match_longest_witness:
  "if \<exists>(k, d) \<in> set (dlm_domains \<lparr>dlm_name = [], dlm_domains = [(''b.'', demo_domain)], dlm_wildcard = None\<rparr>). domain_matches ''a.B.'' k
    then \<exists>d. matchDomain ''a.B.'' \<lparr>dlm_name = [], dlm_domains = [(''b.'', demo_domain)], dlm_wildcard = None\<rparr> = Some d \<and>
      is_best_match ''a.B.'' (dlm_domains \<lparr>dlm_name = [], dlm_domains = [(''b.'', demo_domain)], dlm_wildcard = None\<rparr>) d
    else matchDomain ''a.B.'' \<lparr>dlm_name = [], dlm_domains = [(''b.'', demo_domain)], dlm_wildcard = None\<rparr> =
      dlm_wildcard \<lparr>dlm_name = [], dlm_domains = [(''b.'', demo_domain)], dlm_wildcard = None\<rparr>"
  by (rule match_longest) simp

text \<open>
  The reverse name of an IPv4 address, which the daemon builds as text, is parsed to the name whose
  labels are the octets from the last to the first, under \<^verbatim>\<open>in-addr.arpa.\<close>
\<close>

theorem reverse_name_v4:
  assumes "length bs = 4"
  shows "\<exists>t. reverseV4Address (IPv4 bs) = Inr t \<and>
    Name_text t False = Inr (mk_name (map (map byte_of_char) (map (\<lambda>b. show_nat (unat b)) (rev bs) @ [''in-addr'', ''arpa'']) @ [[]]))"
  using assms by (rule reverseV4_name)

theorem reverse_name_v4_witness:
  "\<exists>t. reverseV4Address (IPv4 [192, 0, 2, 1]) = Inr t \<and>
    Name_text t False = Inr (mk_name (map (map byte_of_char) (map (\<lambda>b. show_nat (unat b)) (rev [192, 0, 2, 1 :: byte]) @ [''in-addr'', ''arpa'']) @ [[]]))"
  by (rule reverse_name_v4) simp

end
