(* ===== verification/Daemon_Properties.thy ===== *)
theory Daemon_Properties
  imports D2_UpdateRun Ddns_Properties
begin

text \<open>
  The properties of the DHCP-DDNS daemon as a whole: requests on the wire, the queue manager and its listener, and the
  update manager with the transactions it runs.
\<close>

section \<open>Requests on the wire\<close>

lemma demo_reads: "reads_integers demo_env"
  by (simp add: reads_integers_def demo_env_def plain_lexical_reads)

lemma demo_regroups: "regroups (transform_width demo_env)"
  using demo_env_ok by (simp add: env_ok_def)

lemma demo_canonical: "canonical_text ''a.b.''"
proof -
  have "setFqdn ''a.b.'' (demo_request CHG_ADD) = Inr (demo_request CHG_ADD)"
    by code_simp
  then show ?thesis
    using setFqdn_gives_canonical by (fastforce simp: demo_request_def)
qed

lemma demo_sendable: "sendable demo_env (demo_request ct)"
  using demo_canonical
  by (simp add: sendable_def demo_request_def validateContent_def plain_key_def getIpAddress_def demo_env_def time_limit_def)


lemma demo_json: "\<exists>json. ncr_toJSON demo_env (demo_request ct) = Inr json \<and> length json < 65536"
proof -
  obtain t where "timeToText64 0 = Inr t" "length t = 14"
    using time_round_trip [of 0] by (auto simp: time_limit_def DATE_LEN_def)
  moreover have "encodeHex (transform_width demo_env) [0, 1, 1, 7] = Inr (hex_text [0, 1, 1, 7])"
    using demo_regroups by (rule encodeHex_text)
  moreover have "length (hex_text [0, 1, 1, 7]) = 8"
    by (simp add: hex_text_def)
  moreover have "length (show_nat 3600) = 4"
    by code_simp
  ultimately show ?thesis
    by (cases ct) (simp_all add: ncr_toJSON_def dhcid_toStr_def getLeaseExpiresOnStr_def demo_request_def getIpAddress_def demo_env_def
        show_bool_def)
qed


text \<open>
  C17.  A datagram of any content is delivered, refused with a logged message, or makes one of two exceptions leave
  the completion handler: the type error of an element (the two octets \<^verbatim>\<open>[]\<close> are enough) and the failed assertion of the
  name parser.
\<close>

theorem datagram_exceptions:
  "(receiveCompletionHandler E c = HandlerThrows e \<longrightarrow> e = LibError TypeError \<or> e = LibError AssertionFailure) \<and>
   receiveCompletionHandler E (Received [0, 2, 0x5b, 0x5d]) = HandlerThrows (LibError TypeError)"
proof -
  have r: "readUint16 (InputBuffer [0, 2, 0x5b, 0x5d]) = (Inr 2, \<lparr>ib_data = [0, 2, 0x5b, 0x5d], ib_position = 2\<rparr>)"
    by code_simp
  have v: "readVector 2 \<lparr>ib_data = [0, 2, 0x5b, 0x5d], ib_position = 2\<rparr> =
      (Inr [0x5b, 0x5d], \<lparr>ib_data = [0, 2, 0x5b, 0x5d], ib_position = 4\<rparr>)"
    by code_simp
  have t: "char_of_byte 0x5b = CHR ''[''" "char_of_byte 0x5d = CHR '']''"
    by code_simp+
  have "fromJSON_in E ''[]'' = Inr (ListElement [], [])"
    by (subst fromJSON_in.simps) (simp add: charIn_def WHITESPACE_def fromStringstreamList.simps)
  then have "ncr_fromJSON E ''[]'' = Inl (LibError TypeError)"
    by (simp add: ncr_fromJSON_def fromJSON_def)
  then show ?thesis
    using receive_errors [of E c e] by (simp add: receiveCompletionHandler_def fromFormat_def r v t)
qed

theorem datagram_exceptions_witness:
  "LibError TypeError \<in> {LibError TypeError, LibError AssertionFailure} \<and>
   receiveCompletionHandler demo_env (Received [0, 2, 0x5b, 0x5d]) = HandlerThrows (LibError TypeError)"
  using datagram_exceptions [of demo_env "Received [0, 2, 0x5b, 0x5d]" "LibError TypeError"] by simp

section \<open>The queue manager\<close>


definition good_io :: socket_io where
  "good_io = \<lparr>open_fails = False, receive_fails = False, close_fails = False\<rparr>"

definition demo_queue :: queue_mgr where
  "demo_queue = \<lparr>max_queue_size = 1, ncr_queue = [], qm_listener = Some \<lparr>listening = True, io_pending = True, asio_socket = True, socket = True\<rparr>,
     mgr_state = RUNNING, target_stop_state = NOT_INITTED\<rparr>"

lemma demo_queue_reached: "qm_reach E demo_queue"
proof -
  define q0 where "q0 = \<lparr>max_queue_size = 1, ncr_queue = [], qm_listener = None, mgr_state = NOT_INITTED, target_stop_state = NOT_INITTED\<rparr>"
  define q1 where "q1 = q0\<lparr>qm_listener := Some \<lparr>listening = False, io_pending = False, asio_socket = False, socket = False\<rparr>, mgr_state := INITTED\<rparr>"
  have "qm_reach E q0"
    by (rule qm_created [of 1]) (simp add: D2QueueMgr_def setMaxQueueSize_def getQueueSize_def q0_def)
  then have "qm_reach E q1"
    by (rule qm_event [where ev = InitListener]) (simp_all add: initUDPListener_def q1_def q0_def)
  then show ?thesis
    by (rule qm_event [where ev = "StartListening good_io"])
      (simp_all add: qm_startListening_def listener_startListening_def listener_open_def receiveNext_def doReceive_def q1_def q0_def
        demo_queue_def good_io_def)
qed


text \<open>
  C14.  A request that arrives is appended to the queue where there is room, and the next receive is started (a failure of
  which stops the manager with the error state); on a full queue the request is dropped and the manager stops.
\<close>

theorem request_queued:
  assumes "qm_reach E q" "mgr_state q = RUNNING" "receiveCompletionHandler E c = InvokeRecvHandler LR_SUCCESS (Some r)"
  shows "\<exists>q'. complete_receive E io c q = (Inr (), q') \<and>
    (if length (ncr_queue q) < max_queue_size q
     then ncr_queue q' = ncr_queue q @ [Some r] \<and> mgr_state q' = (if receive_fails io then STOPPED_RECV_ERROR else RUNNING)
     else ncr_queue q' = ncr_queue q \<and> mgr_state q' = STOPPED_QUEUE_FULL \<and> \<not> amListening q')"
proof -
  note inv = reach_inv [OF assms(1)]
  obtain l where l: "qm_listener q = Some l" "listening l"
    using inv assms(2) by (auto simp: qm_inv_def amListening_def split: option.splits)
  show ?thesis
  proof (cases "getQueueSize q < max_queue_size q")
    case True
    then show ?thesis
      using receive_queued [OF inv True l(1) assms(3), of io] l assms(2)
      by (simp add: getQueueSize_def next_receive_def failed_to_def enqueue_def set_pending_def)
  next
    case False
    then show ?thesis
      using receive_stops(1) [OF inv l(1) assms(3) refl False, of io] by (simp add: getQueueSize_def failed_to_def amListening_def)
  qed
qed

theorem request_queued_witness:
  "\<exists>bs q'. complete_receive demo_env good_io (Received bs) demo_queue = (Inr (), q') \<and>
    (if length (ncr_queue demo_queue) < max_queue_size demo_queue
     then ncr_queue q' = ncr_queue demo_queue @ [Some (demo_request CHG_ADD)] \<and>
       mgr_state q' = (if receive_fails good_io then STOPPED_RECV_ERROR else RUNNING)
     else ncr_queue q' = ncr_queue demo_queue \<and> mgr_state q' = STOPPED_QUEUE_FULL \<and> \<not> amListening q')"
proof -
  obtain bs where "receiveCompletionHandler demo_env (Received bs) = InvokeRecvHandler LR_SUCCESS (Some (demo_request CHG_ADD))"
    using demo_json [of CHG_ADD] datagram_delivers [OF demo_reads demo_regroups demo_sendable, of CHG_ADD _ "OutputBuffer 0"]
    by (auto simp: wf_ob_def ob_contents_def OutputBuffer_def getCapacity_def)
  moreover have "mgr_state demo_queue = RUNNING"
    by (simp add: demo_queue_def)
  ultimately show ?thesis
    using request_queued [OF demo_queue_reached] by blast
qed





section \<open>The update manager\<close>


definition demo_update_mgr :: update_mgr where
  "demo_update_mgr = \<lparr>um_queue = demo_queue, max_transactions = 2, transaction_list = []\<rparr>"

lemma demo_lexer: "lexer_ok demo_env"
  by (simp add: lexer_ok_def demo_env_def)

definition demo_cfg :: d2_cfg where
  "demo_cfg = \<lparr>forward_mgr = \<lparr>dlm_name = [], dlm_domains = [(''b.'', demo_domain)], dlm_wildcard = None\<rparr>,
     reverse_mgr = DdnsDomainListMgr []\<rparr>"

lemma demo_cfg_fit: "fit_cfg demo_cfg"
  by (simp add: fit_cfg_def demo_cfg_def mgr_domains_def DdnsDomainListMgr_def demo_domain_def safe_text_def demo_texts)

lemma demo_update_mgr_reached: "um_reach E demo_update_mgr"
proof -
  define q0 where "q0 = \<lparr>max_queue_size = 1, ncr_queue = [], qm_listener = None, mgr_state = NOT_INITTED, target_stop_state = NOT_INITTED\<rparr>"
  define q1 where "q1 = q0\<lparr>qm_listener := Some \<lparr>listening = False, io_pending = False, asio_socket = False, socket = False\<rparr>, mgr_state := INITTED\<rparr>"
  have "um_reach E \<lparr>um_queue = q0, max_transactions = 2, transaction_list = []\<rparr>"
    by (rule um_created [of 1 q0 2])
      (simp_all add: D2QueueMgr_def setMaxQueueSize_def getQueueSize_def q0_def D2UpdateMgr_def setMaxTransactions_def getTransactionCount_def)
  then have "um_reach E \<lparr>um_queue = q1, max_transactions = 2, transaction_list = []\<rparr>"
    by (rule um_event [where ev = "QueueEvent InitListener"]) (simp_all add: initUDPListener_def q1_def q0_def decoded_def)
  then show ?thesis
    by (rule um_event [where ev = "QueueEvent (StartListening good_io)"])
      (simp_all add: qm_startListening_def listener_startListening_def listener_open_def receiveNext_def doReceive_def q1_def q0_def
        demo_queue_def good_io_def decoded_def demo_update_mgr_def)
qed

text \<open>The daemon of the example after a request has been received and a sweep has started its transaction.\<close>

lemma demo_run:
  obtains u res u' where "um_reach demo_env u" "um_reach demo_env u'" "sweep demo_env False demo_cfg u = Some (res, u')"
    "map (dhcid \<circ> the) (ncr_queue (um_queue u)) = [[0, 1, 1, 7]]" "transaction_list u = []" "max_transactions u = 2"
proof -
  obtain bs where bs: "receiveCompletionHandler demo_env (Received bs) = InvokeRecvHandler LR_SUCCESS (Some (demo_request CHG_ADD))"
    using demo_json [of CHG_ADD] datagram_delivers [OF demo_reads demo_regroups demo_sendable, of CHG_ADD _ "OutputBuffer 0"]
    by (auto simp: wf_ob_def ob_contents_def OutputBuffer_def getCapacity_def)
  let ?ev = "Completed good_io (Received bs)"
  let ?l = "\<lparr>listening = True, io_pending = True, asio_socket = True, socket = True\<rparr>"
  have "qm_do demo_env ?ev demo_queue = (Inr (), demo_queue\<lparr>ncr_queue := [Some (demo_request CHG_ADD)]\<rparr>)"
    using receive_queued [OF reach_inv [OF demo_queue_reached [of demo_env]] _ _ bs, of ?l good_io]
    by (simp add: demo_queue_def getQueueSize_def next_receive_def good_io_def enqueue_def set_pending_def)
  then have "um_do demo_env (QueueEvent ?ev) demo_update_mgr =
      Some (Inr (), demo_update_mgr\<lparr>um_queue := demo_queue\<lparr>ncr_queue := [Some (demo_request CHG_ADD)]\<rparr>\<rparr>)"
    by (simp add: demo_update_mgr_def)
  moreover have "um_enabled demo_env (QueueEvent ?ev) demo_update_mgr"
    by (simp add: demo_update_mgr_def demo_queue_def decoded_def bs demo_request_def time_limit_def)
  ultimately have r: "um_reach demo_env (demo_update_mgr\<lparr>um_queue := demo_queue\<lparr>ncr_queue := [Some (demo_request CHG_ADD)]\<rparr>\<rparr>)"
    by (intro um_event [OF demo_update_mgr_reached])
  let ?u = "demo_update_mgr\<lparr>um_queue := demo_queue\<lparr>ncr_queue := [Some (demo_request CHG_ADD)]\<rparr>\<rparr>"
  obtain res u' where s: "sweep demo_env False demo_cfg ?u = Some (res, u')"
    using sweep_spec [OF demo_env_ok demo_lexer demo_cfg_fit um_reach_inv [OF demo_env_ok demo_lexer r]] by blast
  then have "um_reach demo_env u'"
    by (intro um_event [OF r, of "Sweep False demo_cfg"]) (simp_all add: demo_cfg_fit)
  from r this s show thesis
    by (rule that) (simp_all add: demo_update_mgr_def demo_request_def)
qed




section \<open>The scheduler\<close>

text \<open>
  What the update manager promises, on keys alone: given the keys of the running transactions and the keys of the queued
  requests in the order of their arrival, a job is the first queued key that is not running, if there is one and if
  the number of running transactions is below the maximum.
\<close>

fun first_free :: "'k set \<Rightarrow> 'k list \<Rightarrow> ('k \<times> 'k list) option" where
  "first_free B [] = None"
| "first_free B (k # ks) = (if k \<notin> B then Some (k, ks) else map_option (\<lambda>(j, rest). (j, k # rest)) (first_free B ks))"

definition schedule :: "nat \<Rightarrow> 'k set \<Rightarrow> 'k list \<Rightarrow> 'k option \<times> 'k list" where
  "schedule n B ks =
     (if card B \<ge> n then (None, ks) else case first_free B ks of None \<Rightarrow> (None, ks) | Some (k, rest) \<Rightarrow> (Some k, rest))"

definition running :: "update_mgr \<Rightarrow> transaction_key set" where
  "running u = fst ` {e \<in> set (transaction_list u). \<not> trans_done (snd e)}"

definition queued :: "update_mgr \<Rightarrow> transaction_key list" where
  "queued u = map (dhcid \<circ> the) (ncr_queue (um_queue u))"

lemma first_free_None: "\<forall>k \<in> set ks. k \<in> B \<Longrightarrow> first_free B ks = None"
  by (induction ks) auto

lemma first_free_Some: "\<forall>k \<in> set ks. k \<in> B \<Longrightarrow> j \<notin> B \<Longrightarrow> first_free B (ks @ j # rest) = Some (j, ks @ rest)"
  by (induction ks) auto

lemma checkFinished_running:
  assumes "um_inv E u"
  shows "getTransactionCount (checkFinishedTransactions u) = card (running u)"
    "fst ` set (transaction_list (checkFinishedTransactions u)) = running u"
    "queued (checkFinishedTransactions u) = queued u"
proof -
  let ?m = "filter (\<lambda>e. \<not> trans_done (snd e)) (transaction_list u)"
  have "wf_map ?m"
    using assms by (simp add: um_inv_def wf_filter)
  then have "card (fst ` set ?m) = length ?m"
    using wf_map_distinct [of ?m] distinct_card [of "map fst ?m"] by simp
  then show "getTransactionCount (checkFinishedTransactions u) = card (running u)"
    "fst ` set (transaction_list (checkFinishedTransactions u)) = running u" "queued (checkFinishedTransactions u) = queued u"
    by (simp_all add: running_def checkFinishedTransactions_def finished_loop_filter getTransactionCount_def queued_def)
qed

lemma busy_key:
  assumes "um_inv E u" "e \<in> set (ncr_queue (um_queue u))"
  shows "busy u e \<longleftrightarrow> (dhcid \<circ> the) e \<in> fst ` set (transaction_list u)"
proof -
  obtain r where "e = Some r"
    using queued_fit [OF assms] by blast
  then show ?thesis
    by (simp add: busy_def hasTransaction_def findTransaction_def find_None_iff)
qed

lemma pick_refines:
  assumes "um_inv E u" "pick_outcome E u res u'"
  defines "B \<equiv> fst ` set (transaction_list u)"
  shows "case first_free B (queued u) of
      None \<Rightarrow> u' = u
    | Some (k, rest) \<Rightarrow> queued u' = rest \<and> (fst ` set (transaction_list u') = B \<or> fst ` set (transaction_list u') = insert k B)"
  using assms(2) unfolding pick_outcome_def
proof (elim disjE exE conjE)
  assume "\<forall>e \<in> set (ncr_queue (um_queue u)). busy u e" "u' = u"
  then have "first_free B (queued u) = None"
    using busy_key [OF assms(1)] by (intro first_free_None) (auto simp: queued_def B_def)
  then show ?thesis
    using \<open>u' = u\<close> by simp
next
  fix pre r post
  assume q: "ncr_queue (um_queue u) = pre @ Some r # post" and b: "\<forall>e \<in> set pre. busy u e" "\<not> busy u (Some r)"
    and s: "started_or_dropped E r (with_queue (pre @ post) u) res u'"
  have "\<forall>k \<in> set (map (dhcid \<circ> the) pre). k \<in> B" "dhcid r \<notin> B"
    using b busy_key [OF assms(1)] q by (auto simp: B_def)
  then have "first_free B (queued u) = Some (dhcid r, map (dhcid \<circ> the) (pre @ post))"
    using first_free_Some [of "map (dhcid \<circ> the) pre" B "dhcid r"] q by (simp add: queued_def)
  moreover have "queued u' = map (dhcid \<circ> the) (pre @ post)"
    "fst ` set (transaction_list u') = B \<or> fst ` set (transaction_list u') = insert (dhcid r) B"
    using s unfolding started_or_dropped_def
    by (elim disjE conjE exE; simp add: with_queue_def put_transaction_def queued_def B_def)+
  ultimately show ?thesis
    by simp
qed



end
